(* ===== verification/Prelude.thy ===== *)
theory Prelude
  imports Main "HOL-Library.Word" "HOL-Library.Code_Target_Numeral"
begin

text \<open>
  Shared vocabulary of the development: the machine integer types of the Rust code, the
  saturating and widening arithmetic it uses, the result type that stands for panics and
  \<^verbatim>\<open>Result\<close> values, fixed arrays of two elements, and the generic lemmas on lists that
  several components rely on.
\<close>

named_theorems rust_arith \<open>saturating and widening arithmetic, read as natural numbers\<close>
named_theorems series_simps \<open>facts about time-indexed sample series\<close>
named_theorems inv_intros \<open>an operation keeps an invariant\<close>

section \<open>Machine integers\<close>

type_synonym u8 = "8 word"
type_synonym u16 = "16 word"
type_synonym u32 = "32 word"
type_synonym u64 = "64 word"

text \<open>
  \<^verbatim>\<open>usize\<close> values of the code count elements held in memory; they are natural numbers here,
  and \<^verbatim>\<open>usize::saturating_sub\<close> is the truncating subtraction of \<open>nat\<close>.
\<close>

type_synonym usize = nat
type_synonym i64 = int

definition u64_max :: u64 where
  "u64_max = 0xFFFFFFFFFFFFFFFF"

text \<open>\<^verbatim>\<open>saturating_sub\<close>, \<^verbatim>\<open>saturating_add\<close>, \<^verbatim>\<open>saturating_mul\<close>.\<close>

definition sat_sub :: "'a::len word \<Rightarrow> 'a word \<Rightarrow> 'a word" where
  "sat_sub a b = (if b \<le> a then a - b else 0)"

definition sat_add :: "u64 \<Rightarrow> u64 \<Rightarrow> u64" where
  "sat_add a b = (if unat a + unat b < 2 ^ 64 then a + b else u64_max)"

definition sat_mul :: "u64 \<Rightarrow> u64 \<Rightarrow> u64" where
  "sat_mul a b = (if unat a * unat b < 2 ^ 64 then a * b else u64_max)"

text \<open>\<^verbatim>\<open>u64::try_from(n).unwrap_or(u64::MAX)\<close> for a \<^verbatim>\<open>u128\<close> value \<open>n\<close>.\<close>

definition u64_of :: "nat \<Rightarrow> u64" where
  "u64_of n = (if n < 2 ^ 64 then of_nat n else u64_max)"

text \<open>\<^verbatim>\<open>u128::saturating_mul\<close> on values read as natural numbers.\<close>

definition sat_mul128 :: "nat \<Rightarrow> nat \<Rightarrow> nat" where
  "sat_mul128 a b = min (a * b) (2 ^ 128 - 1)"

text \<open>Code equations with the powers of two written out, for evaluating the model.\<close>

lemma take_bit_int_code [code]:
  "take_bit n (k :: int) =
     (if n = 64 then k mod 18446744073709551616 else if n = 32 then k mod 4294967296
      else if n = 16 then k mod 65536 else if n = 8 then k mod 256 else k mod 2 ^ n)"
  by (simp add: take_bit_eq_mod)

lemma u64_of_code [code]: "u64_of n = (if n < 18446744073709551616 then of_nat n else u64_max)"
  by (simp add: u64_of_def)

lemma sat_mul128_code [code]: "sat_mul128 a b = min (a * b) 340282366920938463463374607431768211455"
  by (simp add: sat_mul128_def)

lemma unat_u64_max [simp, rust_arith]: "unat u64_max = 2 ^ 64 - 1"
  by (simp add: u64_max_def)

lemma unat_lt_u64 [simp]: "unat (x :: u64) < 2 ^ 64"
  using unsigned_less [of x] by simp

lemma unat_sat_sub [rust_arith]: "unat (sat_sub a b) = unat a - unat b"
  by (simp add: sat_sub_def unat_sub word_le_nat_alt)

lemma unat_sat_add [rust_arith]: "unat (sat_add a b) = min (unat a + unat b) (2 ^ 64 - 1)"
  by (auto simp: sat_add_def unat_word_ariths)

lemma unat_sat_mul [rust_arith]: "unat (sat_mul a b) = min (unat a * unat b) (2 ^ 64 - 1)"
  by (auto simp: sat_mul_def unat_word_ariths)

lemma unat_u64_of [rust_arith]: "unat (u64_of n) = min n (2 ^ 64 - 1)"
  by (auto simp: u64_of_def unat_of_nat)

lemma u64_of_mono: "m \<le> n \<Longrightarrow> u64_of m \<le> u64_of n"
  by (simp add: word_le_nat_alt unat_u64_of)

lemma sat_sub_mono: "a \<le> b \<Longrightarrow> sat_sub a c \<le> sat_sub b c"
  by (simp add: word_le_nat_alt unat_sat_sub)

lemma sat_sub_le [simp]: "sat_sub a b \<le> a"
  by (simp add: word_le_nat_alt unat_sat_sub)

lemma sat_sub_self [simp]: "sat_sub a a = 0"
  by (simp add: sat_sub_def)

section \<open>Results and panics\<close>

text \<open>
  A Rust \<^verbatim>\<open>Result<T, E>\<close> is a sum with the error on the left. A panic is an error too:
  an out-of-range index, \<^verbatim>\<open>Ord::clamp\<close> called with its bounds the wrong way round, integer
  arithmetic that overflows (which a build without overflow checks would wrap), or a terminal that
  cannot be set up.
\<close>

datatype panic = IndexOutOfBounds | ClampMinGtMax | ArithmeticOverflow | TerminalSetup

text \<open>The \<^verbatim>\<open>?\<close> operator.\<close>

definition and_then :: "'e + 'a \<Rightarrow> ('a \<Rightarrow> 'e + 'b) \<Rightarrow> 'e + 'b" where
  "and_then r f = (case r of Inl e \<Rightarrow> Inl e | Inr x \<Rightarrow> f x)"

lemma and_then_simps [simp]:
  "and_then (Inl e) f = Inl e"
  "and_then (Inr x) f = f x"
  by (simp_all add: and_then_def)

lemma and_then_Inr_iff: "and_then r f = Inr y \<longleftrightarrow> (\<exists>x. r = Inr x \<and> f x = Inr y)"
  by (cases r) auto

lemma map_sum_InrD: "map_sum id f r = Inr y \<Longrightarrow> \<exists>x. r = Inr x \<and> f x = y"
  by (cases r) auto

text \<open>\<^verbatim>\<open>Option::ok_or\<close>.\<close>

definition ok_or :: "'e \<Rightarrow> 'a option \<Rightarrow> 'e + 'a" where
  "ok_or e x = (case x of None \<Rightarrow> Inl e | Some v \<Rightarrow> Inr v)"

lemma ok_or_simps [simp]:
  "ok_or e None = Inl e"
  "ok_or e (Some v) = Inr v"
  by (simp_all add: ok_or_def)

text \<open>A loop whose body may fail: it stops at the first error.\<close>

fun try_fold :: "('s \<Rightarrow> 'i \<Rightarrow> 'e + 's) \<Rightarrow> 's \<Rightarrow> 'i list \<Rightarrow> 'e + 's" where
  "try_fold f s [] = Inr s"
| "try_fold f s (x # xs) = and_then (f s x) (\<lambda>s'. try_fold f s' xs)"

lemma try_fold_append:
  "try_fold f s (xs @ ys) = and_then (try_fold f s xs) (\<lambda>s'. try_fold f s' ys)"
proof (induction xs arbitrary: s)
  case Nil
  then show ?case by simp
next
  case (Cons x xs)
  then show ?case by (cases "f s x") simp_all
qed

text \<open>\<^verbatim>\<open>Ord::clamp\<close> asserts that its bounds are ordered.\<close>

definition clamp :: "'a::linorder \<Rightarrow> 'a \<Rightarrow> 'a \<Rightarrow> panic + 'a" where
  "clamp lo hi x =
     (if hi < lo then Inl ClampMinGtMax
      else Inr (if x < lo then lo else if hi < x then hi else x))"

lemma clamp_ok: "lo \<le> hi \<Longrightarrow> clamp lo hi x = Inr (max lo (min hi x))"
  by (auto simp: clamp_def max_def min_def)

section \<open>Machines whose steps may fail\<close>

text \<open>
  The contract of a component that folds events into a state: in a state that satisfies the
  invariant no step fails and every step keeps the invariant. The engine, the capture faucets
  and the interactive application are instances. The invariant may speak of the number of
  steps made, for the counters of the code that have a width, up to a bound.
\<close>

locale machine =
  fixes step :: "'s \<Rightarrow> 'i \<Rightarrow> 'e + 's"
    and inv :: "nat \<Rightarrow> 's \<Rightarrow> bool"
    and bound :: nat
  assumes step_ok: "inv k s \<Longrightarrow> k < bound \<Longrightarrow> \<exists>s'. step s i = Inr s' \<and> inv (Suc k) s'"
begin

lemma run_ok:
  assumes "inv k s" and "k + length xs \<le> bound"
  shows "\<exists>s'. try_fold step s xs = Inr s' \<and> inv (k + length xs) s'"
  using assms
proof (induction xs arbitrary: k s)
  case Nil
  then show ?case by simp
next
  case (Cons x xs)
  from Cons.prems have "k < bound" by simp
  with Cons.prems(1) obtain s1 where s1: "step s x = Inr s1" "inv (Suc k) s1"
    using step_ok by blast
  moreover from Cons.prems have "Suc k + length xs \<le> bound" by simp
  ultimately obtain s' where "try_fold step s1 xs = Inr s'" "inv (Suc k + length xs) s'"
    using Cons.IH by blast
  with s1 show ?case by simp
qed

lemma run_inv:
  assumes "inv k s" and "k + length xs \<le> bound" and "try_fold step s xs = Inr s'"
  shows "inv (k + length xs) s'"
  using run_ok [OF assms(1,2)] assms(3) by auto

end

section \<open>Arrays of two elements\<close>

text \<open>
  The engine keeps per-direction state in arrays \<^verbatim>\<open>[T; 2]\<close> indexed by 0 and 1. An array is a
  pair here, read and written by the index.
\<close>

definition sel2 :: "'a \<times> 'a \<Rightarrow> nat \<Rightarrow> 'a" where
  "sel2 p i = (if i = 0 then fst p else snd p)"

definition upd2 :: "'a \<times> 'a \<Rightarrow> nat \<Rightarrow> 'a \<Rightarrow> 'a \<times> 'a" where
  "upd2 p i x = (if i = 0 then (x, snd p) else (fst p, x))"

lemma sel2_upd2_same [simp]: "sel2 (upd2 p i x) i = x"
  by (simp add: sel2_def upd2_def)

lemma sel2_upd2_other [simp]: "(i = 0) \<noteq> (j = 0) \<Longrightarrow> sel2 (upd2 p i x) j = sel2 p j"
  by (auto simp: sel2_def upd2_def)

lemma sel2_pair [simp]: "sel2 (a, b) 0 = a" "sel2 (a, b) (Suc i) = b"
  by (simp_all add: sel2_def)

section \<open>Lists\<close>

text \<open>
  \<^verbatim>\<open>slice::partition_point\<close> of the standard library: the branch-free binary search behind
  \<^verbatim>\<open>binary_search_by\<close> (the loop keeps \<open>base\<close> and halves \<open>sz\<close>), with \<open>pred\<close> read as
  \<^verbatim>\<open>Less\<close> and its negation as \<^verbatim>\<open>Greater\<close>.
\<close>

function partition_search :: "('a \<Rightarrow> bool) \<Rightarrow> 'a list \<Rightarrow> nat \<Rightarrow> nat \<Rightarrow> nat" where
  "partition_search pred xs base sz =
     (if sz \<le> 1 then base
      else let half = sz div 2; mid = base + half
           in partition_search pred xs (if pred (xs ! mid) then mid else base) (sz - half))"
  by pat_completeness auto
termination
  by (relation "measure (\<lambda>(pred, xs, base, sz). sz)") auto

declare partition_search.simps [simp del]

definition partition_point :: "('a \<Rightarrow> bool) \<Rightarrow> 'a list \<Rightarrow> nat" where
  "partition_point pred xs =
     (if xs = [] then 0
      else let base = partition_search pred xs 0 (length xs)
           in base + (if pred (xs ! base) then 1 else 0))"

text \<open>The slice is partitioned: all elements that satisfy \<open>pred\<close> come first.\<close>

definition partitioned :: "('a \<Rightarrow> bool) \<Rightarrow> 'a list \<Rightarrow> bool" where
  "partitioned pred xs \<longleftrightarrow> (\<forall>i j. i \<le> j \<longrightarrow> j < length xs \<longrightarrow> pred (xs ! j) \<longrightarrow> pred (xs ! i))"

lemma partition_search_spec:
  assumes "partitioned pred xs" and "0 < sz" and "base + sz \<le> length xs"
    and "base = 0 \<or> pred (xs ! base)"
    and "\<forall>j. base + sz \<le> j \<longrightarrow> j < length xs \<longrightarrow> \<not> pred (xs ! j)"
  shows "partition_search pred xs base sz < length xs
    \<and> (partition_search pred xs base sz = 0 \<or> pred (xs ! partition_search pred xs base sz))
    \<and> (\<forall>j. Suc (partition_search pred xs base sz) \<le> j \<longrightarrow> j < length xs \<longrightarrow> \<not> pred (xs ! j))"
  using assms
proof (induction pred xs base sz rule: partition_search.induct)
  case (1 pred xs base sz)
  show ?case
  proof (cases "sz \<le> 1")
    case True
    with 1 show ?thesis by (simp add: partition_search.simps [of pred xs base sz])
  next
    case False
    define half where "half = sz div 2"
    define base' where "base' = (if pred (xs ! (base + half)) then base + half else base)"
    have half: "0 < half" "half < sz" using False by (auto simp: half_def)
    have rec: "partition_search pred xs base sz = partition_search pred xs base' (sz - half)"
      using False
      by (simp add: partition_search.simps [of pred xs base sz] half_def base'_def Let_def)
    have above: "\<forall>j. base' + (sz - half) \<le> j \<longrightarrow> j < length xs \<longrightarrow> \<not> pred (xs ! j)"
    proof (cases "pred (xs ! (base + half))")
      case True
      then show ?thesis using "1.prems"(5) half by (simp add: base'_def)
    next
      case notp: False
      show ?thesis
      proof (intro allI impI notI)
        fix j assume j: "base' + (sz - half) \<le> j" "j < length xs" "pred (xs ! j)"
        have "sz - half \<ge> half" by (simp add: half_def)
        with j notp have "base + half \<le> j" by (simp add: base'_def)
        with j "1.prems"(1) have "pred (xs ! (base + half))"
          unfolding partitioned_def by blast
        with notp show False by simp
      qed
    qed
    have low: "base' = 0 \<or> pred (xs ! base')" using "1.prems"(4) by (simp add: base'_def)
    have fit: "base' + (sz - half) \<le> length xs"
      using "1.prems"(3) half by (auto simp: base'_def)
    have pos: "0 < sz - half" using half by simp
    show ?thesis unfolding rec
      by (rule "1.IH" [OF False half_def refl, folded base'_def, OF "1.prems"(1) pos fit low above])
  qed
qed

text \<open>On a partitioned slice the search counts the leading elements that satisfy \<open>pred\<close>.\<close>

lemma partition_point_unique:
  assumes "\<forall>i<n. pred (xs ! i)" and "\<forall>j. n \<le> j \<longrightarrow> j < length xs \<longrightarrow> \<not> pred (xs ! j)"
    and "n \<le> length xs"
  shows "n = length (takeWhile pred xs)"
  using assms
proof (induction xs arbitrary: n)
  case Nil
  then show ?case by simp
next
  case (Cons x xs)
  show ?case
  proof (cases n)
    case 0
    with Cons.prems(2) show ?thesis by auto
  next
    case (Suc m)
    have "pred x" using Cons.prems(1) Suc by auto
    moreover have "m = length (takeWhile pred xs)"
    proof (rule Cons.IH)
      show "\<forall>i<m. pred (xs ! i)" using Cons.prems(1) Suc by auto
      show "\<forall>j. m \<le> j \<longrightarrow> j < length xs \<longrightarrow> \<not> pred (xs ! j)"
        using Cons.prems(2) Suc by (metis Suc_le_mono Suc_less_eq length_Cons nth_Cons_Suc)
      show "m \<le> length xs" using Cons.prems(3) Suc by simp
    qed
    ultimately show ?thesis using Suc by simp
  qed
qed

lemma partition_point_eq:
  assumes "partitioned pred xs"
  shows "partition_point pred xs = length (takeWhile pred xs)"
proof (cases "xs = []")
  case True
  then show ?thesis by (simp add: partition_point_def)
next
  case False
  define b where "b = partition_search pred xs 0 (length xs)"
  have b: "b < length xs" "b = 0 \<or> pred (xs ! b)"
      "\<forall>j. Suc b \<le> j \<longrightarrow> j < length xs \<longrightarrow> \<not> pred (xs ! j)"
    using partition_search_spec [OF assms, of "length xs" 0] False by (auto simp: b_def)
  let ?n = "b + (if pred (xs ! b) then 1 else 0)"
  have "?n = length (takeWhile pred xs)"
  proof (rule partition_point_unique)
    show "\<forall>i<?n. pred (xs ! i)"
    proof (intro allI impI)
      fix i assume "i < ?n"
      then have "i \<le> b" "pred (xs ! b)" using b(2) by (auto split: if_splits)
      with assms b(1) show "pred (xs ! i)" unfolding partitioned_def by blast
    qed
    show "\<forall>j. ?n \<le> j \<longrightarrow> j < length xs \<longrightarrow> \<not> pred (xs ! j)"
    proof (intro allI impI)
      fix j assume j: "?n \<le> j" "j < length xs"
      show "\<not> pred (xs ! j)"
      proof (cases "pred (xs ! b)")
        case True
        with j b(3) show ?thesis by simp
      next
        case notb: False
        with j have "b \<le> j" by simp
        with notb j(2) assms show ?thesis unfolding partitioned_def by blast
      qed
    qed
    show "?n \<le> length xs" using b(1) by simp
  qed
  with False show ?thesis by (simp add: partition_point_def b_def)
qed

text \<open>A slice sorted by a key is partitioned by any upper bound on the key.\<close>

lemma partitioned_sorted_le:
  assumes "sorted (map key xs)"
  shows "partitioned (\<lambda>x. key x \<le> (t :: 'k::linorder)) xs"
  unfolding partitioned_def
proof (intro allI impI)
  fix i j assume ij: "i \<le> j" "j < length xs" "key (xs ! j) \<le> t"
  have "map key xs ! i \<le> map key xs ! j" using sorted_nth_mono [OF assms, of i j] ij by simp
  with ij show "key (xs ! i) \<le> t" by simp
qed

lemma partitioned_sorted_lt:
  assumes "sorted (map key xs)"
  shows "partitioned (\<lambda>x. key x < (t :: 'k::linorder)) xs"
  unfolding partitioned_def
proof (intro allI impI)
  fix i j assume ij: "i \<le> j" "j < length xs" "key (xs ! j) < t"
  have "map key xs ! i \<le> map key xs ! j" using sorted_nth_mono [OF assms, of i j] ij by simp
  with ij show "key (xs ! i) < t" by simp
qed

lemma takeWhile_sorted_filter:
  "sorted (map key xs) \<Longrightarrow> takeWhile (\<lambda>x. key x \<le> (t :: 'k::linorder)) xs = filter (\<lambda>x. key x \<le> t) xs"
proof (induction xs)
  case Nil
  then show ?case by simp
next
  case (Cons x xs)
  show ?case
  proof (cases "key x \<le> t")
    case True
    with Cons show ?thesis by simp
  next
    case False
    with Cons.prems have "\<forall>y\<in>set xs. \<not> key y \<le> t" by auto
    with False show ?thesis by simp
  qed
qed

end
