(* ===== verification/Std_Fmt.thy ===== *)
theory Std_Fmt
  imports Prelude
begin

text \<open>
  The parts of Rust's \<^verbatim>\<open>core::fmt\<close> and \<^verbatim>\<open>core::net\<close> that the program prints with: decimal and
  hexadecimal integers, zero padding, IP addresses. IP addresses are ordered as
  \<^verbatim>\<open>core::net::IpAddr\<close> orders them (every IPv4 address before every IPv6 address, octets
  compared from the most significant one), which the canonical endpoint order rests on.
\<close>

section \<open>Numbers\<close>

definition digit :: "nat \<Rightarrow> char" where
  "digit d = char_of (if d < 10 then 48 + d else 87 + d)"

text \<open>Digits of \<open>n\<close> in base \<open>b\<close>, the most significant first.\<close>

function show_base :: "nat \<Rightarrow> nat \<Rightarrow> string" where
  "show_base b n =
     (if b < 2 \<or> n < b then [digit n] else show_base b (n div b) @ [digit (n mod b)])"
  by pat_completeness auto
termination
  by (relation "measure (\<lambda>(b, n). n)") auto

declare show_base.simps [simp del]

abbreviation show_dec :: "nat \<Rightarrow> string" where
  "show_dec \<equiv> show_base 10"

abbreviation show_hex :: "nat \<Rightarrow> string" where
  "show_hex \<equiv> show_base 16"

text \<open>\<^verbatim>\<open>{:0w}\<close>: padded with zeros on the left to the width \<open>w\<close>.\<close>

definition pad_zero :: "nat \<Rightarrow> string \<Rightarrow> string" where
  "pad_zero w s = replicate (w - length s) (CHR ''0'') @ s"

text \<open>\<^verbatim>\<open>{:>w}\<close>: padded with spaces on the left to the width \<open>w\<close>.\<close>

definition pad_left :: "nat \<Rightarrow> string \<Rightarrow> string" where
  "pad_left w s = replicate (w - length s) (CHR '' '') @ s"

text \<open>Reading a string of decimal digits back.\<close>

definition dec_value :: "string \<Rightarrow> nat" where
  "dec_value s = foldl (\<lambda>n c. 10 * n + (of_char c - 48)) 0 s"

definition is_dec_digit :: "char \<Rightarrow> bool" where
  "is_dec_digit c \<longleftrightarrow> 48 \<le> (of_char c :: nat) \<and> (of_char c :: nat) < 58"

lemma of_char_digit [simp]: "d < 10 \<Longrightarrow> (of_char (digit d) :: nat) = 48 + d"
  by (simp add: digit_def)

lemma show_dec_digits: "\<forall>c\<in>set (show_dec n). is_dec_digit c"
proof (induction "10 :: nat" n rule: show_base.induct)
  case (1 n)
  show ?case
  proof (cases "n < 10")
    case True
    then show ?thesis by (simp add: show_base.simps [of 10 n] is_dec_digit_def)
  next
    case False
    with "1.hyps" show ?thesis
      by (auto simp: show_base.simps [of 10 n] is_dec_digit_def)
  qed
qed

lemma dec_value_snoc: "dec_value (s @ [c]) = 10 * dec_value s + (of_char c - 48)"
  by (simp add: dec_value_def)

lemma dec_value_show_dec: "dec_value (show_dec n) = n"
proof (induction "10 :: nat" n rule: show_base.induct)
  case (1 n)
  show ?case
  proof (cases "n < 10")
    case True
    then show ?thesis by (simp add: show_base.simps [of 10 n] dec_value_def)
  next
    case False
    with "1.hyps" show ?thesis
      by (simp add: show_base.simps [of 10 n] dec_value_snoc)
  qed
qed

lemma dec_value_replicate_zero: "dec_value (replicate k (CHR ''0'') @ s) = dec_value s"
  by (induction k) (simp_all add: dec_value_def)

lemma dec_value_pad_zero [simp]: "dec_value (pad_zero w s) = dec_value s"
  by (simp add: pad_zero_def dec_value_replicate_zero)

lemma length_show_dec_le: "n < 10 ^ k \<Longrightarrow> 0 < k \<Longrightarrow> length (show_dec n) \<le> k"
proof (induction k arbitrary: n)
  case 0
  then show ?case by simp
next
  case (Suc k)
  show ?case
  proof (cases "n < 10")
    case True
    then show ?thesis by (simp add: show_base.simps [of 10 n])
  next
    case False
    with Suc.prems have "0 < k" by (cases k) simp_all
    with Suc.prems have "length (show_dec (n div 10)) \<le> k"
      by (intro Suc.IH) (simp_all add: less_mult_imp_div_less)
    with False show ?thesis by (simp add: show_base.simps [of 10 n])
  qed
qed

section \<open>IP addresses\<close>

text \<open>\<^verbatim>\<open>core::net::IpAddr\<close>, with the octets of an address read as one big-endian number.\<close>

datatype ip_addr = V4 "32 word" | V6 "128 word"

instantiation ip_addr :: linorder
begin

definition less_eq_ip_addr :: "ip_addr \<Rightarrow> ip_addr \<Rightarrow> bool" where
  "less_eq_ip_addr a b =
     (case (a, b) of
        (V4 x, V4 y) \<Rightarrow> x \<le> y
      | (V4 _, V6 _) \<Rightarrow> True
      | (V6 _, V4 _) \<Rightarrow> False
      | (V6 x, V6 y) \<Rightarrow> x \<le> y)"

definition less_ip_addr :: "ip_addr \<Rightarrow> ip_addr \<Rightarrow> bool" where
  "less_ip_addr a b \<longleftrightarrow> a \<le> b \<and> \<not> b \<le> a"

instance
  by standard (auto simp: less_eq_ip_addr_def less_ip_addr_def split: ip_addr.splits)

end

definition show_v4 :: "32 word \<Rightarrow> string" where
  "show_v4 a =
     show_dec (unat a div 2 ^ 24) @ ''.'' @ show_dec (unat a div 2 ^ 16 mod 256) @ ''.''
     @ show_dec (unat a div 2 ^ 8 mod 256) @ ''.'' @ show_dec (unat a mod 256)"

text \<open>The eight 16-bit segments of an IPv6 address, the most significant first.\<close>

definition v6_segments :: "128 word \<Rightarrow> nat list" where
  "v6_segments a = map (\<lambda>i. unat a div 2 ^ (16 * (7 - i)) mod 2 ^ 16) [0..<8]"

text \<open>
  The search for the longest run of zero segments: \<open>(start, len)\<close> of the longest run seen and
  of the current one; the first of several longest runs wins.
\<close>

fun zero_span :: "nat list \<Rightarrow> nat \<Rightarrow> nat \<times> nat \<Rightarrow> nat \<times> nat \<Rightarrow> nat \<times> nat" where
  "zero_span [] i longest current = longest"
| "zero_span (s # ss) i longest current =
     (if s = 0
      then let start = (if snd current = 0 then i else fst current);
               current' = (start, Suc (snd current))
           in zero_span ss (Suc i) (if snd longest < snd current' then current' else longest) current'
      else zero_span ss (Suc i) longest (0, 0))"

fun fmt_subslice :: "nat list \<Rightarrow> string" where
  "fmt_subslice [] = ''''"
| "fmt_subslice [s] = show_hex s"
| "fmt_subslice (s # ss) = show_hex s @ '':'' @ fmt_subslice ss"

definition show_v6 :: "128 word \<Rightarrow> string" where
  "show_v6 a =
     (let segs = v6_segments a; (start, len) = zero_span segs 0 (0, 0) (0, 0)
      in if unat a div 2 ^ 32 = 0xFFFF
         then ''::ffff:'' @ show_v4 (of_nat (unat a mod 2 ^ 32))
         else if 1 < len
         then fmt_subslice (take start segs) @ ''::'' @ fmt_subslice (drop (start + len) segs)
         else fmt_subslice segs)"

end
