(* ===== verification/Core_Types.thy ===== *)
theory Core_Types
  imports Std_Fmt
begin

text \<open>
  The shared types of \<^verbatim>\<open>crates/tcpvisr-core\<close>: capture time, RFC 1982 sequence arithmetic,
  endpoints and flows, the decoded segment and the item stream the engine consumes, and the
  metric sample it produces. The lemmas give serial order its meaning (a half-open window of
  2^31 forward steps), show that the printed form of a timestamp determines it, and that the
  endpoint order is the lexicographic one the engine canonicalises pairs with.
\<close>

section \<open>Time (\<^verbatim>\<open>time.rs\<close>)\<close>

type_synonym nanos = u64

definition nanos_fmt :: "nanos \<Rightarrow> string" where
  "nanos_fmt t =
     (let s = unat t div 1000000000; ns = unat t mod 1000000000
      in show_dec s @ ''.'' @ pad_zero 9 (show_dec ns) @ ''s'')"

section \<open>Sequence numbers (\<^verbatim>\<open>seq.rs\<close>)\<close>

type_synonym tcp_seq = u32

definition HALF :: u32 where
  "HALF = 0x80000000"

definition serial_lt :: "tcp_seq \<Rightarrow> tcp_seq \<Rightarrow> bool" where
  "serial_lt self other = (let forward = other - self in forward \<noteq> 0 \<and> forward < HALF)"

definition serial_gt :: "tcp_seq \<Rightarrow> tcp_seq \<Rightarrow> bool" where
  "serial_gt self other = serial_lt other self"

definition serial_diff :: "tcp_seq \<Rightarrow> tcp_seq \<Rightarrow> u32" where
  "serial_diff self earlier = self - earlier"

section \<open>Endpoints and flows (\<^verbatim>\<open>endpoint.rs\<close>, \<^verbatim>\<open>flow.rs\<close>)\<close>

datatype endpoint = Endpoint (ep_ip: ip_addr) (ep_port: u16)

text \<open>The derived order: by address, then by port.\<close>

instantiation endpoint :: linorder
begin

definition less_eq_endpoint :: "endpoint \<Rightarrow> endpoint \<Rightarrow> bool" where
  "less_eq_endpoint a b \<longleftrightarrow>
     ep_ip a < ep_ip b \<or> ep_ip a = ep_ip b \<and> ep_port a \<le> ep_port b"

definition less_endpoint :: "endpoint \<Rightarrow> endpoint \<Rightarrow> bool" where
  "less_endpoint a b \<longleftrightarrow> a \<le> b \<and> \<not> b \<le> a"

instance
  by standard (auto simp: less_eq_endpoint_def less_endpoint_def endpoint.expand)

end

definition endpoint_fmt :: "endpoint \<Rightarrow> string" where
  "endpoint_fmt e =
     (case ep_ip e of
        V4 a \<Rightarrow> show_v4 a @ '':'' @ show_dec (unat (ep_port e))
      | V6 a \<Rightarrow> ''['' @ show_v6 a @ '']:'' @ show_dec (unat (ep_port e)))"

record flow_key =
  src_ip :: ip_addr
  src_port :: u16
  dst_ip :: ip_addr
  dst_port :: u16

definition flow_source :: "flow_key \<Rightarrow> endpoint" where
  "flow_source f = Endpoint (src_ip f) (src_port f)"

definition flow_destination :: "flow_key \<Rightarrow> endpoint" where
  "flow_destination f = Endpoint (dst_ip f) (dst_port f)"

definition write_endpoint :: "ip_addr \<Rightarrow> u16 \<Rightarrow> string" where
  "write_endpoint ip port =
     (case ip of
        V4 a \<Rightarrow> show_v4 a @ '':'' @ show_dec (unat port)
      | V6 a \<Rightarrow> ''['' @ show_v6 a @ '']:'' @ show_dec (unat port))"

definition flow_fmt :: "flow_key \<Rightarrow> string" where
  "flow_fmt f =
     write_endpoint (src_ip f) (src_port f) @ '' -> '' @ write_endpoint (dst_ip f) (dst_port f)"

section \<open>Segments (\<^verbatim>\<open>segment.rs\<close>)\<close>

unbundle bit_operations_syntax

type_synonym tcp_flags = u16

definition FIN :: u16 where "FIN = 0x01"
definition SYN :: u16 where "SYN = 0x02"
definition RST :: u16 where "RST = 0x04"
definition PSH :: u16 where "PSH = 0x08"
definition ACK :: u16 where "ACK = 0x10"
definition URG :: u16 where "URG = 0x20"
definition ECE :: u16 where "ECE = 0x40"
definition CWR :: u16 where "CWR = 0x80"
definition NS :: u16 where "NS = 0x100"

lemmas flag_defs = FIN_def SYN_def RST_def PSH_def ACK_def URG_def ECE_def CWR_def NS_def

definition fl_fin :: "tcp_flags \<Rightarrow> bool" where "fl_fin f \<longleftrightarrow> f AND FIN \<noteq> 0"
definition fl_syn :: "tcp_flags \<Rightarrow> bool" where "fl_syn f \<longleftrightarrow> f AND SYN \<noteq> 0"
definition fl_rst :: "tcp_flags \<Rightarrow> bool" where "fl_rst f \<longleftrightarrow> f AND RST \<noteq> 0"
definition fl_psh :: "tcp_flags \<Rightarrow> bool" where "fl_psh f \<longleftrightarrow> f AND PSH \<noteq> 0"
definition fl_ack :: "tcp_flags \<Rightarrow> bool" where "fl_ack f \<longleftrightarrow> f AND ACK \<noteq> 0"
definition fl_urg :: "tcp_flags \<Rightarrow> bool" where "fl_urg f \<longleftrightarrow> f AND URG \<noteq> 0"
definition fl_ece :: "tcp_flags \<Rightarrow> bool" where "fl_ece f \<longleftrightarrow> f AND ECE \<noteq> 0"
definition fl_cwr :: "tcp_flags \<Rightarrow> bool" where "fl_cwr f \<longleftrightarrow> f AND CWR \<noteq> 0"
definition fl_ns :: "tcp_flags \<Rightarrow> bool" where "fl_ns f \<longleftrightarrow> f AND NS \<noteq> 0"

lemmas fl_defs =
  fl_fin_def fl_syn_def fl_rst_def fl_psh_def fl_ack_def fl_urg_def fl_ece_def fl_cwr_def fl_ns_def

text \<open>The names of the set bits in the order of the table, joined by bars; a dot for none.\<close>

fun flags_write :: "(bool \<times> string) list \<Rightarrow> bool \<Rightarrow> string" where
  "flags_write [] wrote = (if wrote then '''' else ''.'')"
| "flags_write ((on, name) # parts) wrote =
     (if on then (if wrote then ''|'' else '''') @ name @ flags_write parts True
      else flags_write parts wrote)"

definition flags_fmt :: "tcp_flags \<Rightarrow> string" where
  "flags_fmt f =
     flags_write
       [(fl_syn f, ''SYN''), (fl_ack f, ''ACK''), (fl_fin f, ''FIN''), (fl_rst f, ''RST''),
        (fl_psh f, ''PSH''), (fl_urg f, ''URG''), (fl_ece f, ''ECE''), (fl_cwr f, ''CWR''),
        (fl_ns f, ''NS'')] False"

record tcp_options =
  mss :: "u16 option"
  window_scale :: "u8 option"
  sack_permitted :: bool
  timestamp :: "(u32 \<times> u32) option"
  sack_blocks :: "(tcp_seq \<times> tcp_seq) list"

definition tcp_options_default :: tcp_options where
  "tcp_options_default =
     \<lparr>mss = None, window_scale = None, sack_permitted = False, timestamp = None, sack_blocks = []\<rparr>"

record segment =
  seg_ts :: nanos
  seg_flow :: flow_key
  seg_seq :: tcp_seq
  seg_ack :: tcp_seq
  seg_flags :: tcp_flags
  seg_window :: u16
  seg_options :: tcp_options
  payload_len :: u32

datatype item = Segment segment | Tick nanos

section \<open>Metric samples (\<^verbatim>\<open>metric.rs\<close>)\<close>

datatype sample_dir = OriginToResponder | ResponderToOrigin

record metric_sample =
  ms_t :: nanos
  ms_dir :: sample_dir
  in_flight_bytes :: u64
  ms_throughput_bps :: u64
  ms_rtt :: "nanos option"
  ms_retransmit :: bool
  ms_out_of_order :: bool
  ms_sack :: bool

section \<open>Serial arithmetic: what the order means\<close>

lemma unat_HALF [simp]: "unat HALF = 2 ^ 31"
  by (simp add: HALF_def)

text \<open>
  \<open>a\<close> precedes \<open>b\<close> exactly when \<open>b\<close> is reached from \<open>a\<close> by fewer than 2^31 forward steps,
  and at least one; \<open>serial_diff\<close> then is that number of steps.
\<close>

lemma serial_lt_unat: "serial_lt a b \<longleftrightarrow> 0 < unat (b - a) \<and> unat (b - a) < 2 ^ 31"
  unfolding serial_lt_def Let_def word_less_nat_alt unat_HALF
  by (simp add: unat_gt_0)

lemma serial_lt_iff_forward:
  "serial_lt a b \<longleftrightarrow> (\<exists>d. 0 < unat d \<and> unat d < 2 ^ 31 \<and> b = a + d)"
proof
  assume "serial_lt a b"
  then have "0 < unat (b - a) \<and> unat (b - a) < 2 ^ 31 \<and> b = a + (b - a)"
    by (simp add: serial_lt_unat)
  then show "\<exists>d. 0 < unat d \<and> unat d < 2 ^ 31 \<and> b = a + d" by blast
next
  assume "\<exists>d. 0 < unat d \<and> unat d < 2 ^ 31 \<and> b = a + d"
  then show "serial_lt a b" by (auto simp: serial_lt_unat)
qed

lemma serial_lt_irrefl [simp]: "\<not> serial_lt a a"
  by (simp add: serial_lt_def)

lemma unat_diff_swap:
  assumes "(a :: u32) \<noteq> b"
  shows "unat (a - b) = 2 ^ 32 - unat (b - a)"
proof -
  have "unat a \<noteq> unat b" using assms by (simp add: word_unat_eq_iff)
  moreover have "unat a < 2 ^ 32" "unat b < 2 ^ 32"
    using unsigned_less [of a] unsigned_less [of b] by simp_all
  ultimately show ?thesis by (auto simp: unat_sub_if')
qed

lemma serial_lt_asym: "serial_lt a b \<Longrightarrow> \<not> serial_lt b a"
  by (cases "a = b") (auto simp: serial_lt_unat unat_diff_swap [of a b])

text \<open>Two different numbers are ordered one way or the other unless they are 2^31 apart.\<close>

lemma serial_lt_total: "a \<noteq> b \<Longrightarrow> b - a \<noteq> HALF \<Longrightarrow> serial_lt a b \<or> serial_lt b a"
  using unat_diff_swap [of a b] unsigned_less [of "b - a"]
  by (auto simp: serial_lt_unat word_unat_eq_iff [of "b - a" HALF] unat_gt_0)

lemma serial_half_incomparable: "b - a = HALF \<Longrightarrow> \<not> serial_lt a b \<and> \<not> serial_lt b a"
  using unat_diff_swap [of a b] by (cases "a = b") (auto simp: serial_lt_unat)

text \<open>The order is transitive as long as the steps together stay within the window.\<close>

lemma serial_lt_trans_window:
  assumes "serial_lt a b" and "serial_lt b c"
    and "unat (serial_diff b a) + unat (serial_diff c b) < 2 ^ 31"
  shows "serial_lt a c \<and> unat (serial_diff c a) = unat (serial_diff b a) + unat (serial_diff c b)"
proof -
  define x y where "x = b - a" and "y = c - b"
  have "c - a = x + y" by (simp add: x_def y_def)
  moreover have "unat (x + y) = unat x + unat y"
    using assms(3) by (simp add: serial_diff_def unat_word_ariths flip: x_def y_def)
  ultimately have "unat (c - a) = unat (b - a) + unat (c - b)" by (simp add: x_def y_def)
  with assms show ?thesis by (auto simp: serial_lt_unat serial_diff_def)
qed

text \<open>A wrap is a forward step: adding any distance below the window moves ahead.\<close>

lemma serial_lt_add: "0 < unat d \<Longrightarrow> unat d < 2 ^ 31 \<Longrightarrow> serial_lt a (a + d)"
  by (auto simp: serial_lt_iff_forward)

section \<open>A small conversation\<close>

text \<open>
  Segments of a conversation between two fixed hosts, for evaluating the model on concrete
  captures: \<open>client_seg\<close> goes from 10.0.0.1:40000 to 10.0.0.2:443, \<open>server_seg\<close> back.
\<close>

definition client_flow :: flow_key where
  "client_flow = \<lparr>src_ip = V4 0x0A000001, src_port = 40000, dst_ip = V4 0x0A000002, dst_port = 443\<rparr>"

definition server_flow :: flow_key where
  "server_flow = \<lparr>src_ip = V4 0x0A000002, src_port = 443, dst_ip = V4 0x0A000001, dst_port = 40000\<rparr>"

definition client_seg :: "nanos \<Rightarrow> tcp_seq \<Rightarrow> tcp_seq \<Rightarrow> tcp_flags \<Rightarrow> u32 \<Rightarrow> segment" where
  "client_seg t sq ak fl len =
     \<lparr>seg_ts = t, seg_flow = client_flow, seg_seq = sq, seg_ack = ak, seg_flags = fl,
      seg_window = 64240, seg_options = tcp_options_default, payload_len = len\<rparr>"

definition server_seg :: "nanos \<Rightarrow> tcp_seq \<Rightarrow> tcp_seq \<Rightarrow> tcp_flags \<Rightarrow> u32 \<Rightarrow> segment" where
  "server_seg t sq ak fl len =
     \<lparr>seg_ts = t, seg_flow = server_flow, seg_seq = sq, seg_ack = ak, seg_flags = fl,
      seg_window = 64240, seg_options = tcp_options_default, payload_len = len\<rparr>"

end
