(* ===== verification/Engine_Types.thy ===== *)
theory Engine_Types
  imports Core_Types
begin

text \<open>
  The small types of \<^verbatim>\<open>crates/tcpvisr-engine\<close>: the observed lifecycle (\<^verbatim>\<open>state.rs\<close>), connection
  identity and the reported connection (\<^verbatim>\<open>conn.rs\<close>), the configuration (\<^verbatim>\<open>config.rs\<close>) and the
  collection and error types of \<^verbatim>\<open>metrics.rs\<close>. The lemmas show that the canonical endpoint
  pair forgets the direction of a flow and nothing else, and that lifecycle advancement takes
  the later of two states.
\<close>

section \<open>Lifecycle (\<^verbatim>\<open>state.rs\<close>)\<close>

datatype conn_state = SynSent | SynReceived | Established | FinWait | Closed | Reset

fun rank :: "conn_state \<Rightarrow> nat" where
  "rank SynSent = 0"
| "rank SynReceived = 1"
| "rank Established = 2"
| "rank FinWait = 3"
| "rank Closed = 4"
| "rank Reset = 5"

definition advance_to :: "conn_state \<Rightarrow> conn_state \<Rightarrow> conn_state" where
  "advance_to self to = (if rank self < rank to then to else self)"

text \<open>\<^verbatim>\<open>matches!(state, ConnState::Closed | ConnState::Reset)\<close>, as several functions test it.\<close>

definition is_terminal :: "conn_state \<Rightarrow> bool" where
  "is_terminal s \<longleftrightarrow> s = Closed \<or> s = Reset"

lemma rank_inject: "rank a = rank b \<longleftrightarrow> a = b"
  by (cases a; cases b) simp_all

lemma rank_advance_to [simp]: "rank (advance_to a b) = max (rank a) (rank b)"
  by (auto simp: advance_to_def)

lemma rank_le_5: "rank s \<le> 5"
  by (cases s) simp_all

section \<open>Identity (\<^verbatim>\<open>conn.rs\<close>)\<close>

datatype endpoint_pair = EndpointPair (low: endpoint) (high: endpoint)

text \<open>The derived order: by the lower endpoint, then by the higher one.\<close>

instantiation endpoint_pair :: linorder
begin

definition less_eq_endpoint_pair :: "endpoint_pair \<Rightarrow> endpoint_pair \<Rightarrow> bool" where
  "less_eq_endpoint_pair a b \<longleftrightarrow> low a < low b \<or> low a = low b \<and> high a \<le> high b"

definition less_endpoint_pair :: "endpoint_pair \<Rightarrow> endpoint_pair \<Rightarrow> bool" where
  "less_endpoint_pair a b \<longleftrightarrow> a \<le> b \<and> \<not> b \<le> a"

instance
  by standard (auto simp: less_eq_endpoint_pair_def less_endpoint_pair_def endpoint_pair.expand)

end

definition pair_new :: "endpoint \<Rightarrow> endpoint \<Rightarrow> endpoint_pair" where
  "pair_new a b = (if a \<le> b then EndpointPair a b else EndpointPair b a)"

lemma pair_new_commute: "pair_new a b = pair_new b a"
  by (auto simp: pair_new_def)

lemma pair_new_eq_iff: "pair_new a b = pair_new c d \<longleftrightarrow> a = c \<and> b = d \<or> a = d \<and> b = c"
  by (auto simp: pair_new_def)

datatype conn_id = ConnId (id_pair: endpoint_pair) (id_instance: u32)

datatype direction = O2R | R2O

record connection =
  conn_id :: conn_id
  conn_state :: conn_state
  conn_origin :: endpoint
  conn_responder :: endpoint
  conn_origin_inferred :: bool
  conn_opened_at :: nanos
  conn_last_at :: nanos
  conn_bytes_o2r :: u64
  conn_bytes_r2o :: u64
  conn_segments :: u64

definition duration :: "connection \<Rightarrow> nanos" where
  "duration c = sat_sub (conn_last_at c) (conn_opened_at c)"

section \<open>Configuration (\<^verbatim>\<open>config.rs\<close>)\<close>

datatype retention_policy = FailFast usize | Evict nanos usize

fun max_samples :: "retention_policy \<Rightarrow> usize" where
  "max_samples (FailFast m) = m"
| "max_samples (Evict w m) = m"

fun retention_window :: "retention_policy \<Rightarrow> nanos option" where
  "retention_window (FailFast m) = None"
| "retention_window (Evict w m) = Some w"

lemma retention_window_None_iff: "retention_window r = None \<longleftrightarrow> (\<exists>m. r = FailFast m)"
  by (cases r) simp_all

text \<open>Which instances buffer a metric series (\<^verbatim>\<open>metrics.rs\<close>).\<close>

datatype series_collection = CollectNone | CollectAll | CollectOnly conn_id

record engine_config =
  dead_after :: nanos
  reset_threshold :: u32
  series_collection :: series_collection
  throughput_window :: nanos
  reorder_window :: nanos
  retention :: retention_policy
  collect_state_timeline :: bool
  collect_seq_timeline :: bool
  collect_inflight_timeline :: bool
  collect_rtt_timeline :: bool
  collect_throughput_timeline :: bool

definition engine_config_default :: engine_config where
  "engine_config_default =
     \<lparr>dead_after = 120000000000,
      reset_threshold = 1073741824,
      series_collection = CollectNone,
      throughput_window = 1000000000,
      reorder_window = 3000000,
      retention = FailFast 10000000,
      collect_state_timeline = False,
      collect_seq_timeline = False,
      collect_inflight_timeline = False,
      collect_rtt_timeline = False,
      collect_throughput_timeline = False\<rparr>"

text \<open>A tracked connection with its derived series (\<^verbatim>\<open>metrics.rs\<close>).\<close>

record connection_metrics =
  cm_conn :: connection
  cm_series :: "metric_sample list"

text \<open>Whole-derivation failures (\<^verbatim>\<open>metrics.rs\<close>).\<close>

datatype metric_error = SampleCeiling (ce_samples: usize) (ce_limit: usize)

end
