(* ===== verification/Metrics.thy ===== *)
theory Metrics
  imports Engine_Types
begin

text \<open>
  Metric derivation (\<^verbatim>\<open>crates/tcpvisr-engine/src/metrics.rs\<close>): per-direction send and
  acknowledgement frontiers, the queue of sends that wait for an acknowledgement, and the
  trailing throughput window, folded segment by segment into metric samples. The window sums
  of the code are \<^verbatim>\<open>u128\<close>; the times and byte counts they add are below 2^64, so they are
  natural numbers here, saturated where the code saturates.
\<close>

section \<open>Frontiers\<close>

definition seq_end :: "segment \<Rightarrow> tcp_seq" where
  "seq_end seg =
     (let phantom = (if fl_syn (seg_flags seg) then 1 else 0)
                    + (if fl_fin (seg_flags seg) then 1 else 0)
      in seg_seq seg + payload_len seg + phantom)"

definition serial_max :: "tcp_seq option \<Rightarrow> tcp_seq \<Rightarrow> tcp_seq" where
  "serial_max current candidate =
     (case current of
        Some c \<Rightarrow> (if serial_gt c candidate then c else candidate)
      | None \<Rightarrow> candidate)"

definition serial_le :: "tcp_seq \<Rightarrow> tcp_seq \<Rightarrow> bool" where
  "serial_le earlier later \<longleftrightarrow> earlier = later \<or> serial_lt earlier later"

section \<open>State\<close>

record dir_state =
  snd_nxt :: "tcp_seq option"
  acked :: "tcp_seq option"
  frontier :: "tcp_seq option"
  last_data_ts :: "nanos option"
  pending_rtt :: "(tcp_seq \<times> nanos) list"
  tput :: "(nanos \<times> u32 \<times> bool) list"
  tput_max_ts :: "nanos option"

definition dir_state_default :: dir_state where
  "dir_state_default =
     \<lparr>snd_nxt = None, acked = None, frontier = None, last_data_ts = None,
      pending_rtt = [], tput = [], tput_max_ts = None\<rparr>"

text \<open>\<^verbatim>\<open>MetricState\<close> wraps the array of the two directions.\<close>

type_synonym metric_state = "dir_state \<times> dir_state"

fun idx :: "direction \<Rightarrow> nat" where
  "idx O2R = 0"
| "idx R2O = 1"

fun sample_dir :: "direction \<Rightarrow> sample_dir" where
  "sample_dir O2R = OriginToResponder"
| "sample_dir R2O = ResponderToOrigin"

definition metric_state_new :: metric_state where
  "metric_state_new = (dir_state_default, dir_state_default)"

section \<open>Reading the state\<close>

definition in_flight_of :: "tcp_seq \<Rightarrow> tcp_seq \<Rightarrow> u64" where
  "in_flight_of acked_d snd_d =
     (if serial_le acked_d snd_d then ucast (serial_diff snd_d acked_d) else 0)"

definition in_flight :: "metric_state \<Rightarrow> direction \<Rightarrow> u64 option" where
  "in_flight ms dir =
     (let d = sel2 ms (idx dir)
      in case snd_nxt d of
           None \<Rightarrow> None
         | Some s \<Rightarrow> (case acked d of None \<Rightarrow> None | Some a \<Rightarrow> Some (in_flight_of a s)))"

definition scale_bps :: "nat \<Rightarrow> nat \<Rightarrow> u64" where
  "scale_bps bytes w =
     (let bits = sat_mul128 (sat_mul128 bytes 8) 1000000000 in u64_of (bits div w))"

text \<open>Membership of an entry's time in the window of length \<open>w\<close> that ends at \<open>tt\<close>.\<close>

definition in_window :: "nat \<Rightarrow> nat \<Rightarrow> nanos \<Rightarrow> bool" where
  "in_window w tt ts \<longleftrightarrow> tt < unat ts + w \<and> unat ts \<le> tt"

fun window_sums :: "nat \<Rightarrow> nat \<Rightarrow> (nanos \<times> u32 \<times> bool) list \<Rightarrow> nat \<times> nat \<Rightarrow> nat \<times> nat" where
  "window_sums w tt [] acc = acc"
| "window_sums w tt ((ts, len, retransmit) # es) (tot, good) =
     window_sums w tt es
       (if in_window w tt ts
        then (tot + unat len, if retransmit then good else good + unat len)
        else (tot, good))"

definition throughput_at :: "metric_state \<Rightarrow> direction \<Rightarrow> nanos \<Rightarrow> engine_config \<Rightarrow> (u64 \<times> u64) option" where
  "throughput_at ms dir t cfg =
     (let d = sel2 ms (idx dir)
      in case tput_max_ts d of
           None \<Rightarrow> None
         | Some _ \<Rightarrow>
             (let window = throughput_window cfg
              in if window = 0 then Some (0, 0)
                 else let (tot, good) = window_sums (unat window) (unat t) (tput d) (0, 0)
                      in Some (scale_bps tot (unat window), scale_bps good (unat window))))"

section \<open>Folding a segment in\<close>

text \<open>The eviction loop of \<^verbatim>\<open>window_push_and_evict\<close>: pops while the front has left the window.\<close>

fun window_evict :: "nat \<Rightarrow> nat \<Rightarrow> (nanos \<times> u32 \<times> bool) list \<Rightarrow> (nanos \<times> u32 \<times> bool) list" where
  "window_evict w mx [] = []"
| "window_evict w mx ((ts, e) # es) =
     (if unat ts + w \<le> mx then window_evict w mx es else (ts, e) # es)"

definition window_push_and_evict :: "dir_state \<Rightarrow> segment \<Rightarrow> bool \<Rightarrow> engine_config \<Rightarrow> dir_state" where
  "window_push_and_evict d seg retransmit cfg =
     (let d1 = (if 0 < payload_len seg
                then d\<lparr>tput := tput d @ [(seg_ts seg, payload_len seg, retransmit)],
                       tput_max_ts :=
                         Some (case tput_max_ts d of
                                 Some m \<Rightarrow> max m (seg_ts seg)
                               | None \<Rightarrow> seg_ts seg)\<rparr>
                else d);
          window = throughput_window cfg
      in if window = 0 then d1
         else case tput_max_ts d1 of
                None \<Rightarrow> d1
              | Some mx \<Rightarrow> d1\<lparr>tput := window_evict (unat window) (unat mx) (tput d1)\<rparr>)"

text \<open>The loop that pairs an acknowledgement with the sends it covers, oldest first.\<close>

fun rtt_drain :: "tcp_seq \<Rightarrow> (tcp_seq \<times> nanos) list \<Rightarrow> nanos option
    \<Rightarrow> (tcp_seq \<times> nanos) list \<times> nanos option" where
  "rtt_drain ack [] oldest = ([], oldest)"
| "rtt_drain ack ((es, ts) # pend) oldest =
     (if serial_le es ack
      then rtt_drain ack pend (case oldest of None \<Rightarrow> Some ts | Some x \<Rightarrow> Some x)
      else ((es, ts) # pend, oldest))"

text \<open>Step 2: is a data segment behind the frontier a retransmission or out of order?\<close>

definition classify :: "dir_state \<Rightarrow> segment \<Rightarrow> engine_config \<Rightarrow> bool \<times> bool" where
  "classify d seg cfg =
     (if 0 < payload_len seg
      then case frontier d of
             Some fr \<Rightarrow>
               (if serial_lt (seg_seq seg) fr
                then let gap = (case last_data_ts d of
                                  Some prev \<Rightarrow> sat_sub (seg_ts seg) prev
                                | None \<Rightarrow> u64_max)
                     in if gap < reorder_window cfg then (False, True) else (True, False)
                else (False, False))
           | None \<Rightarrow> (False, False)
      else (False, False))"

text \<open>Step 0: does the segment acknowledge something new of the opposite direction?\<close>

definition ack_advances :: "dir_state \<Rightarrow> segment \<Rightarrow> bool" where
  "ack_advances opp seg \<longleftrightarrow>
     fl_ack (seg_flags seg) \<and> snd_nxt opp \<noteq> None
     \<and> (case acked opp of None \<Rightarrow> True | Some a \<Rightarrow> serial_gt (seg_ack seg) a)"

text \<open>
  \<^verbatim>\<open>MetricState::observe\<close>. The steps carry the numbers of the source; \<open>d0\<close> and \<open>o0\<close> are the
  segment's own and the opposite direction before the update, and every reference the source
  takes before the update reads them.
\<close>

definition metric_observe :: "metric_state \<Rightarrow> segment \<Rightarrow> direction \<Rightarrow> engine_config
    \<Rightarrow> metric_state \<times> metric_sample" where
  "metric_observe ms seg dir cfg =
     (let d = idx dir; o' = 1 - d;
          d0 = sel2 ms d; o0 = sel2 ms o';
          f = seg_flags seg;
          end' = seq_end seg;
          is_data = 0 < payload_len seg;
          consumes_seq = is_data \<or> fl_syn f \<or> fl_fin f;
          \<comment> \<open>step 0\<close>
          advances = ack_advances o0 seg;
          \<comment> \<open>step 1: in-flight\<close>
          acked_d = (case acked d0 of Some a \<Rightarrow> a | None \<Rightarrow> seg_seq seg);
          snd_d = serial_max (snd_nxt d0) end';
          d1 = d0\<lparr>acked := Some acked_d, snd_nxt := Some snd_d\<rparr>;
          o1 = (if advances then o0\<lparr>acked := Some (seg_ack seg)\<rparr> else o0);
          in_flight_bytes = in_flight_of acked_d snd_d;
          \<comment> \<open>step 2: retransmit / out-of-order\<close>
          (retransmit, out_of_order) = classify d0 seg cfg;
          d2 = (if is_data
                then d1\<lparr>frontier := Some (serial_max (frontier d0) end'),
                        last_data_ts := Some (seg_ts seg)\<rparr>
                else d1);
          \<comment> \<open>step 3: SACK\<close>
          sack = (sack_blocks (seg_options seg) \<noteq> []);
          \<comment> \<open>step 4: RTT\<close>
          d3 = (if retransmit then d2\<lparr>pending_rtt := []\<rparr>
                else if consumes_seq then d2\<lparr>pending_rtt := pending_rtt d2 @ [(end', seg_ts seg)]\<rparr>
                else d2);
          (o2, rtt) =
            (if advances
             then let (pend, oldest) = rtt_drain (seg_ack seg) (pending_rtt o1) None
                  in (o1\<lparr>pending_rtt := pend\<rparr>,
                      map_option (\<lambda>send_ts. sat_sub (seg_ts seg) send_ts) oldest)
             else (o1, None));
          \<comment> \<open>step 5: throughput\<close>
          d4 = window_push_and_evict d3 seg retransmit cfg;
          ms' = upd2 (upd2 ms d d4) o' o2;
          throughput_bps = (case throughput_at ms' dir (seg_ts seg) cfg of
                              Some (tot, good) \<Rightarrow> tot
                            | None \<Rightarrow> 0)
      in (ms',
          \<lparr>ms_t = seg_ts seg, ms_dir = sample_dir dir, in_flight_bytes = in_flight_bytes,
           ms_throughput_bps = throughput_bps, ms_rtt = rtt, ms_retransmit = retransmit,
           ms_out_of_order = out_of_order, ms_sack = sack\<rparr>))"


text \<open>
  A whole stream of directed segments folded into a fresh state, with the samples it produced:
  what the tracker does for one connection.
\<close>

fun metric_run :: "engine_config \<Rightarrow> metric_state \<Rightarrow> (segment \<times> direction) list
    \<Rightarrow> metric_state \<times> metric_sample list" where
  "metric_run cfg ms [] = (ms, [])"
| "metric_run cfg ms ((seg, dir) # xs) =
     (let (ms1, s) = metric_observe ms seg dir cfg; (ms2, ss) = metric_run cfg ms1 xs
      in (ms2, s # ss))"

section \<open>The two directions after a segment\<close>

fun opposite :: "direction \<Rightarrow> direction" where
  "opposite O2R = R2O"
| "opposite R2O = O2R"

lemma opposite_opposite [simp]: "opposite (opposite d) = d"
  by (cases d) simp_all

lemma opposite_neq [simp]: "opposite d \<noteq> d" "d \<noteq> opposite d"
  by (cases d; simp)+

lemma direction_cases_rel: "d' = d \<or> d' = opposite d"
  by (cases d; cases d') simp_all

lemma idx_opposite: "1 - idx d = idx (opposite d)"
  by (cases d) simp_all

lemma idx_zero_opposite [simp]: "(idx (opposite d) = 0) \<longleftrightarrow> idx d \<noteq> 0"
  by (cases d) simp_all

abbreviation dstate :: "metric_state \<Rightarrow> direction \<Rightarrow> dir_state" where
  "dstate ms dir \<equiv> sel2 ms (idx dir)"

text \<open>What \<^verbatim>\<open>observe\<close> makes of the segment's own direction and of the opposite one.\<close>

definition own_step :: "dir_state \<Rightarrow> segment \<Rightarrow> engine_config \<Rightarrow> dir_state" where
  "own_step d0 seg cfg =
     (let retransmit = fst (classify d0 seg cfg);
          is_data = 0 < payload_len seg;
          d1 = d0\<lparr>acked := Some (case acked d0 of Some a \<Rightarrow> a | None \<Rightarrow> seg_seq seg),
                  snd_nxt := Some (serial_max (snd_nxt d0) (seq_end seg))\<rparr>;
          d2 = (if is_data
                then d1\<lparr>frontier := Some (serial_max (frontier d0) (seq_end seg)),
                        last_data_ts := Some (seg_ts seg)\<rparr>
                else d1);
          d3 = (if retransmit then d2\<lparr>pending_rtt := []\<rparr>
                else if is_data \<or> fl_syn (seg_flags seg) \<or> fl_fin (seg_flags seg)
                then d2\<lparr>pending_rtt := pending_rtt d2 @ [(seq_end seg, seg_ts seg)]\<rparr>
                else d2)
      in window_push_and_evict d3 seg retransmit cfg)"

definition opp_step :: "dir_state \<Rightarrow> segment \<Rightarrow> dir_state" where
  "opp_step o0 seg =
     (if ack_advances o0 seg
      then o0\<lparr>acked := Some (seg_ack seg),
              pending_rtt := fst (rtt_drain (seg_ack seg) (pending_rtt o0) None)\<rparr>
      else o0)"

definition rtt_of :: "dir_state \<Rightarrow> segment \<Rightarrow> nanos option" where
  "rtt_of o0 seg =
     (if ack_advances o0 seg
      then map_option (\<lambda>send_ts. sat_sub (seg_ts seg) send_ts)
             (snd (rtt_drain (seg_ack seg) (pending_rtt o0) None))
      else None)"

definition state_after :: "metric_state \<Rightarrow> segment \<Rightarrow> direction \<Rightarrow> engine_config \<Rightarrow> metric_state" where
  "state_after ms seg dir cfg =
     upd2 (upd2 ms (idx dir) (own_step (dstate ms dir) seg cfg))
       (idx (opposite dir)) (opp_step (dstate ms (opposite dir)) seg)"

lemma metric_observe_eq:
  "metric_observe ms seg dir cfg =
     (state_after ms seg dir cfg,
      \<lparr>ms_t = seg_ts seg, ms_dir = sample_dir dir,
       in_flight_bytes =
         in_flight_of (case acked (dstate ms dir) of Some a \<Rightarrow> a | None \<Rightarrow> seg_seq seg)
           (serial_max (snd_nxt (dstate ms dir)) (seq_end seg)),
       ms_throughput_bps =
         (case throughput_at (state_after ms seg dir cfg) dir (seg_ts seg) cfg of
            Some (tot, good) \<Rightarrow> tot | None \<Rightarrow> 0),
       ms_rtt = rtt_of (dstate ms (opposite dir)) seg,
       ms_retransmit = fst (classify (dstate ms dir) seg cfg),
       ms_out_of_order = snd (classify (dstate ms dir) seg cfg),
       ms_sack = (sack_blocks (seg_options seg) \<noteq> [])\<rparr>)"
  by (cases "ack_advances (dstate ms (opposite dir)) seg")
    (simp_all add: metric_observe_def state_after_def own_step_def opp_step_def rtt_of_def
      idx_opposite idx_opposite [unfolded One_nat_def] Let_def case_prod_beta)

lemma metric_observe_dstate:
  "dstate (fst (metric_observe ms seg dir cfg)) dir' =
     (if dir' = dir then own_step (dstate ms dir) seg cfg
      else opp_step (dstate ms (opposite dir)) seg)"
  using direction_cases_rel [of dir' dir] by (auto simp: metric_observe_eq state_after_def)

lemma metric_observe_sample:
  "ms_t (snd (metric_observe ms seg dir cfg)) = seg_ts seg"
  "ms_dir (snd (metric_observe ms seg dir cfg)) = sample_dir dir"
  "in_flight_bytes (snd (metric_observe ms seg dir cfg)) =
     in_flight_of (case acked (dstate ms dir) of Some a \<Rightarrow> a | None \<Rightarrow> seg_seq seg)
       (serial_max (snd_nxt (dstate ms dir)) (seq_end seg))"
  "ms_rtt (snd (metric_observe ms seg dir cfg)) = rtt_of (dstate ms (opposite dir)) seg"
  "ms_retransmit (snd (metric_observe ms seg dir cfg)) = fst (classify (dstate ms dir) seg cfg)"
  "ms_out_of_order (snd (metric_observe ms seg dir cfg)) = snd (classify (dstate ms dir) seg cfg)"
  "ms_throughput_bps (snd (metric_observe ms seg dir cfg)) =
     (case throughput_at (fst (metric_observe ms seg dir cfg)) dir (seg_ts seg) cfg of
        Some (tot, good) \<Rightarrow> tot | None \<Rightarrow> 0)"
  by (simp_all add: metric_observe_eq)

lemma own_step_fields:
  "snd_nxt (own_step d0 seg cfg) = Some (serial_max (snd_nxt d0) (seq_end seg))"
  "acked (own_step d0 seg cfg) = Some (case acked d0 of Some a \<Rightarrow> a | None \<Rightarrow> seg_seq seg)"
  by (auto simp: own_step_def window_push_and_evict_def Let_def split: option.splits)

lemma opp_step_fields [simp]:
  "snd_nxt (opp_step o0 seg) = snd_nxt o0"
  "frontier (opp_step o0 seg) = frontier o0"
  "tput (opp_step o0 seg) = tput o0"
  "tput_max_ts (opp_step o0 seg) = tput_max_ts o0"
  by (simp_all add: opp_step_def)

section \<open>Bytes in flight\<close>

lemma in_flight_of_bound: "unat (in_flight_of a s) < 2 ^ 31"
proof (cases "serial_le a s")
  case True
  then have "unat (s - a) < 2 ^ 31" by (auto simp: serial_le_def serial_lt_unat)
  then show ?thesis using True
    by (simp add: in_flight_of_def serial_diff_def unsigned_ucast_eq take_bit_nat_eq_self)
next
  case False
  then show ?thesis by (simp add: in_flight_of_def)
qed

text \<open>The sample's own-direction value is what the query reads back after the segment.\<close>

lemma in_flight_after:
  "in_flight (fst (metric_observe ms seg dir cfg)) dir =
     Some (in_flight_bytes (snd (metric_observe ms seg dir cfg)))"
  by (simp add: in_flight_def metric_observe_dstate metric_observe_sample own_step_fields Let_def)

lemma metric_observe_in_flight_bound:
  "unat (in_flight_bytes (snd (metric_observe ms seg dir cfg))) < 2 ^ 31"
  unfolding metric_observe_sample by (rule in_flight_of_bound)

text \<open>
  An acknowledgement that advances moves the drained base of the opposite direction to itself,
  so what is left in flight there is the distance from it to the send frontier.
\<close>

lemma in_flight_opposite_after:
  "in_flight (fst (metric_observe ms seg dir cfg)) (opposite dir) =
     (if ack_advances (dstate ms (opposite dir)) seg
      then map_option (in_flight_of (seg_ack seg)) (snd_nxt (dstate ms (opposite dir)))
      else in_flight ms (opposite dir))"
  by (auto simp: in_flight_def metric_observe_dstate opp_step_def ack_advances_def Let_def
      split: option.splits)


section \<open>Retransmission and reordering\<close>

lemma classify_spec:
  "classify d seg cfg = (retransmit, out_of_order) \<Longrightarrow>
     \<not> (retransmit \<and> out_of_order) \<and>
     (retransmit \<or> out_of_order \<longleftrightarrow>
        0 < payload_len seg \<and> (\<exists>fr. frontier d = Some fr \<and> serial_lt (seg_seq seg) fr))"
  by (auto simp: classify_def Let_def split: if_splits option.splits)

section \<open>Round-trip times\<close>

text \<open>
  The drain splits the queue into the leading sends the acknowledgement covers and the rest;
  the time it pairs is that of the first.
\<close>

lemma rtt_drain_eq:
  "rtt_drain ack pend oldest =
     (dropWhile (\<lambda>(e, ts). serial_le e ack) pend,
      (case oldest of
         Some x \<Rightarrow> Some x
       | None \<Rightarrow> (case takeWhile (\<lambda>(e, ts). serial_le e ack) pend of
                   [] \<Rightarrow> None | (e, ts) # _ \<Rightarrow> Some ts)))"
  by (induction ack pend oldest rule: rtt_drain.induct) (auto split: option.splits)

lemma rtt_of_Some:
  assumes "rtt_of o0 seg = Some r"
  obtains e ts rest where "pending_rtt o0 = (e, ts) # rest" and "serial_le e (seg_ack seg)"
    and "r = sat_sub (seg_ts seg) ts"
  using assms
  by (cases "pending_rtt o0")
    (auto simp: rtt_of_def rtt_drain_eq split: if_splits prod.splits)

text \<open>
  Karn's rule as a property of the queue: every waiting entry belongs to a segment that was
  sent in that direction, consumed sequence space, and has seen no retransmission in its
  direction since.
\<close>

definition sent_clean :: "(segment \<times> direction) list \<Rightarrow> metric_sample list \<Rightarrow> direction
    \<Rightarrow> tcp_seq \<times> nanos \<Rightarrow> nat \<Rightarrow> bool" where
  "sent_clean xs ss dir entry i \<longleftrightarrow>
     i < length xs \<and> snd (xs ! i) = dir
     \<and> entry = (seq_end (fst (xs ! i)), seg_ts (fst (xs ! i)))
     \<and> (0 < payload_len (fst (xs ! i)) \<or> fl_syn (seg_flags (fst (xs ! i)))
          \<or> fl_fin (seg_flags (fst (xs ! i))))
     \<and> (\<forall>j. i \<le> j \<longrightarrow> j < length xs \<longrightarrow> snd (xs ! j) = dir \<longrightarrow> \<not> ms_retransmit (ss ! j))"

definition karn_ok :: "(segment \<times> direction) list \<Rightarrow> metric_sample list \<Rightarrow> metric_state \<Rightarrow> bool" where
  "karn_ok xs ss ms \<longleftrightarrow>
     (\<forall>dir. \<forall>entry\<in>set (pending_rtt (dstate ms dir)). \<exists>i. sent_clean xs ss dir entry i)"

lemma sent_clean_snoc:
  assumes "sent_clean xs ss dir entry i" and "length ss = length xs"
    and "snd x = dir \<Longrightarrow> \<not> ms_retransmit s"
  shows "sent_clean (xs @ [x]) (ss @ [s]) dir entry i"
  using assms by (auto simp: sent_clean_def nth_append less_Suc_eq)

lemma sent_clean_last:
  assumes "length ss = length xs" and "\<not> ms_retransmit s"
    and "0 < payload_len seg \<or> fl_syn (seg_flags seg) \<or> fl_fin (seg_flags seg)"
  shows "sent_clean (xs @ [(seg, dir)]) (ss @ [s]) dir (seq_end seg, seg_ts seg) (length xs)"
  using assms by (auto simp: sent_clean_def nth_append)

lemma pending_own_step:
  "pending_rtt (own_step d0 seg cfg) =
     (if fst (classify d0 seg cfg) then []
      else if 0 < payload_len seg \<or> fl_syn (seg_flags seg) \<or> fl_fin (seg_flags seg)
      then pending_rtt d0 @ [(seq_end seg, seg_ts seg)]
      else pending_rtt d0)"
  by (simp add: own_step_def window_push_and_evict_def Let_def split: option.splits)

lemma pending_opp_step: "set (pending_rtt (opp_step o0 seg)) \<subseteq> set (pending_rtt o0)"
  by (auto simp: opp_step_def rtt_drain_eq dest: set_dropWhileD)

lemma metric_run_snoc:
  "metric_run cfg ms (xs @ [(seg, dir)]) =
     (let (ms1, ss) = metric_run cfg ms xs; (ms2, s) = metric_observe ms1 seg dir cfg
      in (ms2, ss @ [s]))"
  by (induction cfg ms xs rule: metric_run.induct)
    (auto simp: Let_def split: prod.splits)

lemma length_metric_run: "length (snd (metric_run cfg ms xs)) = length xs"
  by (induction cfg ms xs rule: metric_run.induct) (auto simp: Let_def split: prod.splits)

lemma karn_ok_run: "karn_ok xs (snd (metric_run cfg metric_state_new xs)) (fst (metric_run cfg metric_state_new xs))"
proof (induction xs rule: rev_induct)
  case Nil
  have "pending_rtt (dstate metric_state_new dir) = []" for dir
    by (cases dir) (simp_all add: metric_state_new_def dir_state_default_def)
  then show ?case by (simp add: karn_ok_def)
next
  case (snoc x xs)
  obtain seg dir where x: "x = (seg, dir)" by (cases x)
  define ms ss where "ms = fst (metric_run cfg metric_state_new xs)"
    and "ss = snd (metric_run cfg metric_state_new xs)"
  have len: "length ss = length xs" by (simp add: ss_def length_metric_run)
  have IH: "karn_ok xs ss ms" using snoc by (simp add: ms_def ss_def)
  let ?obs = "metric_observe ms seg dir cfg"
  have run: "fst (metric_run cfg metric_state_new (xs @ [x])) = fst ?obs"
      "snd (metric_run cfg metric_state_new (xs @ [x])) = ss @ [snd ?obs]"
    by (simp_all add: x metric_run_snoc Let_def case_prod_beta ms_def ss_def)
  have "\<exists>i. sent_clean (xs @ [x]) (ss @ [snd ?obs]) dir' entry i"
    if mem: "entry \<in> set (pending_rtt (dstate (fst ?obs) dir'))" for dir' entry
  proof (cases "dir' = dir")
    case False
    then have "dir' = opposite dir" using direction_cases_rel by blast
    with mem False have "entry \<in> set (pending_rtt (dstate ms dir'))"
      using pending_opp_step [of "dstate ms (opposite dir)" seg] by (auto simp: metric_observe_dstate)
    with IH obtain i where "sent_clean xs ss dir' entry i" unfolding karn_ok_def by blast
    then have "sent_clean (xs @ [x]) (ss @ [snd ?obs]) dir' entry i"
      using len False by (intro sent_clean_snoc) (simp_all add: x)
    then show ?thesis ..
  next
    case True
    with mem have nr: "\<not> ms_retransmit (snd ?obs)"
      and or: "entry \<in> set (pending_rtt (dstate ms dir)) \<or> entry = (seq_end seg, seg_ts seg)
        \<and> (0 < payload_len seg \<or> fl_syn (seg_flags seg) \<or> fl_fin (seg_flags seg))"
      by (auto simp: metric_observe_dstate metric_observe_sample pending_own_step split: if_splits)
    from or show ?thesis
    proof (elim disjE conjE)
      assume "entry \<in> set (pending_rtt (dstate ms dir))"
      with IH obtain i where "sent_clean xs ss dir entry i" unfolding karn_ok_def by blast
      then show ?thesis using len nr True by (blast intro: sent_clean_snoc)
    qed (use sent_clean_last [OF len nr] True x in blast)+
  qed
  then show ?case unfolding run karn_ok_def by blast
qed

text \<open>Folding a prefix gives the states and the samples the whole run goes through.\<close>

lemma metric_run_append:
  "metric_run cfg ms (xs @ ys) =
     (let (ms1, ss1) = metric_run cfg ms xs; (ms2, ss2) = metric_run cfg ms1 ys in (ms2, ss1 @ ss2))"
  by (induction cfg ms xs rule: metric_run.induct) (auto simp: Let_def split: prod.splits)

lemma metric_run_nth:
  assumes "i < length xs" and "xs ! i = (seg, dir)"
  shows "snd (metric_run cfg ms xs) ! i =
      snd (metric_observe (fst (metric_run cfg ms (take i xs))) seg dir cfg)"
    and "take i (snd (metric_run cfg ms xs)) = snd (metric_run cfg ms (take i xs))"
proof -
  have "xs = take i xs @ (seg, dir) # drop (Suc i) xs" using assms id_take_nth_drop by metis
  then have eq: "metric_run cfg ms xs = metric_run cfg ms (take i xs @ (seg, dir) # drop (Suc i) xs)"
    by simp
  have len: "length (snd (metric_run cfg ms (take i xs))) = i"
    using assms(1) by (simp add: length_metric_run)
  show "snd (metric_run cfg ms xs) ! i =
      snd (metric_observe (fst (metric_run cfg ms (take i xs))) seg dir cfg)"
    unfolding eq by (simp add: metric_run_append nth_append len Let_def case_prod_beta)
  show "take i (snd (metric_run cfg ms xs)) = snd (metric_run cfg ms (take i xs))"
    unfolding eq by (simp add: metric_run_append len Let_def case_prod_beta)
qed

text \<open>
  Claim C17 (Karn's rule): whenever a segment of a connection yields a round-trip time, that time
  is the distance to an earlier segment of the opposite direction that consumed sequence space
  and that this acknowledgement covers, and the sender of that earlier segment did not
  retransmit anything between the two.
\<close>

theorem metric_rtt_karn:
  assumes "i < length xs" and "xs ! i = (seg, dir)"
    and "ss = snd (metric_run cfg metric_state_new xs)" and "ms_rtt (ss ! i) = Some r"
  shows "\<exists>j<i. snd (xs ! j) = opposite dir
    \<and> (0 < payload_len (fst (xs ! j)) \<or> fl_syn (seg_flags (fst (xs ! j))) \<or> fl_fin (seg_flags (fst (xs ! j))))
    \<and> fl_ack (seg_flags seg) \<and> serial_le (seq_end (fst (xs ! j))) (seg_ack seg)
    \<and> r = sat_sub (seg_ts seg) (seg_ts (fst (xs ! j)))
    \<and> (\<forall>k. j \<le> k \<longrightarrow> k < i \<longrightarrow> snd (xs ! k) = opposite dir \<longrightarrow> \<not> ms_retransmit (ss ! k))"
proof -
  let ?pre = "take i xs"
  define ms where "ms = fst (metric_run cfg metric_state_new ?pre)"
  have rtt: "rtt_of (dstate ms (opposite dir)) seg = Some r"
    using assms(3,4) metric_run_nth(1) [OF assms(1,2)] by (simp add: ms_def metric_observe_sample)
  then have ack: "fl_ack (seg_flags seg)" by (auto simp: rtt_of_def ack_advances_def split: if_splits)
  from rtt obtain e ts rest where e: "pending_rtt (dstate ms (opposite dir)) = (e, ts) # rest"
      "serial_le e (seg_ack seg)" "r = sat_sub (seg_ts seg) ts"
    by (rule rtt_of_Some)
  then obtain j where j: "sent_clean ?pre (take i ss) (opposite dir) (e, ts) j"
    using karn_ok_run [of ?pre cfg] metric_run_nth(2) [OF assms(1,2)] assms(3)
    unfolding karn_ok_def ms_def by (metis list.set_intros(1))
  then have "j < i" using assms(1) by (simp add: sent_clean_def)
  with j e ack assms(1) show ?thesis by (intro exI [of _ j]) (auto simp: sent_clean_def)
qed

definition example_transfer :: "(segment \<times> direction) list" where
  "example_transfer =
     [(client_seg 0 100 0 SYN 0, O2R),
      (server_seg 1000000 500 101 (SYN OR ACK) 0, R2O),
      (client_seg 2000000 101 501 ACK 1000, O2R),
      (server_seg 5000000 501 1101 ACK 0, R2O),
      (client_seg 1500000000 1101 501 ACK 500, O2R)]"

theorem metric_rtt_karn_witness:
  "ms_rtt (snd (metric_run engine_config_default metric_state_new example_transfer) ! 3) = Some 3000000
   \<and> (\<exists>j<3. snd (example_transfer ! j) = O2R \<and> sat_sub 5000000 (seg_ts (fst (example_transfer ! j))) = 3000000)"
proof -
  have "ms_rtt (snd (metric_run engine_config_default metric_state_new example_transfer) ! 3) = Some 3000000"
    by code_simp
  moreover have "3 < length example_transfer" "example_transfer ! 3 = (server_seg 5000000 501 1101 ACK 0, R2O)"
    by (simp_all add: example_transfer_def)
  ultimately show ?thesis
    using metric_rtt_karn [of 3 example_transfer "server_seg 5000000 501 1101 ACK 0" R2O
        "snd (metric_run engine_config_default metric_state_new example_transfer)" engine_config_default 3000000]
    by (auto simp: server_seg_def)
qed

section \<open>Throughput: the evicting window against the whole history\<close>

text \<open>Every data transmission of a direction, in capture order, with its classification.\<close>

definition data_sent :: "direction \<Rightarrow> (segment \<times> direction) list \<Rightarrow> metric_sample list
    \<Rightarrow> (nanos \<times> u32 \<times> bool) list" where
  "data_sent dir xs ss =
     map (\<lambda>((seg, d), s). (seg_ts seg, payload_len seg, ms_retransmit s))
       (filter (\<lambda>((seg, d), s). d = dir \<and> 0 < payload_len seg) (zip xs ss))"

text \<open>The rate a direction has at time \<open>t\<close> by definition: over all data ever sent.\<close>

definition window_bytes :: "nanos \<Rightarrow> nanos \<Rightarrow> (nanos \<times> u32 \<times> bool) list \<Rightarrow> nat" where
  "window_bytes w t h =
     sum_list (map (\<lambda>(ts, len, r). unat len) (filter (\<lambda>(ts, len, r). in_window (unat w) (unat t) ts) h))"

definition throughput_ref :: "(nanos \<times> u32 \<times> bool) list \<Rightarrow> nanos \<Rightarrow> engine_config \<Rightarrow> (u64 \<times> u64) option" where
  "throughput_ref h t cfg =
     (let w = throughput_window cfg
      in if h = [] then None
         else if w = 0 then Some (0, 0)
         else Some (scale_bps (window_bytes w t h) (unat w),
                    scale_bps (window_bytes w t (filter (\<lambda>(ts, len, r). \<not> r) h)) (unat w)))"

lemma window_sums_eq:
  "window_sums (unat w) (unat t) h (a, b) =
     (a + window_bytes w t h, b + window_bytes w t (filter (\<lambda>(ts, len, r). \<not> r) h))"
proof (induction h arbitrary: a b)
  case Nil
  then show ?case by (simp add: window_bytes_def)
next
  case (Cons e h)
  obtain ts len r where e: "e = (ts, len, r)" by (cases e)
  show ?case by (auto simp: e Cons.IH) (auto simp: window_bytes_def)
qed

lemma window_bytes_append: "window_bytes w t (h @ h') = window_bytes w t h + window_bytes w t h'"
  by (simp add: window_bytes_def)

lemma window_bytes_out:
  "\<forall>e\<in>set h. \<not> in_window (unat w) (unat t) (fst e) \<Longrightarrow> window_bytes w t h = 0"
  by (induction h) (auto simp: window_bytes_def)

lemma window_bytes_filter_le: "window_bytes w t (filter P h) \<le> window_bytes w t h"
  by (induction h) (auto simp: window_bytes_def)

lemma window_evict_eq:
  "window_evict w mx h = dropWhile (\<lambda>e. unat (fst e) + w \<le> mx) h"
  by (induction w mx h rule: window_evict.induct) auto

text \<open>
  The relation between a direction's state and its history: the queue is the history less a
  prefix of entries the newest one has pushed out of the window.
\<close>

definition window_rel :: "engine_config \<Rightarrow> (nanos \<times> u32 \<times> bool) list \<Rightarrow> dir_state \<Rightarrow> bool" where
  "window_rel cfg h d \<longleftrightarrow>
     (case tput_max_ts d of
        None \<Rightarrow> h = [] \<and> tput d = []
      | Some mx \<Rightarrow> h \<noteq> [] \<and> (\<forall>e\<in>set h. fst e \<le> mx) \<and> mx \<in> fst ` set h
          \<and> (\<exists>gone. h = gone @ tput d
               \<and> (\<forall>e\<in>set gone. unat (fst e) + unat (throughput_window cfg) \<le> unat mx)))"

lemma window_rel_SomeE:
  assumes "window_rel cfg h d" and "tput_max_ts d = Some mx"
  obtains gone where "h \<noteq> []" and "\<forall>e\<in>set h. fst e \<le> mx" and "mx \<in> fst ` set h"
    and "h = gone @ tput d"
    and "\<forall>e\<in>set gone. unat (fst e) + unat (throughput_window cfg) \<le> unat mx"
  using assms unfolding window_rel_def by (simp only: option.case) blast

lemma window_rel_SomeI:
  assumes "tput_max_ts d = Some mx" and "h \<noteq> []" and "\<forall>e\<in>set h. fst e \<le> mx"
    and "mx \<in> fst ` set h" and "h = gone @ tput d"
    and "\<forall>e\<in>set gone. unat (fst e) + unat (throughput_window cfg) \<le> unat mx"
  shows "window_rel cfg h d"
  unfolding window_rel_def assms(1) option.case using assms(2-6) by blast

lemma window_rel_throughput:
  assumes "window_rel cfg h (dstate ms dir)" and "\<forall>e\<in>set h. fst e \<le> t"
  shows "throughput_at ms dir t cfg = throughput_ref h t cfg"
proof (cases "tput_max_ts (dstate ms dir)")
  case None
  with assms show ?thesis
    by (simp add: window_rel_def throughput_at_def throughput_ref_def Let_def)
next
  case (Some mx)
  with assms(1) obtain gone where h: "h \<noteq> []" "mx \<in> fst ` set h" "h = gone @ tput (dstate ms dir)"
      "\<forall>e\<in>set gone. unat (fst e) + unat (throughput_window cfg) \<le> unat mx"
    by (rule window_rel_SomeE)
  from assms(2) h(2) have "unat mx \<le> unat t" by (auto simp: word_le_nat_alt)
  with h(4) have out: "\<forall>e\<in>set gone. \<not> in_window (unat (throughput_window cfg)) (unat t) (fst e)"
    by (fastforce simp: in_window_def)
  let ?q = "tput (dstate ms dir)" and ?w = "throughput_window cfg"
  have "window_bytes ?w t h = window_bytes ?w t ?q"
    using window_bytes_out [OF out] by (simp add: h(3) window_bytes_append)
  moreover have "window_bytes ?w t (filter (\<lambda>(ts, len, r). \<not> r) h)
      = window_bytes ?w t (filter (\<lambda>(ts, len, r). \<not> r) ?q)"
    using window_bytes_filter_le [of ?w t "\<lambda>(ts, len, r). \<not> r" gone] window_bytes_out [OF out]
    by (simp add: h(3) window_bytes_append)
  ultimately show ?thesis using Some h(1)
    by (simp add: throughput_at_def throughput_ref_def Let_def window_sums_eq)
qed

lemma window_rel_push:
  assumes "window_rel cfg h d"
  shows "window_rel cfg (if 0 < payload_len seg then h @ [(seg_ts seg, payload_len seg, r)] else h)
           (window_push_and_evict d seg r cfg)"
proof -
  define d1 where "d1 = (if 0 < payload_len seg
      then d\<lparr>tput := tput d @ [(seg_ts seg, payload_len seg, r)],
             tput_max_ts := Some (case tput_max_ts d of Some m \<Rightarrow> max m (seg_ts seg) | None \<Rightarrow> seg_ts seg)\<rparr>
      else d)"
  define h1 where "h1 = (if 0 < payload_len seg then h @ [(seg_ts seg, payload_len seg, r)] else h)"
  have rel1: "window_rel cfg h1 d1"
  proof (cases "0 < payload_len seg")
    case False
    then show ?thesis using assms by (simp add: d1_def h1_def)
  next
    case data: True
    show ?thesis
    proof (cases "tput_max_ts d")
      case None
      with data assms show ?thesis by (simp add: window_rel_def d1_def h1_def)
    next
      case (Some mx)
      with assms obtain gone where g: "\<forall>e\<in>set h. fst e \<le> mx" "mx \<in> fst ` set h" "h = gone @ tput d"
          "\<forall>e\<in>set gone. unat (fst e) + unat (throughput_window cfg) \<le> unat mx"
        by (rule window_rel_SomeE)
      have "unat mx \<le> unat (max mx (seg_ts seg))" by (simp add: word_le_nat_alt [symmetric])
      with g(4) have "\<forall>e\<in>set gone. unat (fst e) + unat (throughput_window cfg) \<le> unat (max mx (seg_ts seg))"
        by fastforce
      moreover have "max mx (seg_ts seg) \<in> fst ` set h1"
        using g(2) data by (auto simp: h1_def max_def)
      moreover have "\<forall>e\<in>set h1. fst e \<le> max mx (seg_ts seg)"
        using g(1) data by (auto simp: h1_def le_max_iff_disj)
      ultimately show ?thesis using Some data g(3)
        by (auto simp: window_rel_def d1_def h1_def)
    qed
  qed
  show ?thesis
  proof (cases "throughput_window cfg = 0 \<or> tput_max_ts d1 = None")
    case True
    then have "window_push_and_evict d seg r cfg = d1"
      by (auto simp: window_push_and_evict_def d1_def Let_def split: option.splits)
    with rel1 show ?thesis by (simp add: h1_def)
  next
    case False
    then obtain mx where mx: "tput_max_ts d1 = Some mx" by auto
    let ?P = "\<lambda>e. unat (fst e) + unat (throughput_window cfg) \<le> unat mx"
    have eq: "window_push_and_evict d seg r cfg = d1\<lparr>tput := dropWhile ?P (tput d1)\<rparr>"
      using False mx
      by (simp add: window_push_and_evict_def d1_def [symmetric] Let_def window_evict_eq)
    from rel1 mx obtain gone where g: "h1 = gone @ tput d1" "\<forall>e\<in>set gone. ?P e"
        "h1 \<noteq> []" "\<forall>e\<in>set h1. fst e \<le> mx" "mx \<in> fst ` set h1"
      by (rule window_rel_SomeE)
    have "h1 = (gone @ takeWhile ?P (tput d1)) @ dropWhile ?P (tput d1)"
      using g(1) by simp
    moreover have "\<forall>e\<in>set (gone @ takeWhile ?P (tput d1)). ?P e"
      using g(2) by (auto dest: set_takeWhileD)
    ultimately have "window_rel cfg h1 (d1\<lparr>tput := dropWhile ?P (tput d1)\<rparr>)"
      using g(3-5) mx
      by (intro window_rel_SomeI [where gone = "gone @ takeWhile ?P (tput d1)" and mx = mx]) simp_all
    then show ?thesis unfolding eq by (simp add: h1_def)
  qed
qed

lemma window_rel_cong:
  "tput d = tput d' \<Longrightarrow> tput_max_ts d = tput_max_ts d' \<Longrightarrow> window_rel cfg h d = window_rel cfg h d'"
  by (cases "tput_max_ts d'") (simp_all add: window_rel_def)

lemma window_rel_own_step:
  assumes "window_rel cfg h d0"
  shows "window_rel cfg
           (if 0 < payload_len seg then h @ [(seg_ts seg, payload_len seg, fst (classify d0 seg cfg))] else h)
           (own_step d0 seg cfg)"
  unfolding own_step_def Let_def
  by (rule window_rel_push, rule iffD2 [OF window_rel_cong assms]) simp_all

lemma data_sent_snoc:
  "length ss = length xs \<Longrightarrow>
   data_sent dir (xs @ [(seg, d)]) (ss @ [s]) =
     data_sent dir xs ss @ (if d = dir \<and> 0 < payload_len seg
                            then [(seg_ts seg, payload_len seg, ms_retransmit s)] else [])"
  by (simp add: data_sent_def)

lemma window_rel_run:
  "window_rel cfg (data_sent dir xs (snd (metric_run cfg metric_state_new xs)))
     (dstate (fst (metric_run cfg metric_state_new xs)) dir)"
proof (induction xs rule: rev_induct)
  case Nil
  show ?case
    by (cases dir) (simp_all add: window_rel_def data_sent_def metric_state_new_def dir_state_default_def)
next
  case (snoc x xs)
  obtain seg d where x: "x = (seg, d)" by (cases x)
  define ms ss where "ms = fst (metric_run cfg metric_state_new xs)"
    and "ss = snd (metric_run cfg metric_state_new xs)"
  have len: "length ss = length xs" by (simp add: ss_def length_metric_run)
  have IH: "window_rel cfg (data_sent dir xs ss) (dstate ms dir)"
    using snoc by (simp add: ms_def ss_def)
  let ?obs = "metric_observe ms seg d cfg"
  have run: "fst (metric_run cfg metric_state_new (xs @ [x])) = fst ?obs"
      "snd (metric_run cfg metric_state_new (xs @ [x])) = ss @ [snd ?obs]"
    by (simp_all add: x metric_run_snoc Let_def case_prod_beta ms_def ss_def)
  show ?case
  proof (cases "dir = d")
    case True
    then show ?thesis using window_rel_own_step [OF IH, of seg] unfolding run
      by (simp add: x data_sent_snoc [OF len] metric_observe_dstate metric_observe_sample
          split: if_splits)
  next
    case False
    then have "dir = opposite d" using direction_cases_rel by blast
    then show ?thesis using IH False
        window_rel_cong [of "opp_step (dstate ms dir) seg" "dstate ms dir" cfg "data_sent dir xs ss"]
      unfolding run by (simp add: x data_sent_snoc [OF len] metric_observe_dstate)
  qed
qed

text \<open>
  Claim C18: after any capture, the throughput and goodput a direction reports at a time no
  earlier than all its data are the ones defined by the whole history of that direction,
  although the code keeps only the entries of the trailing window.
\<close>

theorem throughput_at_history:
  assumes "run = metric_run cfg metric_state_new xs"
    and "\<forall>e\<in>set (data_sent dir xs (snd run)). fst e \<le> t"
  shows "throughput_at (fst run) dir t cfg = throughput_ref (data_sent dir xs (snd run)) t cfg"
  using window_rel_throughput [OF window_rel_run assms(2) [unfolded assms(1)]] by (simp add: assms(1))

theorem throughput_at_history_witness:
  "map fst (data_sent O2R example_transfer (snd (metric_run engine_config_default metric_state_new example_transfer)))
     = [2000000, 1500000000]
   \<and> throughput_at (fst (metric_run engine_config_default metric_state_new example_transfer)) O2R 1600000000 engine_config_default
     = Some (4000, 4000)"
proof -
  let ?run = "metric_run engine_config_default metric_state_new example_transfer"
  have hyp: "\<forall>e\<in>set (data_sent O2R example_transfer (snd ?run)). fst e \<le> 1600000000"
    by code_simp
  have times: "map fst (data_sent O2R example_transfer (snd ?run)) = [2000000, 1500000000]"
    by code_simp
  have "throughput_ref (data_sent O2R example_transfer (snd ?run)) 1600000000 engine_config_default
      = Some (4000, 4000)"
    by code_simp
  with times throughput_at_history [OF refl hyp] show ?thesis by simp
qed

definition late_capture :: "(segment \<times> direction) list" where
  "late_capture =
     [(client_seg 500000000 1 0 ACK 1000, O2R),
      (client_seg 10000000000 1001 0 ACK 1000, O2R),
      (client_seg 600000000 2001 0 ACK 500, O2R)]"

text \<open>
  The sliding window is not the reference rate when a segment is captured late: the
  entry at 0.5 s was evicted when the entry at 10 s arrived, so the sample of the segment
  captured next but stamped 0.6 s counts only its own bytes, and not the 1500 bytes that lie
  in its window.
\<close>

theorem throughput_late_segment:
  "map ms_throughput_bps (snd (metric_run engine_config_default metric_state_new late_capture))
     = [8000, 8000, 4000]
   \<and> throughput_ref (data_sent O2R late_capture (snd (metric_run engine_config_default metric_state_new late_capture)))
       600000000 engine_config_default = Some (12000, 12000)"
  (is "?a \<and> ?b")
proof
  show ?a by code_simp
  show ?b by code_simp
qed

lemma scale_bps_mono: "a \<le> b \<Longrightarrow> scale_bps a w \<le> scale_bps b w"
  unfolding scale_bps_def Let_def sat_mul128_def
  by (intro u64_of_mono div_le_mono) (simp add: min_def)

text \<open>In every state and at every time the goodput is at most the throughput.\<close>

theorem goodput_le_throughput:
  assumes "throughput_at ms dir t cfg = Some (tot, good)"
  shows "good \<le> tot"
  using assms window_bytes_filter_le
  by (auto simp: throughput_at_def window_sums_eq Let_def intro!: scale_bps_mono
      split: option.splits if_splits)

theorem goodput_le_throughput_witness:
  "throughput_at (dir_state_default\<lparr>tput := [(5, 1000, False), (6, 500, True)], tput_max_ts := Some 6\<rparr>,
       dir_state_default) O2R 6 engine_config_default = Some (12000, 8000) \<and> (8000 :: u64) \<le> 12000"
proof -
  have "throughput_at (dir_state_default\<lparr>tput := [(5, 1000, False), (6, 500, True)], tput_max_ts := Some 6\<rparr>,
       dir_state_default) O2R 6 engine_config_default = Some (12000, 8000)"
    by code_simp
  from this goodput_le_throughput [OF this] show ?thesis by simp
qed

end
