(* ===== verification/Timeline.thy ===== *)
theory Timeline
  imports Engine_Types
begin

text \<open>
  The seekable timeline (\<^verbatim>\<open>crates/tcpvisr-engine/src/timeline.rs\<close>): the five sample types, the
  constructors that sort every series, and the queries by cursor time. The lemmas show that
  the binary searches answer what a scan of the unsorted captured series would answer.
  \<^verbatim>\<open>sort_by_key\<close> is stable, as \<open>sort_key\<close> is; \<^verbatim>\<open>sort_unstable\<close> runs on plain times, where
  stability does not show.
\<close>

section \<open>Samples\<close>

datatype seq_kind = Data (sk_retransmit: bool) (sk_out_of_order: bool) | Sack

record seq_sample =
  sq_t :: nanos
  sq_dir :: sample_dir
  sq_rel :: i64
  sq_len :: u32
  sq_kind :: seq_kind

record inflight_sample =
  if_t :: nanos
  if_dir :: sample_dir
  if_bytes :: u64

record rtt_sample =
  rt_t :: nanos
  rt_dir :: sample_dir
  rt_rtt :: nanos
  rt_srtt :: nanos

record throughput_sample =
  tp_t :: nanos
  tp_dir :: sample_dir
  tp_throughput_bps :: u64
  tp_goodput_bps :: u64

record state_sample =
  st_t :: nanos
  st_state :: conn_state
  st_bytes_o2r :: u64
  st_bytes_r2o :: u64

type_synonym conn_series =
  "connection \<times> state_sample list \<times> seq_sample list \<times> inflight_sample list
     \<times> rtt_sample list \<times> throughput_sample list"

record as_of =
  ao_id :: conn_id
  ao_state :: conn_state
  ao_bytes_o2r :: u64
  ao_bytes_r2o :: u64

section \<open>The timeline\<close>

record entry =
  e_conn :: connection
  e_samples :: "state_sample list"
  e_seq :: "seq_sample list"
  e_inflight :: "inflight_sample list"
  e_rtt :: "rtt_sample list"
  e_throughput :: "throughput_sample list"
  effective_end :: nanos

record timeline =
  entries :: "entry list"
  tl_start :: nanos
  tl_end :: nanos
  event_times :: "nanos list"

text \<open>\<^verbatim>\<open>Iterator::min\<close> and \<^verbatim>\<open>Iterator::max\<close> with \<^verbatim>\<open>unwrap_or(Nanos(0))\<close>.\<close>

definition min_or_zero :: "nanos list \<Rightarrow> nanos" where
  "min_or_zero xs = (case xs of [] \<Rightarrow> 0 | y # ys \<Rightarrow> fold min ys y)"

definition max_or_zero :: "nanos list \<Rightarrow> nanos" where
  "max_or_zero xs = (case xs of [] \<Rightarrow> 0 | y # ys \<Rightarrow> fold max ys y)"

text \<open>The body of the loop of \<^verbatim>\<open>with_seq_ending\<close>: one entry per connection.\<close>

definition build_entry :: "nanos \<Rightarrow> conn_series \<Rightarrow> entry" where
  "build_entry end' cs =
     (case cs of (conn, samples, seq, inflight, rtt, throughput) \<Rightarrow>
        \<lparr>e_conn = conn,
         e_samples = sort_key st_t samples,
         e_seq = sort_key sq_t seq,
         e_inflight = sort_key if_t inflight,
         e_rtt = sort_key rt_t rtt,
         e_throughput = sort_key tp_t throughput,
         effective_end = (if is_terminal (conn_state conn) then conn_last_at conn else end')\<rparr>)"

definition with_seq_ending :: "conn_series list \<Rightarrow> nanos \<Rightarrow> timeline" where
  "with_seq_ending conns end' =
     (let start = min_or_zero (concat (map (\<lambda>(c, s, _). map st_t s) conns));
          es = map (build_entry end') conns;
          times = concat (map (\<lambda>e. map st_t (e_samples e)) es)
      in \<lparr>entries = es, tl_start = start, tl_end = end', event_times = remdups_adj (sort times)\<rparr>)"

definition with_seq :: "conn_series list \<Rightarrow> timeline" where
  "with_seq conns = with_seq_ending conns (max_or_zero (map (\<lambda>(c, _). conn_last_at c) conns))"

definition timeline_new :: "(connection \<times> state_sample list) list \<Rightarrow> timeline" where
  "timeline_new conns = with_seq (map (\<lambda>(c, s). (c, s, [], [], [], [])) conns)"

section \<open>Queries\<close>

definition bounds :: "timeline \<Rightarrow> nanos \<times> nanos" where
  "bounds tml = (tl_start tml, tl_end tml)"

definition connection_count :: "timeline \<Rightarrow> usize" where
  "connection_count tml = length (entries tml)"

definition connections :: "timeline \<Rightarrow> connection list" where
  "connections tml = map e_conn (entries tml)"

definition find_entry :: "timeline \<Rightarrow> conn_id \<Rightarrow> entry option" where
  "find_entry tml i = List.find (\<lambda>e. conn_id (e_conn e) = i) (entries tml)"

definition seq_series :: "timeline \<Rightarrow> conn_id \<Rightarrow> seq_sample list" where
  "seq_series tml i = (case find_entry tml i of Some e \<Rightarrow> e_seq e | None \<Rightarrow> [])"

definition inflight_series :: "timeline \<Rightarrow> conn_id \<Rightarrow> inflight_sample list" where
  "inflight_series tml i = (case find_entry tml i of Some e \<Rightarrow> e_inflight e | None \<Rightarrow> [])"

definition rtt_series :: "timeline \<Rightarrow> conn_id \<Rightarrow> rtt_sample list" where
  "rtt_series tml i = (case find_entry tml i of Some e \<Rightarrow> e_rtt e | None \<Rightarrow> [])"

definition throughput_series :: "timeline \<Rightarrow> conn_id \<Rightarrow> throughput_sample list" where
  "throughput_series tml i = (case find_entry tml i of Some e \<Rightarrow> e_throughput e | None \<Rightarrow> [])"

definition x_span :: "timeline \<Rightarrow> conn_id \<Rightarrow> (nanos \<times> nanos) option" where
  "x_span tml i = map_option (\<lambda>e. (conn_opened_at (e_conn e), effective_end e)) (find_entry tml i)"

definition active_indices :: "timeline \<Rightarrow> nanos \<Rightarrow> nat list" where
  "active_indices tml t =
     filter (\<lambda>i. let e = entries tml ! i in conn_opened_at (e_conn e) \<le> t \<and> t \<le> effective_end e)
       [0..<length (entries tml)]"

definition active_at :: "timeline \<Rightarrow> nanos \<Rightarrow> conn_id list" where
  "active_at tml t = map (\<lambda>i. conn_id (e_conn (entries tml ! i))) (active_indices tml t)"

text \<open>\<^verbatim>\<open>xs.get(k.checked_sub(1)?)\<close>: the element before position \<open>k\<close>, if there is one.\<close>

definition get_before :: "'a list \<Rightarrow> nat \<Rightarrow> 'a option" where
  "get_before xs k =
     (if k = 0 then None else if k - 1 < length xs then Some (xs ! (k - 1)) else None)"

definition resolve_entry :: "nanos \<Rightarrow> entry \<Rightarrow> as_of option" where
  "resolve_entry t e =
     (let k = partition_point (\<lambda>s. st_t s \<le> t) (e_samples e)
      in map_option
           (\<lambda>s. \<lparr>ao_id = conn_id (e_conn e), ao_state = st_state s,
                 ao_bytes_o2r = st_bytes_o2r s, ao_bytes_r2o = st_bytes_r2o s\<rparr>)
           (get_before (e_samples e) k))"

definition resolve_at :: "timeline \<Rightarrow> nanos \<Rightarrow> as_of list" where
  "resolve_at tml t = List.map_filter (\<lambda>i. resolve_entry t (entries tml ! i)) (active_indices tml t)"

definition next_event :: "timeline \<Rightarrow> nanos \<Rightarrow> nanos option" where
  "next_event tml t =
     (let k = partition_point (\<lambda>x. x \<le> t) (event_times tml)
      in if k < length (event_times tml) then Some (event_times tml ! k) else None)"

definition prev_event :: "timeline \<Rightarrow> nanos \<Rightarrow> nanos option" where
  "prev_event tml t =
     (let k = partition_point (\<lambda>x. x < t) (event_times tml) in get_before (event_times tml) k)"

section \<open>The element before a partition point\<close>

text \<open>What a query answers by definition: the latest captured sample among those with the
  greatest time not after \<open>t\<close>, found by a scan of the series in capture order.\<close>

fun as_of_ref :: "('a \<Rightarrow> nanos) \<Rightarrow> nanos \<Rightarrow> 'a list \<Rightarrow> 'a option" where
  "as_of_ref key t [] = None"
| "as_of_ref key t (x # xs) =
     (case as_of_ref key t xs of
        None \<Rightarrow> (if key x \<le> t then Some x else None)
      | Some y \<Rightarrow> (if key x \<le> t \<and> key y < key x then Some x else Some y))"

lemma as_of_ref_None: "as_of_ref key t xs = None \<longleftrightarrow> (\<forall>x\<in>set xs. t < key x)"
  by (induction xs) (auto split: option.splits simp: not_le)

lemma as_of_ref_Some:
  "as_of_ref key t xs = Some y \<Longrightarrow>
     y \<in> set xs \<and> key y \<le> t \<and> (\<forall>x\<in>set xs. key x \<le> t \<longrightarrow> key x \<le> key y)"
proof (induction xs arbitrary: y)
  case Nil
  then show ?case by simp
next
  case (Cons a xs)
  show ?case
  proof (cases "as_of_ref key t xs")
    case None
    then have "\<forall>x\<in>set xs. t < key x" by (simp add: as_of_ref_None)
    with Cons.prems None show ?thesis by (auto split: if_splits)
  next
    case (Some z)
    from Cons.IH [OF this] Cons.prems Some show ?thesis by (auto split: if_splits)
  qed
qed

lemma last_insort_key:
  assumes "sorted (map f ys)"
  shows "last (insort_key f x ys) = (if ys \<noteq> [] \<and> f x \<le> f (last ys) then last ys else x)"
  using assms
proof (induction ys)
  case Nil
  then show ?case by simp
next
  case (Cons y ys)
  have "f y \<le> f (last ys)" if "ys \<noteq> []" using Cons.prems that by simp
  then have "f x \<le> f (last ys)" if "ys \<noteq> []" "f x \<le> f y" using that by force
  moreover have "insort_key f x ys \<noteq> []" by (cases ys) simp_all
  ultimately show ?case using Cons by auto
qed

lemma as_of_ref_sort:
  "as_of_ref key t xs =
     (let ys = filter (\<lambda>x. key x \<le> t) (sort_key key xs) in if ys = [] then None else Some (last ys))"
proof (induction xs)
  case Nil
  then show ?case by simp
next
  case (Cons x xs)
  let ?P = "\<lambda>x. key x \<le> t"
  have srt: "sorted (map key (filter ?P (sort_key key xs)))"
    by (simp add: sorted_filter)
  show ?case
  proof (cases "?P x")
    case True
    have "filter ?P (sort_key key (x # xs)) = insort_key key x (filter ?P (sort_key key xs))"
      using True by (simp add: filter_insort)
    then show ?thesis using True Cons last_insort_key [OF srt, of x]
      by (auto simp: Let_def insort_not_Nil not_le)
  next
    case False
    then show ?thesis using Cons by (auto simp: filter_insort_triv Let_def split: option.splits)
  qed
qed

lemma get_before_takeWhile:
  "get_before xs (length (takeWhile P xs)) =
     (if takeWhile P xs = [] then None else Some (last (takeWhile P xs)))"
proof -
  have "length (takeWhile P xs) \<le> length xs" by (rule length_takeWhile_le)
  moreover have "takeWhile P xs ! (length (takeWhile P xs) - 1) = xs ! (length (takeWhile P xs) - 1)"
    if "takeWhile P xs \<noteq> []" using that by (intro takeWhile_nth) simp
  moreover have "length (takeWhile P xs) - 1 < length xs" if "takeWhile P xs \<noteq> []"
    using that calculation(1) by (cases "takeWhile P xs") simp_all
  ultimately show ?thesis by (simp add: get_before_def last_conv_nth)
qed

lemma get_before_sorted:
  "get_before (sort_key key xs) (partition_point (\<lambda>x. key x \<le> t) (sort_key key xs)) = as_of_ref key t xs"
proof -
  have srt: "sorted (map key (sort_key key xs))" by simp
  show ?thesis
    unfolding partition_point_eq [OF partitioned_sorted_le [OF srt]] get_before_takeWhile
    by (simp add: as_of_ref_sort takeWhile_sorted_filter [OF srt] Let_def)
qed

section \<open>Resolving a cursor time\<close>

text \<open>The reference: connection by connection, from the captured series.\<close>

definition effective_end_of :: "nanos \<Rightarrow> connection \<Rightarrow> nanos" where
  "effective_end_of end' c = (if is_terminal (conn_state c) then conn_last_at c else end')"

definition resolve_ref :: "nanos \<Rightarrow> nanos \<Rightarrow> conn_series \<Rightarrow> as_of option" where
  "resolve_ref end' t cs =
     (case cs of (c, samples, _) \<Rightarrow>
        if conn_opened_at c \<le> t \<and> t \<le> effective_end_of end' c
        then map_option
               (\<lambda>s. \<lparr>ao_id = conn_id c, ao_state = st_state s,
                     ao_bytes_o2r = st_bytes_o2r s, ao_bytes_r2o = st_bytes_r2o s\<rparr>)
               (as_of_ref st_t t samples)
        else None)"

lemma map_filter_nth_filter:
  "List.map_filter (\<lambda>i. f (xs ! i)) (filter (\<lambda>i. P (xs ! i)) [0..<length xs]) =
     List.map_filter f (filter P xs)"
proof (induction xs rule: rev_induct)
  case Nil
  then show ?case by simp
next
  case (snoc x xs)
  have "filter (\<lambda>i. P ((xs @ [x]) ! i)) [0..<length xs] = filter (\<lambda>i. P (xs ! i)) [0..<length xs]"
    by (rule filter_cong) (simp_all add: nth_append)
  moreover have "List.map_filter (\<lambda>i. f ((xs @ [x]) ! i)) (filter (\<lambda>i. P (xs ! i)) [0..<length xs])
      = List.map_filter (\<lambda>i. f (xs ! i)) (filter (\<lambda>i. P (xs ! i)) [0..<length xs])"
    by (auto simp: List.map_filter_def nth_append intro!: map_cong filter_cong)
  ultimately show ?case using snoc by (simp add: List.map_filter_def nth_append)
qed

lemma map_filter_filter: "List.map_filter f (filter P xs) = List.map_filter (\<lambda>x. if P x then f x else None) xs"
  by (induction xs) (auto split: option.splits)

lemma map_filter_map: "List.map_filter f (map g xs) = List.map_filter (\<lambda>x. f (g x)) xs"
  by (induction xs) (auto split: option.splits)

lemma resolve_at_entries:
  "resolve_at tml t =
     List.map_filter
       (\<lambda>e. if conn_opened_at (e_conn e) \<le> t \<and> t \<le> effective_end e then resolve_entry t e else None)
       (entries tml)"
  unfolding resolve_at_def active_indices_def Let_def
  by (rule trans [OF map_filter_nth_filter [of "resolve_entry t" "entries tml"
      "\<lambda>e. conn_opened_at (e_conn e) \<le> t \<and> t \<le> effective_end e"] map_filter_filter])

lemma resolve_at_built:
  "resolve_at (with_seq_ending conns end') t = List.map_filter (resolve_ref end' t) conns"
proof -
  have "(if conn_opened_at (e_conn e) \<le> t \<and> t \<le> effective_end e then resolve_entry t e else None)
      = resolve_ref end' t cs" if "e = build_entry end' cs" for e cs
    using that
    by (cases cs) (simp add: build_entry_def resolve_entry_def resolve_ref_def effective_end_of_def
        get_before_sorted Let_def)
  then show ?thesis
    by (simp add: resolve_at_entries with_seq_ending_def Let_def map_filter_map)
qed

text \<open>
  Claim C19: the state of the connection list at a cursor time \<open>t\<close> is, connection by connection in
  tracking order, the latest captured snapshot with the greatest time not after \<open>t\<close> of every
  connection whose interval contains \<open>t\<close>, whatever the order the snapshots were captured in.
\<close>

theorem resolve_at_correct:
  "resolve_at (with_seq_ending conns end') t = List.map_filter (resolve_ref end' t) conns
   \<and> active_at (with_seq_ending conns end') t =
     map (\<lambda>(c, r). conn_id c)
       (filter (\<lambda>(c, r). conn_opened_at c \<le> t \<and> t \<le> effective_end_of end' c) conns)"
proof -
  have "active_at tml t = map (\<lambda>e. conn_id (e_conn e))
      (filter (\<lambda>e. conn_opened_at (e_conn e) \<le> t \<and> t \<le> effective_end e) (entries tml))" for tml
    using map_filter_nth_filter [of "\<lambda>e. Some (conn_id (e_conn e))" "entries tml"
        "\<lambda>e. conn_opened_at (e_conn e) \<le> t \<and> t \<le> effective_end e"]
    by (simp add: active_at_def active_indices_def Let_def List.map_filter_def comp_def)
  moreover have "entries (with_seq_ending conns end') = map (build_entry end') conns"
    by (simp add: with_seq_ending_def Let_def)
  moreover have "conn_id (e_conn (build_entry end' cs)) = conn_id (fst cs)"
      "conn_opened_at (e_conn (build_entry end' cs)) = conn_opened_at (fst cs)"
      "effective_end (build_entry end' cs) = effective_end_of end' (fst cs)" for cs
    by (simp_all add: build_entry_def effective_end_of_def case_prod_beta)
  ultimately show ?thesis
    by (simp add: resolve_at_built filter_map comp_def case_prod_beta')
qed

section \<open>Stepping over events\<close>

definition all_times :: "conn_series list \<Rightarrow> nanos set" where
  "all_times conns = (\<Union>(c, samples, r)\<in>set conns. st_t ` set samples)"

lemma event_times_built:
  "sorted (event_times (with_seq_ending conns end'))"
  "set (event_times (with_seq_ending conns end')) = all_times conns"
proof -
  show "sorted (event_times (with_seq_ending conns end'))"
    by (simp add: with_seq_ending_def Let_def sorted_remdups_adj)
  show "set (event_times (with_seq_ending conns end')) = all_times conns"
    by (force simp: with_seq_ending_def Let_def all_times_def build_entry_def)
qed

lemma nth_takeWhile_sorted:
  assumes "sorted xs"
  shows "(if length (takeWhile (\<lambda>x. x \<le> t) xs) < length xs
          then Some (xs ! length (takeWhile (\<lambda>x. x \<le> t) xs)) else None)
       = (let S = {x \<in> set xs. t < x} in if S = {} then None else Some (Min S :: nanos))"
proof -
  let ?k = "length (takeWhile (\<lambda>x. x \<le> t) xs)"
  show ?thesis
  proof (cases "?k < length xs")
    case True
    have gt: "t < xs ! ?k" using nth_length_takeWhile [OF True] by simp
    have "xs ! ?k \<le> y" if y: "y \<in> set xs" "t < y" for y
    proof -
      from y obtain j where j: "j < length xs" "y = xs ! j" by (auto simp: in_set_conv_nth)
      have "\<not> j < ?k"
      proof
        assume "j < ?k"
        with nth_mem [OF this] have "y \<in> set (takeWhile (\<lambda>x. x \<le> t) xs)"
          using j by (simp add: takeWhile_nth)
        with y(2) show False using set_takeWhileD by fastforce
      qed
      then show ?thesis using assms j by (simp add: sorted_nth_mono)
    qed
    with gt True have "Min {x \<in> set xs. t < x} = xs ! ?k"
      by (intro Min_eqI) auto
    moreover have "{x \<in> set xs. t < x} \<noteq> {}" using gt nth_mem [OF True] by blast
    ultimately show ?thesis using True by (simp add: Let_def)
  next
    case False
    then have "takeWhile (\<lambda>x. x \<le> t) xs = xs"
      using takeWhile_eq_take [of "\<lambda>x. x \<le> t" xs] by simp
    then have "\<forall>x\<in>set xs. x \<le> t" by (simp add: takeWhile_eq_all_conv)
    with False show ?thesis by (auto simp: Let_def)
  qed
qed

lemma last_takeWhile_sorted:
  assumes "sorted xs"
  shows "(if takeWhile (\<lambda>x. x < t) xs = [] then None else Some (last (takeWhile (\<lambda>x. x < t) xs)))
       = (let S = {x \<in> set xs. x < t} in if S = {} then None else Some (Max S :: nanos))"
proof -
  have eq: "takeWhile (\<lambda>x. x < t) xs = filter (\<lambda>x. x < t) xs"
    using assms by (induction xs) (fastforce simp: not_less intro!: filter_False [symmetric])+
  have srt: "sorted (filter (\<lambda>x. x < t) xs)" using assms by (simp add: sorted_wrt_filter)
  have "last ys = Max (set ys)" if "sorted ys" "ys \<noteq> []" for ys :: "nanos list"
  proof (rule Max_eqI [symmetric])
    show "y \<le> last ys" if "y \<in> set ys" for y
      using \<open>sorted ys\<close> \<open>ys \<noteq> []\<close> that by (auto simp: last_conv_nth in_set_conv_nth intro!: sorted_nth_mono)
  qed (use that in simp_all)
  with srt show ?thesis by (auto simp: eq Let_def filter_empty_conv)
qed

lemma event_steps_eq:
  "next_event (with_seq_ending conns end') t =
     (let S = {x \<in> all_times conns. t < x} in if S = {} then None else Some (Min S))"
  "prev_event (with_seq_ending conns end') t =
     (let S = {x \<in> all_times conns. x < t} in if S = {} then None else Some (Max S))"
  using nth_takeWhile_sorted [OF event_times_built(1), of t conns end']
    last_takeWhile_sorted [OF event_times_built(1), of t conns end']
  unfolding next_event_def prev_event_def event_times_built(2)
  by (simp_all add: partition_point_eq partitioned_sorted_le [where key = "\<lambda>x. x"]
      partitioned_sorted_lt [where key = "\<lambda>x. x"] event_times_built Let_def get_before_takeWhile)

text \<open>
  Claim C26: the event the cursor steps to is the least time of any captured snapshot after the
  cursor, and the one it steps back to is the greatest before it.
\<close>

theorem event_steps:
  "next_event (with_seq_ending conns end') t =
     (let S = {x \<in> all_times conns. t < x} in if S = {} then None else Some (Min S))
   \<and> prev_event (with_seq_ending conns end') t =
     (let S = {x \<in> all_times conns. x < t} in if S = {} then None else Some (Max S))"
  by (intro conjI event_steps_eq)

section \<open>The cursor domain\<close>

lemma fold_min_Min: "fold min xs (y :: nanos) = Min (set (y # xs))"
  by (metis Min.set_eq_fold)

lemma fold_max_Max: "fold max xs (y :: nanos) = Max (set (y # xs))"
  by (metis Max.set_eq_fold)

lemma min_or_zero_eq: "min_or_zero xs = (if xs = [] then 0 else Min (set xs))"
  by (cases xs) (simp_all only: min_or_zero_def list.case fold_min_Min, simp_all)

lemma max_or_zero_eq: "max_or_zero xs = (if xs = [] then 0 else Max (set xs))"
  by (cases xs) (simp_all only: max_or_zero_def list.case fold_max_Max, simp_all)

lemma tl_start_eq:
  "tl_start (with_seq_ending conns end') = (if all_times conns = {} then 0 else Min (all_times conns))"
proof -
  have "set (concat (map (\<lambda>(c, s, _). map st_t s) conns)) = all_times conns"
    by (auto simp: all_times_def)
  then show ?thesis
    by (metis (no_types, lifting) empty_set min_or_zero_eq set_empty simps(2) timeline.select_convs(2)
        with_seq_ending_def)
qed

lemma tl_end_with_seq_ending [simp]: "tl_end (with_seq_ending conns end') = end'"
  by (simp add: with_seq_ending_def Let_def)

lemma finite_all_times [simp]: "finite (all_times conns)"
  by (auto simp: all_times_def)

lemma tl_start_le: "x \<in> all_times conns \<Longrightarrow> tl_start (with_seq_ending conns end') \<le> x"
  by (auto simp: tl_start_eq)

text \<open>
  The cursor domain of a replay timeline is an interval, and every event lies in it, when no
  snapshot is later than its connection's last activity (which the tracker guarantees).
\<close>

lemma with_seq_interval:
  assumes "\<forall>(c, samples, r)\<in>set conns. \<forall>s\<in>set samples. st_t s \<le> conn_last_at c"
  shows "fst (bounds (with_seq conns)) \<le> snd (bounds (with_seq conns))
    \<and> (\<forall>x\<in>set (event_times (with_seq conns)). fst (bounds (with_seq conns)) \<le> x \<and> x \<le> snd (bounds (with_seq conns)))"
proof -
  let ?latest = "max_or_zero (map (\<lambda>(c, _). conn_last_at c) conns)"
  have up: "x \<le> ?latest" if x: "x \<in> all_times conns" for x
  proof -
    from x obtain c samples r s where c: "(c, samples, r) \<in> set conns" "s \<in> set samples" "x = st_t s"
      by (auto simp: all_times_def)
    with assms have "x \<le> conn_last_at c" by auto
    also have "conn_last_at c \<le> ?latest" using c(1) by (force simp: max_or_zero_eq intro!: Max_ge)
    finally show ?thesis .
  qed
  have "tl_start (with_seq_ending conns ?latest) \<le> ?latest"
  proof (cases "all_times conns = {}")
    case False
    then obtain x where "x \<in> all_times conns" by blast
    then show ?thesis using up tl_start_le order_trans by blast
  qed (simp add: tl_start_eq)
  then show ?thesis
    using up by (simp add: with_seq_def bounds_def event_times_built(2) tl_start_le)
qed

end
