(* ===== verification/Tracker.thy ===== *)
theory Tracker
  imports Metrics Timeline "HOL-Library.Product_Lexorder"
begin

text \<open>
  The connection tracker (\<^verbatim>\<open>crates/tcpvisr-engine/src/tracker.rs\<close>): it groups segments into
  connection instances, follows their lifecycle, derives their metrics, and retains the series
  under one of two policies, fail-fast with a ceiling (replay) or eviction (live). Hash maps
  are partial maps. \<^verbatim>\<open>usize\<close> counters are natural numbers, byte and segment counters are 64-bit
  words that wrap as the release build does, and the unwrapped offset (\<^verbatim>\<open>i64\<close>) is an integer.
  The one index that is not taken from the length of the vector at the same moment is the one
  read from the \<^verbatim>\<open>live\<close> map; an index past the end there is a panic, a value of the model.
\<close>

section \<open>Small functions\<close>

definition is_backward_reset :: "tcp_seq \<Rightarrow> tcp_seq \<Rightarrow> u32 \<Rightarrow> bool" where
  "is_backward_reset baseline sq threshold \<longleftrightarrow>
     serial_lt sq baseline \<and> threshold < serial_diff baseline sq"

definition is_bare_syn :: "tcp_flags \<Rightarrow> bool" where
  "is_bare_syn f \<longleftrightarrow> fl_syn f \<and> \<not> fl_ack f"

definition is_syn_ack :: "tcp_flags \<Rightarrow> bool" where
  "is_syn_ack f \<longleftrightarrow> fl_syn f \<and> fl_ack f"

definition advance_baseline :: "tcp_seq option \<Rightarrow> tcp_seq \<Rightarrow> tcp_seq" where
  "advance_baseline current sq =
     (case current of Some base \<Rightarrow> (if serial_gt base sq then base else sq) | None \<Rightarrow> sq)"

fun dir_index :: "direction \<Rightarrow> nat" where
  "dir_index O2R = 0"
| "dir_index R2O = 1"

fun dir_sample :: "direction \<Rightarrow> sample_dir" where
  "dir_sample O2R = OriginToResponder"
| "dir_sample R2O = ResponderToOrigin"

fun dir_opposite :: "direction \<Rightarrow> direction" where
  "dir_opposite O2R = R2O"
| "dir_opposite R2O = O2R"

fun sdir_opposite :: "sample_dir \<Rightarrow> sample_dir" where
  "sdir_opposite OriginToResponder = ResponderToOrigin"
| "sdir_opposite ResponderToOrigin = OriginToResponder"

fun sdir_index :: "sample_dir \<Rightarrow> nat" where
  "sdir_index OriginToResponder = 0"
| "sdir_index ResponderToOrigin = 1"

section \<open>Sequence unwrapping\<close>

text \<open>\<^verbatim>\<open>SeqUnwrap\<close> holds its frontier: the most forward sequence number and its offset.\<close>

type_synonym seq_unwrap = "(tcp_seq \<times> i64) option"

definition offset :: "seq_unwrap \<Rightarrow> tcp_seq \<Rightarrow> seq_unwrap \<times> i64" where
  "offset u sq =
     (case u of
        None \<Rightarrow> (Some (sq, 0), 0)
      | Some (fseq, frel) \<Rightarrow>
          (if sq = fseq then (u, frel)
           else if serial_gt sq fseq
           then let rel = frel + uint (serial_diff sq fseq) in (Some (sq, rel), rel)
           else (u, frel - uint (serial_diff fseq sq))))"

section \<open>Connection instances\<close>

record conn_track =
  ct_id :: conn_id
  ct_state :: conn_state
  ct_origin :: endpoint
  ct_responder :: endpoint
  ct_origin_inferred :: bool
  ct_opened_at :: nanos
  ct_last_at :: nanos
  ct_bytes_o2r :: u64
  ct_bytes_r2o :: u64
  ct_segments :: u64
  ct_fin_o2r :: bool
  ct_fin_r2o :: bool
  ct_base_o2r :: "tcp_seq option"
  ct_base_r2o :: "tcp_seq option"
  ct_metrics :: metric_state
  ct_series :: "metric_sample list"
  ct_states :: "state_sample list"
  ct_seq :: "seq_sample list"
  ct_inflight :: "inflight_sample list"
  ct_rtt :: "rtt_sample list"
  ct_throughput :: "throughput_sample list"
  ct_srtt :: "nanos option \<times> nanos option"
  ct_unwrap :: "seq_unwrap \<times> seq_unwrap"

definition direction_of :: "conn_track \<Rightarrow> endpoint \<Rightarrow> direction" where
  "direction_of c src = (if src = ct_origin c then O2R else R2O)"

definition baseline :: "conn_track \<Rightarrow> direction \<Rightarrow> tcp_seq option" where
  "baseline c dir = (case dir of O2R \<Rightarrow> ct_base_o2r c | R2O \<Rightarrow> ct_base_r2o c)"

definition account :: "conn_track \<Rightarrow> segment \<Rightarrow> direction \<Rightarrow> conn_track" where
  "account c seg dir =
     (let c1 = c\<lparr>ct_last_at := max (ct_last_at c) (seg_ts seg), ct_segments := ct_segments c + 1\<rparr>
      in case dir of
           O2R \<Rightarrow> c1\<lparr>ct_bytes_o2r := ct_bytes_o2r c1 + ucast (payload_len seg),
                     ct_base_o2r := Some (advance_baseline (ct_base_o2r c1) (seg_seq seg))\<rparr>
         | R2O \<Rightarrow> c1\<lparr>ct_bytes_r2o := ct_bytes_r2o c1 + ucast (payload_len seg),
                     ct_base_r2o := Some (advance_baseline (ct_base_r2o c1) (seg_seq seg))\<rparr>)"

definition set_fin :: "conn_track \<Rightarrow> direction \<Rightarrow> conn_track" where
  "set_fin c dir = (case dir of O2R \<Rightarrow> c\<lparr>ct_fin_o2r := True\<rparr> | R2O \<Rightarrow> c\<lparr>ct_fin_r2o := True\<rparr>)"

definition apply_state :: "conn_track \<Rightarrow> segment \<Rightarrow> direction \<Rightarrow> conn_track" where
  "apply_state c seg dir =
     (let f = seg_flags seg
      in if fl_rst f then c\<lparr>ct_state := Reset\<rparr>
         else if ct_state c = Reset then c
         else
           let c1 = (if is_syn_ack f
                     then (if ct_state c = SynSent
                           then c\<lparr>ct_state := advance_to (ct_state c) SynReceived\<rparr> else c)
                     else if is_bare_syn f
                     then (if ct_state c = SynSent \<and> dir = R2O
                           then c\<lparr>ct_state := advance_to (ct_state c) SynReceived\<rparr> else c)
                     else c);
               c2 = (if ct_state c1 = SynReceived \<and> (fl_ack f \<or> 0 < payload_len seg)
                     then c1\<lparr>ct_state := advance_to (ct_state c1) Established\<rparr> else c1)
           in if fl_fin f
              then let c3 = set_fin c2 dir
                   in if ct_fin_o2r c3 \<and> ct_fin_r2o c3
                      then c3\<lparr>ct_state := advance_to (ct_state c3) Closed\<rparr>
                      else c3\<lparr>ct_state := advance_to (ct_state c3) FinWait\<rparr>
              else c2)"

definition ct_snapshot :: "conn_track \<Rightarrow> nanos \<Rightarrow> state_sample" where
  "ct_snapshot c t =
     \<lparr>st_t = t, st_state = ct_state c, st_bytes_o2r = ct_bytes_o2r c, st_bytes_r2o = ct_bytes_r2o c\<rparr>"

text \<open>The loop of \<^verbatim>\<open>push_seq_points\<close> over the SACK blocks, on the acknowledged direction.\<close>

fun sack_points :: "seq_unwrap \<Rightarrow> nanos \<Rightarrow> sample_dir \<Rightarrow> (tcp_seq \<times> tcp_seq) list
    \<Rightarrow> seq_unwrap \<times> seq_sample list" where
  "sack_points u t d [] = (u, [])"
| "sack_points u t d ((left, right) # blocks) =
     (let (u1, rel) = offset u left; (u2, ps) = sack_points u1 t d blocks
      in (u2, \<lparr>sq_t = t, sq_dir = d, sq_rel = rel, sq_len = 0, sq_kind = Sack\<rparr> # ps))"

definition push_seq_points :: "conn_track \<Rightarrow> segment \<Rightarrow> direction \<Rightarrow> metric_sample
    \<Rightarrow> conn_track \<times> seq_sample list" where
  "push_seq_points c seg dir sample =
     (let (c1, out) =
            (if 0 < payload_len seg
             then let (u, rel) = offset (sel2 (ct_unwrap c) (dir_index dir)) (seg_seq seg)
                  in (c\<lparr>ct_unwrap := upd2 (ct_unwrap c) (dir_index dir) u\<rparr>,
                      [\<lparr>sq_t = seg_ts seg, sq_dir = dir_sample dir, sq_rel = rel,
                        sq_len = payload_len seg,
                        sq_kind = Data (ms_retransmit sample) (ms_out_of_order sample)\<rparr>])
             else (c, []))
      in if sack_blocks (seg_options seg) \<noteq> []
         then let ad = dir_opposite dir; ai = dir_index ad;
                  (u, ps) = sack_points (sel2 (ct_unwrap c1) ai) (seg_ts seg) (dir_sample ad)
                              (sack_blocks (seg_options seg))
              in (c1\<lparr>ct_unwrap := upd2 (ct_unwrap c1) ai u\<rparr>, out @ ps)
         else (c1, out))"

definition ct_view :: "conn_track \<Rightarrow> connection" where
  "ct_view c =
     \<lparr>conn_id = ct_id c, conn_state = ct_state c, conn_origin = ct_origin c,
      conn_responder = ct_responder c, conn_origin_inferred = ct_origin_inferred c,
      conn_opened_at = ct_opened_at c, conn_last_at = ct_last_at c,
      conn_bytes_o2r = ct_bytes_o2r c, conn_bytes_r2o = ct_bytes_r2o c,
      conn_segments = ct_segments c\<rparr>"

section \<open>Eviction of samples\<close>

fun evict_front :: "('a \<Rightarrow> nanos) \<Rightarrow> nanos \<Rightarrow> usize \<Rightarrow> 'a list \<Rightarrow> usize \<Rightarrow> 'a list \<times> usize" where
  "evict_front key horizon keep_min [] count = ([], count)"
| "evict_front key horizon keep_min (x # dq) count =
     (if keep_min < length (x # dq) \<and> key x < horizon
      then evict_front key horizon keep_min dq (count - 1)
      else (x # dq, count))"

text \<open>\<^verbatim>\<open>iter().enumerate().max_by_key\<close>: the last position that holds the maximum.\<close>

fun last_max :: "nat \<Rightarrow> usize list \<Rightarrow> nat \<times> usize \<Rightarrow> nat \<times> usize" where
  "last_max i [] best = best"
| "last_max i (l # ls) (which, mx) = last_max (Suc i) ls (if l < mx then (which, mx) else (i, l))"

definition pop_longest_front :: "conn_track \<Rightarrow> conn_track \<times> bool" where
  "pop_longest_front c =
     (let lens = [length (ct_states c) - 1, length (ct_series c), length (ct_seq c),
                  length (ct_inflight c), length (ct_rtt c), length (ct_throughput c)];
          (which, mx) = last_max 1 (tl lens) (0, hd lens)
      in if mx = 0 then (c, False)
         else if which = 0 then (c\<lparr>ct_states := tl (ct_states c)\<rparr>, ct_states c \<noteq> [])
         else if which = 1 then (c\<lparr>ct_series := tl (ct_series c)\<rparr>, ct_series c \<noteq> [])
         else if which = 2 then (c\<lparr>ct_seq := tl (ct_seq c)\<rparr>, ct_seq c \<noteq> [])
         else if which = 3 then (c\<lparr>ct_inflight := tl (ct_inflight c)\<rparr>, ct_inflight c \<noteq> [])
         else if which = 4 then (c\<lparr>ct_rtt := tl (ct_rtt c)\<rparr>, ct_rtt c \<noteq> [])
         else (c\<lparr>ct_throughput := tl (ct_throughput c)\<rparr>, ct_throughput c \<noteq> []))"

section \<open>The tracker\<close>

record tracker =
  config :: engine_config
  conns :: "conn_track list"
  live :: "endpoint_pair \<rightharpoonup> usize"
  next_instance :: "endpoint_pair \<rightharpoonup> u32"
  collected_samples :: usize
  overflowed :: bool
  tr_now :: nanos

definition tracker_new :: "engine_config \<Rightarrow> tracker" where
  "tracker_new cfg =
     \<lparr>config = cfg, conns = [], live = Map.empty, next_instance = Map.empty,
      collected_samples = 0, overflowed = False, tr_now = 0\<rparr>"

definition should_collect :: "tracker \<Rightarrow> conn_id \<Rightarrow> bool" where
  "should_collect tr i =
     (case series_collection (config tr) of
        CollectNone \<Rightarrow> False | CollectAll \<Rightarrow> True | CollectOnly target \<Rightarrow> target = i)"

text \<open>Mutation of the connection at an index: \<^verbatim>\<open>self.conns[idx]\<close>.\<close>

definition upd_conn :: "tracker \<Rightarrow> nat \<Rightarrow> (conn_track \<Rightarrow> conn_track) \<Rightarrow> tracker" where
  "upd_conn tr i f = tr\<lparr>conns := (conns tr)[i := f (conns tr ! i)]\<rparr>"

definition evict_oldest_global :: "tracker \<Rightarrow> nat \<Rightarrow> tracker" where
  "evict_oldest_global tr i =
     (let (c, popped) = pop_longest_front (conns tr ! i);
          tr1 = tr\<lparr>conns := (conns tr)[i := c]\<rparr>
      in if popped then tr1\<lparr>collected_samples := collected_samples tr1 - 1\<rparr> else tr1)"

definition admit :: "tracker \<Rightarrow> nat \<Rightarrow> tracker \<times> bool" where
  "admit tr i =
     (if max_samples (retention (config tr)) \<le> collected_samples tr
      then if retention_window (retention (config tr)) \<noteq> None
           then let tr1 = evict_oldest_global tr i
                in (tr1\<lparr>collected_samples := collected_samples tr1 + 1\<rparr>, True)
           else (tr\<lparr>overflowed := True\<rparr>, False)
      else (tr\<lparr>collected_samples := collected_samples tr + 1\<rparr>, True))"

definition evict_conn :: "nanos \<Rightarrow> conn_track \<Rightarrow> usize \<Rightarrow> conn_track \<times> usize" where
  "evict_conn horizon c n0 =
     (let (states, n1) = evict_front st_t horizon 1 (ct_states c) n0;
          (series, n2) = evict_front ms_t horizon 0 (ct_series c) n1;
          (sq, n3) = evict_front sq_t horizon 0 (ct_seq c) n2;
          (inflight, n4) = evict_front if_t horizon 0 (ct_inflight c) n3;
          (rtt, n5) = evict_front rt_t horizon 0 (ct_rtt c) n4;
          (throughput, n6) = evict_front tp_t horizon 0 (ct_throughput c) n5
      in (c\<lparr>ct_states := states, ct_series := series, ct_seq := sq, ct_inflight := inflight,
            ct_rtt := rtt, ct_throughput := throughput\<rparr>, n6))"

fun evict_conns :: "nanos \<Rightarrow> conn_track list \<Rightarrow> usize \<Rightarrow> conn_track list \<times> usize" where
  "evict_conns horizon [] n = ([], n)"
| "evict_conns horizon (c # cs) n =
     (let (c', n1) = evict_conn horizon c n; (cs', n2) = evict_conns horizon cs n1 in (c' # cs', n2))"

definition evict_samples :: "tracker \<Rightarrow> tracker" where
  "evict_samples tr =
     (case retention_window (retention (config tr)) of
        None \<Rightarrow> tr
      | Some window \<Rightarrow>
          (let horizon = sat_sub (tr_now tr) window;
               (cs, n) = evict_conns horizon (conns tr) (collected_samples tr)
           in tr\<lparr>conns := cs, collected_samples := n\<rparr>))"

section \<open>Recording\<close>

definition record_sample :: "tracker \<Rightarrow> nat \<Rightarrow> metric_sample \<Rightarrow> tracker" where
  "record_sample tr i sample =
     (if \<not> should_collect tr (ct_id (conns tr ! i)) then tr
      else let (tr1, ok) = admit tr i
           in if ok then upd_conn tr1 i (\<lambda>c. c\<lparr>ct_series := ct_series c @ [sample]\<rparr>) else tr1)"

definition record_state :: "tracker \<Rightarrow> nat \<Rightarrow> state_sample \<Rightarrow> tracker" where
  "record_state tr i sample =
     (if overflowed tr then tr
      else let (tr1, ok) = admit tr i
           in if ok then upd_conn tr1 i (\<lambda>c. c\<lparr>ct_states := ct_states c @ [sample]\<rparr>) else tr1)"

definition record_seq :: "tracker \<Rightarrow> nat \<Rightarrow> seq_sample \<Rightarrow> tracker" where
  "record_seq tr i sample =
     (if overflowed tr then tr
      else let (tr1, ok) = admit tr i
           in if ok then upd_conn tr1 i (\<lambda>c. c\<lparr>ct_seq := ct_seq c @ [sample]\<rparr>) else tr1)"

definition collect_seq_points :: "tracker \<Rightarrow> nat \<Rightarrow> segment \<Rightarrow> direction \<Rightarrow> metric_sample \<Rightarrow> tracker" where
  "collect_seq_points tr i seg dir sample =
     (if overflowed tr \<or> \<not> collect_seq_timeline (config tr) then tr
      else let (c, points) = push_seq_points (conns tr ! i) seg dir sample
           in fold (\<lambda>p tr. record_seq tr i p) points (upd_conn tr i (\<lambda>_. c)))"

definition record_inflight :: "tracker \<Rightarrow> nat \<Rightarrow> inflight_sample \<Rightarrow> tracker" where
  "record_inflight tr i sample =
     (if overflowed tr then tr
      else let (tr1, ok) = admit tr i
           in if ok then upd_conn tr1 i (\<lambda>c. c\<lparr>ct_inflight := ct_inflight c @ [sample]\<rparr>) else tr1)"

definition collect_inflight_at :: "tracker \<Rightarrow> nat \<Rightarrow> nanos \<Rightarrow> tracker" where
  "collect_inflight_at tr i t =
     (if overflowed tr \<or> \<not> collect_inflight_timeline (config tr) then tr
      else fold (\<lambda>d tr.
             case in_flight (ct_metrics (conns tr ! i)) d of
               None \<Rightarrow> tr
             | Some bytes \<Rightarrow> record_inflight tr i \<lparr>if_t = t, if_dir = dir_sample d, if_bytes = bytes\<rparr>)
           [O2R, R2O] tr)"

definition collect_inflight_points :: "tracker \<Rightarrow> nat \<Rightarrow> segment \<Rightarrow> tracker" where
  "collect_inflight_points tr i seg = collect_inflight_at tr i (seg_ts seg)"

definition record_rtt :: "tracker \<Rightarrow> nat \<Rightarrow> rtt_sample \<Rightarrow> tracker" where
  "record_rtt tr i sample =
     (if overflowed tr then tr
      else let (tr1, ok) = admit tr i
           in if ok then upd_conn tr1 i (\<lambda>c. c\<lparr>ct_rtt := ct_rtt c @ [sample]\<rparr>) else tr1)"

definition next_srtt :: "nanos option \<Rightarrow> nanos \<Rightarrow> nanos" where
  "next_srtt prev rtt =
     (case prev of None \<Rightarrow> rtt | Some p \<Rightarrow> u64_of ((7 * unat p + unat rtt) div 8))"

definition collect_rtt_points :: "tracker \<Rightarrow> nat \<Rightarrow> metric_sample \<Rightarrow> tracker" where
  "collect_rtt_points tr i sample =
     (if overflowed tr \<or> \<not> collect_rtt_timeline (config tr) then tr
      else case ms_rtt sample of
             None \<Rightarrow> tr
           | Some rtt \<Rightarrow>
               (let m = sdir_opposite (ms_dir sample); mi = sdir_index m;
                    srtt = next_srtt (sel2 (ct_srtt (conns tr ! i)) mi) rtt;
                    tr1 = upd_conn tr i (\<lambda>c. c\<lparr>ct_srtt := upd2 (ct_srtt c) mi (Some srtt)\<rparr>)
                in record_rtt tr1 i
                     \<lparr>rt_t = ms_t sample, rt_dir = m, rt_rtt = rtt, rt_srtt = srtt\<rparr>))"

definition record_throughput :: "tracker \<Rightarrow> nat \<Rightarrow> throughput_sample \<Rightarrow> tracker" where
  "record_throughput tr i sample =
     (if overflowed tr then tr
      else let (tr1, ok) = admit tr i
           in if ok then upd_conn tr1 i (\<lambda>c. c\<lparr>ct_throughput := ct_throughput c @ [sample]\<rparr>) else tr1)"

definition collect_throughput_at :: "tracker \<Rightarrow> nat \<Rightarrow> nanos \<Rightarrow> tracker" where
  "collect_throughput_at tr i t =
     (if overflowed tr \<or> \<not> collect_throughput_timeline (config tr) then tr
      else fold (\<lambda>d tr.
             case throughput_at (ct_metrics (conns tr ! i)) d t (config tr) of
               None \<Rightarrow> tr
             | Some (throughput_bps, goodput_bps) \<Rightarrow>
                 record_throughput tr i
                   \<lparr>tp_t = t, tp_dir = dir_sample d, tp_throughput_bps = throughput_bps,
                    tp_goodput_bps = goodput_bps\<rparr>)
           [O2R, R2O] tr)"

definition collect_throughput_points :: "tracker \<Rightarrow> nat \<Rightarrow> segment \<Rightarrow> tracker" where
  "collect_throughput_points tr i seg = collect_throughput_at tr i (seg_ts seg)"

section \<open>Segments\<close>

definition should_split :: "tracker \<Rightarrow> nat \<Rightarrow> segment \<Rightarrow> endpoint \<Rightarrow> bool" where
  "should_split tr i seg src =
     (let track = conns tr ! i; f = seg_flags seg
      in if is_bare_syn f
         then is_terminal (ct_state track)
              \<or> dead_after (config tr) < sat_sub (seg_ts seg) (ct_last_at track)
         else if ct_state track = Established
         then case baseline track (direction_of track src) of
                Some base \<Rightarrow> is_backward_reset base (seg_seq seg) (reset_threshold (config tr))
              | None \<Rightarrow> False
         else False)"

text \<open>The condition under which a segment's metrics are derived, shared by both callers.\<close>

definition wants_observe :: "tracker \<Rightarrow> conn_id \<Rightarrow> bool" where
  "wants_observe tr i \<longleftrightarrow>
     \<not> overflowed tr
     \<and> (should_collect tr i \<or> collect_seq_timeline (config tr) \<or> collect_inflight_timeline (config tr)
         \<or> collect_rtt_timeline (config tr) \<or> collect_throughput_timeline (config tr))"

text \<open>The calls that record a derived sample, shared by both callers.\<close>

definition record_derived :: "tracker \<Rightarrow> nat \<Rightarrow> segment \<Rightarrow> direction \<Rightarrow> bool \<Rightarrow> metric_sample \<Rightarrow> tracker" where
  "record_derived tr i seg dir want_metric sample =
     (let tr1 = (if want_metric then record_sample tr i sample else tr);
          tr2 = collect_seq_points tr1 i seg dir sample;
          tr3 = collect_inflight_points tr2 i seg;
          tr4 = collect_rtt_points tr3 i sample
      in collect_throughput_points tr4 i seg)"

definition classify_open :: "tcp_flags \<Rightarrow> endpoint \<Rightarrow> endpoint \<Rightarrow> endpoint \<times> endpoint \<times> bool \<times> conn_state" where
  "classify_open flags src dst =
     (if is_bare_syn flags then (src, dst, False, SynSent)
      else if is_syn_ack flags then (dst, src, False, SynReceived)
      else if fl_rst flags then (src, dst, True, Reset)
      else if fl_fin flags then (src, dst, True, FinWait)
      else (src, dst, True, Established))"

definition fresh_track :: "endpoint_pair \<Rightarrow> u32 \<Rightarrow> segment \<Rightarrow> endpoint \<Rightarrow> endpoint \<Rightarrow> conn_track" where
  "fresh_track pair instance' seg src dst =
     (case classify_open (seg_flags seg) src dst of (origin, responder, origin_inferred, state) \<Rightarrow>
        \<lparr>ct_id = ConnId pair instance', ct_state = state, ct_origin = origin,
         ct_responder = responder, ct_origin_inferred = origin_inferred,
         ct_opened_at = seg_ts seg, ct_last_at = seg_ts seg, ct_bytes_o2r = 0, ct_bytes_r2o = 0,
         ct_segments = 0, ct_fin_o2r = False, ct_fin_r2o = False, ct_base_o2r = None,
         ct_base_r2o = None, ct_metrics = metric_state_new, ct_series = [], ct_states = [],
         ct_seq = [], ct_inflight = [], ct_rtt = [], ct_throughput = [], ct_srtt = (None, None),
         ct_unwrap = (None, None)\<rparr>)"

definition create_instance :: "tracker \<Rightarrow> endpoint_pair \<Rightarrow> segment \<Rightarrow> endpoint \<Rightarrow> endpoint \<Rightarrow> tracker" where
  "create_instance tr pair seg src dst =
     (let instance' = (case next_instance tr pair of None \<Rightarrow> 0 | Some n \<Rightarrow> n);
          tr0 = tr\<lparr>next_instance := (next_instance tr)(pair \<mapsto> instance' + 1)\<rparr>;
          track0 = fresh_track pair instance' seg src dst;
          dir = direction_of track0 src;
          track1 = account track0 seg dir;
          track2 = (if fl_fin (seg_flags seg) then set_fin track1 dir else track1);
          want_metric = should_collect tr0 (ct_id track2);
          derived = (if wants_observe tr0 (ct_id track2)
                     then Some (metric_observe (ct_metrics track2) seg dir (config tr0)) else None);
          track3 = (case derived of Some (ms, _) \<Rightarrow> track2\<lparr>ct_metrics := ms\<rparr> | None \<Rightarrow> track2);
          i = length (conns tr0);
          tr1 = tr0\<lparr>conns := conns tr0 @ [track3], live := (live tr0)(pair \<mapsto> i)\<rparr>;
          tr2 = (case derived of
                   Some (_, sample) \<Rightarrow> record_derived tr1 i seg dir want_metric sample
                 | None \<Rightarrow> tr1)
      in if collect_state_timeline (config tr2)
         then record_state tr2 i (ct_snapshot (conns tr2 ! i) (seg_ts seg)) else tr2)"

text \<open>The branch of \<^verbatim>\<open>observe_segment\<close> in which the segment joins the live instance.\<close>

definition join_instance :: "tracker \<Rightarrow> nat \<Rightarrow> segment \<Rightarrow> endpoint \<Rightarrow> tracker" where
  "join_instance tr i seg src =
     (let dir = direction_of (conns tr ! i) src;
          tr1 = upd_conn tr i (\<lambda>c. account c seg dir);
          tr2 = upd_conn tr1 i (\<lambda>c. apply_state c seg dir);
          tr3 = (if collect_state_timeline (config tr2)
                 then record_state tr2 i (ct_snapshot (conns tr2 ! i) (seg_ts seg)) else tr2);
          want_metric = should_collect tr3 (ct_id (conns tr3 ! i))
      in if wants_observe tr3 (ct_id (conns tr3 ! i))
         then let (ms, sample) = metric_observe (ct_metrics (conns tr3 ! i)) seg dir (config tr3);
                  tr4 = upd_conn tr3 i (\<lambda>c. c\<lparr>ct_metrics := ms\<rparr>)
              in record_derived tr4 i seg dir want_metric sample
         else tr3)"

definition observe_segment :: "tracker \<Rightarrow> segment \<Rightarrow> panic + tracker" where
  "observe_segment tr seg =
     (let src = flow_source (seg_flow seg); dst = flow_destination (seg_flow seg);
          pair = pair_new src dst
      in case live tr pair of
           Some i \<Rightarrow>
             (if length (conns tr) \<le> i then Inl IndexOutOfBounds
              else if \<not> should_split tr i seg src then Inr (join_instance tr i seg src)
              else Inr (create_instance tr pair seg src dst))
         | None \<Rightarrow> Inr (create_instance tr pair seg src dst))"

section \<open>Ticks\<close>

definition emit_decay_samples :: "tracker \<Rightarrow> nanos \<Rightarrow> tracker" where
  "emit_decay_samples tr t =
     (if overflowed tr then tr
      else fold (\<lambda>i tr.
             if dead_after (config tr) < sat_sub t (ct_last_at (conns tr ! i)) then tr
             else collect_inflight_at (collect_throughput_at tr i t) i t)
           [0..<length (conns tr)] tr)"

definition retained :: "conn_track \<Rightarrow> usize" where
  "retained c = length (ct_states c) + length (ct_series c) + length (ct_seq c)
     + length (ct_inflight c) + length (ct_rtt c) + length (ct_throughput c)"

definition recount_collected :: "tracker \<Rightarrow> tracker" where
  "recount_collected tr = tr\<lparr>collected_samples := sum_list (map retained (conns tr))\<rparr>"

text \<open>The closure of \<^verbatim>\<open>retain\<close> in \<^verbatim>\<open>evict_dead_connections\<close>.\<close>

definition survives :: "engine_config \<Rightarrow> nanos \<Rightarrow> nanos \<Rightarrow> conn_track \<Rightarrow> bool" where
  "survives cfg now horizon c \<longleftrightarrow>
     (let terminal = is_terminal (ct_state c); idle = dead_after cfg < sat_sub now (ct_last_at c)
      in \<not> ((terminal \<or> idle) \<and> ct_last_at c < horizon))"

definition index_live :: "conn_track list \<Rightarrow> (endpoint_pair \<rightharpoonup> usize)" where
  "index_live cs = fold (\<lambda>(i, c) m. m(id_pair (ct_id c) \<mapsto> i)) (enumerate 0 cs) Map.empty"

definition evict_dead_connections :: "tracker \<Rightarrow> tracker" where
  "evict_dead_connections tr =
     (case retention_window (retention (config tr)) of
        None \<Rightarrow> tr
      | Some window \<Rightarrow>
          (let horizon = sat_sub (tr_now tr) window;
               cs = filter (survives (config tr) (tr_now tr) horizon) (conns tr)
           in if length cs = length (conns tr) then tr\<lparr>conns := cs\<rparr>
              else let survivors = (\<lambda>c. id_pair (ct_id c)) ` set cs
                   in recount_collected
                        (tr\<lparr>conns := cs, live := index_live cs,
                            next_instance := (\<lambda>pair. if pair \<in> survivors
                                                     then next_instance tr pair else None)\<rparr>)))"

definition observe_tick :: "tracker \<Rightarrow> nanos \<Rightarrow> tracker" where
  "observe_tick tr t =
     (if retention_window (retention (config tr)) = None then tr
      else let tr1 = tr\<lparr>tr_now := max (tr_now tr) t\<rparr>
           in evict_dead_connections (evict_samples (emit_decay_samples tr1 (tr_now tr1))))"

definition observe :: "tracker \<Rightarrow> item \<Rightarrow> panic + tracker" where
  "observe tr item =
     (case item of
        Segment seg \<Rightarrow>
          and_then (observe_segment (tr\<lparr>tr_now := max (tr_now tr) (seg_ts seg)\<rparr>) seg)
            (\<lambda>tr1. Inr (evict_samples tr1))
      | Tick t \<Rightarrow> Inr (observe_tick tr t))"

section \<open>Results\<close>

definition conn_key :: "connection \<Rightarrow> nanos \<times> endpoint_pair \<times> u32" where
  "conn_key c = (conn_opened_at c, id_pair (conn_id c), id_instance (conn_id c))"

definition into_connections :: "tracker \<Rightarrow> connection list" where
  "into_connections tr = sort_key conn_key (map ct_view (conns tr))"

definition ceiling_error :: "tracker \<Rightarrow> metric_error" where
  "ceiling_error tr = SampleCeiling (collected_samples tr + 1) (max_samples (retention (config tr)))"

definition into_metrics :: "tracker \<Rightarrow> metric_error + connection_metrics list" where
  "into_metrics tr =
     (if overflowed tr then Inl (ceiling_error tr)
      else Inr (sort_key (\<lambda>m. conn_key (cm_conn m))
                  (map (\<lambda>c. \<lparr>cm_conn = ct_view c, cm_series = ct_series c\<rparr>) (conns tr))))"

definition all_series :: "tracker \<Rightarrow> conn_series list" where
  "all_series tr =
     map (\<lambda>c. (ct_view c, ct_states c, ct_seq c, ct_inflight c, ct_rtt c, ct_throughput c)) (conns tr)"

definition into_timeline :: "tracker \<Rightarrow> metric_error + timeline" where
  "into_timeline tr =
     (if overflowed tr then Inl (ceiling_error tr) else Inr (with_seq (all_series tr)))"

definition retention_horizon :: "tracker \<Rightarrow> nanos" where
  "retention_horizon tr =
     (case retention_window (retention (config tr)) of
        Some w \<Rightarrow> sat_sub (tr_now tr) w
      | None \<Rightarrow> tr_now tr)"

definition snapshot :: "tracker \<Rightarrow> timeline" where
  "snapshot tr = with_seq_ending (all_series tr) (tr_now tr)"

text \<open>The loop of \<^verbatim>\<open>track\<close> and of every faucet's sink: items are folded in one at a time.\<close>

definition observe_all :: "tracker \<Rightarrow> item list \<Rightarrow> panic + tracker" where
  "observe_all tr items = try_fold observe tr items"

definition track :: "item list \<Rightarrow> engine_config \<Rightarrow> panic + connection list" where
  "track items cfg =
     and_then (observe_all (tracker_new cfg) items) (\<lambda>tr. Inr (into_connections tr))"

end
