(* ===== verification/Tracker_Series.thy ===== *)
theory Tracker_Series
  imports Tracker
begin

text \<open>
  The values the tracker plots rather than measures: unwrapped sequence offsets and the smoothed
  round-trip time.
\<close>

section \<open>Sequence unwrapping\<close>

text \<open>
  A byte stream's true positions are integers; the wire carries them modulo 2^32. The unwrapping
  recovers the positions as long as each stays within 2^31 of the most forward one before it.
\<close>

fun unwrap_run :: "seq_unwrap \<Rightarrow> tcp_seq list \<Rightarrow> i64 list" where
  "unwrap_run u [] = []"
| "unwrap_run u (s # ss) = (let (u', rel) = offset u s in rel # unwrap_run u' ss)"

fun near_frontier :: "int \<Rightarrow> int list \<Rightarrow> bool" where
  "near_frontier m [] = True"
| "near_frontier m (p # ps) \<longleftrightarrow> \<bar>p - m\<bar> < 2 ^ 31 \<and> near_frontier (max m p) ps"

lemma uint_word_of_int_small: "0 \<le> d \<Longrightarrow> d < 2 ^ 32 \<Longrightarrow> uint (word_of_int d :: u32) = d"
  by (simp add: unsigned_of_int take_bit_int_eq_self)

lemma offset_step:
  fixes base :: tcp_seq
  assumes "\<bar>p - m\<bar> < 2 ^ 31"
  shows "offset (Some (base + word_of_int m, m)) (base + word_of_int p)
    = (Some (base + word_of_int (max m p), max m p), p)"
proof -
  let ?f = "base + word_of_int m" and ?s = "base + word_of_int p"
  have fwd: "?s - ?f = word_of_int (p - m)" and bwd: "?f - ?s = word_of_int (m - p)"
    by (simp_all add: of_int_diff)
  consider "p = m" | "m < p" | "p < m" by linarith
  then show ?thesis
  proof cases
    case 1
    then show ?thesis by (simp add: offset_def)
  next
    case 2
    then have u: "uint (?s - ?f) = p - m" using assms unfolding fwd by (intro uint_word_of_int_small) simp_all
    then have n: "unat (?s - ?f) = nat (p - m)" by (simp add: unat_eq_nat_uint del: add_diff_cancel_left)
    have "?s \<noteq> ?f" using u 2 by auto
    moreover have "serial_gt ?s ?f" unfolding serial_gt_def serial_lt_unat n using 2 assms by simp
    ultimately show ?thesis using u 2 by (simp add: offset_def serial_diff_def Let_def max_def)
  next
    case 3
    then have u: "uint (?f - ?s) = m - p" using assms unfolding bwd by (intro uint_word_of_int_small) simp_all
    then have n: "unat (?f - ?s) = nat (m - p)" by (simp add: unat_eq_nat_uint del: add_diff_cancel_left)
    have "?s \<noteq> ?f" using u 3 by auto
    moreover have "serial_lt ?s ?f" unfolding serial_lt_unat n using 3 assms by simp
    then have "\<not> serial_gt ?s ?f" unfolding serial_gt_def by (rule serial_lt_asym)
    ultimately show ?thesis using u 3 by (simp add: offset_def serial_diff_def max_def)
  qed
qed

lemma unwrap_run_from:
  fixes base :: tcp_seq
  assumes "near_frontier m ps"
  shows "unwrap_run (Some (base + word_of_int m, m)) (map (\<lambda>p. base + word_of_int p) ps) = ps"
  using assms by (induction ps arbitrary: m) (simp_all add: offset_step Let_def)

text \<open>
  Claim C24: the offsets plotted for a direction are the true stream positions relative to the
  first segment seen, however often the 32-bit sequence space wraps, provided every position
  stays within 2^31 of the most forward one before it.
\<close>

theorem unwrap_recovers_positions:
  fixes base :: tcp_seq
  assumes "near_frontier 0 ps"
  shows "unwrap_run None (map (\<lambda>p. base + word_of_int p) (0 # ps)) = 0 # ps"
  using unwrap_run_from [OF assms, of base] by (simp add: offset_def)

theorem unwrap_recovers_positions_witness:
  "near_frontier 0 [2000000000, 4000000000, 3999998000, 6000000000]
   \<and> unwrap_run None [4294967290, 1999999994, 3999999994, 3999997994, 1705032698]
     = [0, 2000000000, 4000000000, 3999998000, 6000000000]"
proof -
  have near: "near_frontier 0 [2000000000, 4000000000, 3999998000, 6000000000]" by simp
  have seqs: "map (\<lambda>p. 4294967290 + word_of_int p) [0, 2000000000, 4000000000, 3999998000, 6000000000]
      = [4294967290 :: tcp_seq, 1999999994, 3999999994, 3999997994, 1705032698]" by code_simp
  from unwrap_recovers_positions [OF near, of 4294967290] near show ?thesis unfolding seqs by blast
qed

section \<open>Smoothed round-trip time\<close>

definition srtt_run :: "nanos list \<Rightarrow> nanos option" where
  "srtt_run rtts = foldl (\<lambda>prev rtt. Some (next_srtt prev rtt)) None rtts"

lemma next_srtt_between:
  assumes "lo \<le> p" "lo \<le> r" "p \<le> hi" "r \<le> hi"
  shows "lo \<le> next_srtt (Some p) r \<and> next_srtt (Some p) r \<le> hi"
proof -
  have l: "unat lo \<le> (7 * unat p + unat r) div 8"
    using assms(1,2) unfolding word_le_nat_alt by simp
  have h: "(7 * unat p + unat r) div 8 \<le> unat hi"
    using assms(3,4) unfolding word_le_nat_alt by simp
  have "unat hi < 2 ^ 64" by (rule unat_lt_u64)
  then have "unat (next_srtt (Some p) r) = (7 * unat p + unat r) div 8"
    using h by (simp add: next_srtt_def unat_u64_of)
  with l h show ?thesis unfolding word_le_nat_alt by simp
qed

text \<open>
  The smoothed round-trip time of a direction always lies between the smallest and the
  largest round-trip time measured for it so far.
\<close>

theorem srtt_within_samples:
  assumes "rtts \<noteq> []"
  shows "\<exists>s. srtt_run rtts = Some s \<and> Min (set rtts) \<le> s \<and> s \<le> Max (set rtts)"
  using assms
proof (induction rtts rule: rev_induct)
  case Nil
  then show ?case by simp
next
  case (snoc r rtts)
  show ?case
  proof (cases "rtts = []")
    case True
    then show ?thesis by (simp add: srtt_run_def next_srtt_def)
  next
    case False
    with snoc.IH obtain p where p: "srtt_run rtts = Some p" "Min (set rtts) \<le> p" "p \<le> Max (set rtts)" by blast
    have "Min (set (rtts @ [r])) = min r (Min (set rtts))" "Max (set (rtts @ [r])) = max r (Max (set rtts))"
      using False by simp_all
    moreover have "min r (Min (set rtts)) \<le> next_srtt (Some p) r \<and> next_srtt (Some p) r \<le> max r (Max (set rtts))"
      using p(2,3) by (intro next_srtt_between) (simp_all add: min.coboundedI2 max.coboundedI2)
    ultimately show ?thesis using p(1) by (simp add: srtt_run_def)
  qed
qed

theorem srtt_within_samples_witness:
  "srtt_run [80, 160, 40] = Some 83 \<and> (40 :: nanos) \<le> 83 \<and> (83 :: nanos) \<le> 160"
proof -
  have "srtt_run [80, 160, 40] = Some 83" by code_simp
  moreover have "[80 :: nanos, 160, 40] \<noteq> []" by simp
  moreover have "Min (set [80 :: nanos, 160, 40]) = 40" "Max (set [80 :: nanos, 160, 40]) = 160"
    by (simp_all add: min_def max_def)
  ultimately show ?thesis using srtt_within_samples [of "[80, 160, 40]"] by auto
qed

end
