(* ===== verification/Tracker_Store.thy ===== *)
theory Tracker_Store
  imports Tracker
begin

text \<open>
  The sample storage of the tracker: what the recording functions may change (the frame), the
  accounting of held samples against the ceiling, and the contract the six \<^verbatim>\<open>record_*\<close> functions
  share, stated as a locale and interpreted on each of them.
\<close>


section \<open>What recording may change\<close>

text \<open>The part of a connection that the lifecycle, and not the collection of samples, decides.\<close>

definition core :: "conn_track \<Rightarrow> connection \<times> bool \<times> bool \<times> tcp_seq option \<times> tcp_seq option" where
  "core c = (ct_view c, ct_fin_o2r c, ct_fin_r2o c, ct_base_o2r c, ct_base_r2o c)"

text \<open>State snapshots never lie after the last activity of their connection.\<close>

definition states_ok :: "conn_track \<Rightarrow> bool" where
  "states_ok c \<longleftrightarrow> (\<forall>s\<in>set (ct_states c). st_t s \<le> ct_last_at c)"

definition keeps :: "conn_track \<Rightarrow> conn_track \<Rightarrow> bool" where
  "keeps c c' \<longleftrightarrow>
     core c' = core c \<and> (states_ok c \<longrightarrow> states_ok c') \<and> (ct_states c \<noteq> [] \<longrightarrow> ct_states c' \<noteq> [])"

text \<open>
  The frame of every recording function: configuration, indices and clock stay, each connection
  keeps its core, and an overflow is never forgotten.
\<close>

definition frame :: "tracker \<Rightarrow> tracker \<Rightarrow> bool" where
  "frame tr tr' \<longleftrightarrow>
     config tr' = config tr \<and> live tr' = live tr \<and> next_instance tr' = next_instance tr
     \<and> tr_now tr' = tr_now tr \<and> list_all2 keeps (conns tr) (conns tr')
     \<and> (overflowed tr \<longrightarrow> overflowed tr')"

text \<open>
  The accounting invariant: the counter is the number of samples held, under the fail-fast
  policy it stays at or below the ceiling, and only that policy overflows. Under either policy
  it exceeds the ceiling by at most the \<open>slack\<close>: a connection is given a sample beyond the
  ceiling without giving one up only while it holds at most one.
\<close>

definition slack :: "conn_track list \<Rightarrow> nat" where
  "slack cs = sum_list (map (\<lambda>c. min (retained c) 2) cs)"

definition sound :: "tracker \<Rightarrow> bool" where
  "sound tr \<longleftrightarrow>
     collected_samples tr = sum_list (map retained (conns tr))
     \<and> collected_samples tr \<le> max_samples (retention (config tr)) + slack (conns tr)
     \<and> (retention_window (retention (config tr)) = None \<longrightarrow>
          collected_samples tr \<le> max_samples (retention (config tr)))
     \<and> (overflowed tr \<longrightarrow> retention_window (retention (config tr)) = None
          \<and> collected_samples tr = max_samples (retention (config tr)))"

lemma keeps_refl [simp, intro]: "keeps c c"
  by (simp add: keeps_def)

lemma keeps_trans: "keeps a b \<Longrightarrow> keeps b c \<Longrightarrow> keeps a c"
  by (simp add: keeps_def)

lemma frame_refl [simp, intro]: "frame tr tr"
  by (simp add: frame_def list_all2_refl)

lemma keeps_list_trans:
  "list_all2 keeps xs ys \<Longrightarrow> list_all2 keeps ys zs \<Longrightarrow> list_all2 keeps xs zs"
  by (rule list_all2_trans [OF keeps_trans])

lemma frame_trans: "frame a b \<Longrightarrow> frame b c \<Longrightarrow> frame a c"
  unfolding frame_def by (metis keeps_list_trans)

lemma frame_length: "frame tr tr' \<Longrightarrow> length (conns tr') = length (conns tr)"
  by (auto simp: frame_def dest: list_all2_lengthD)

lemma frame_config: "frame tr tr' \<Longrightarrow> config tr' = config tr"
  by (simp add: frame_def)

lemma frame_nth: "frame tr tr' \<Longrightarrow> i < length (conns tr) \<Longrightarrow> keeps (conns tr ! i) (conns tr' ! i)"
  by (simp add: frame_def list_all2_nthD)

lemma core_simps [simp]:
  "core (c\<lparr>ct_metrics := m\<rparr>) = core c" "core (c\<lparr>ct_series := a\<rparr>) = core c"
  "core (c\<lparr>ct_states := b\<rparr>) = core c" "core (c\<lparr>ct_seq := d\<rparr>) = core c"
  "core (c\<lparr>ct_inflight := e\<rparr>) = core c" "core (c\<lparr>ct_rtt := f\<rparr>) = core c"
  "core (c\<lparr>ct_throughput := g\<rparr>) = core c" "core (c\<lparr>ct_srtt := h\<rparr>) = core c"
  "core (c\<lparr>ct_unwrap := u\<rparr>) = core c"
  by (simp_all add: core_def ct_view_def)

lemma core_eqD:
  assumes "core c = core c'"
  shows "ct_id c = ct_id c'" "ct_state c = ct_state c'" "ct_last_at c = ct_last_at c'"
    "ct_opened_at c = ct_opened_at c'" "ct_origin c = ct_origin c'" "ct_view c = ct_view c'"
    "ct_fin_o2r c = ct_fin_o2r c'" "ct_fin_r2o c = ct_fin_r2o c'"
    "ct_base_o2r c = ct_base_o2r c'" "ct_base_r2o c = ct_base_r2o c'"
  using assms by (simp_all add: core_def ct_view_def)

lemma sum_list_update_nat:
  "i < length xs \<Longrightarrow> sum_list (xs[i := v]) + xs ! i = sum_list xs + (v :: nat)"
  by (induction xs arbitrary: i) (auto split: nat.splits)

lemma retained_update:
  assumes "i < length cs"
  shows "sum_list (map retained (cs[i := c])) + retained (cs ! i) = sum_list (map retained cs) + retained c"
  using assms sum_list_update_nat [of i "map retained cs" "retained c"] by (simp add: map_update)

lemma slack_update:
  assumes "i < length cs"
  shows "slack (cs[i := c]) + min (retained (cs ! i)) 2 = slack cs + min (retained c) 2"
  using assms sum_list_update_nat [of i "map (\<lambda>c. min (retained c) 2) cs" "min (retained c) 2"]
  by (simp add: slack_def map_update)

lemma slack_append: "slack (cs @ ds) = slack cs + slack ds"
  by (simp add: slack_def)

lemma slack_le: "slack cs \<le> 2 * length cs"
  unfolding slack_def by (induction cs) auto

lemma frame_upd_conn:
  assumes "keeps (conns tr ! i) (f (conns tr ! i))"
  shows "frame tr (upd_conn tr i f)"
proof (cases "i < length (conns tr)")
  case True
  then show ?thesis using assms
    by (auto simp: frame_def upd_conn_def list_all2_conv_all_nth nth_list_update)
qed (simp add: upd_conn_def frame_def list_all2_refl list_update_beyond)

lemma upd_conn_simps [simp]:
  "config (upd_conn tr i f) = config tr" "overflowed (upd_conn tr i f) = overflowed tr"
  "collected_samples (upd_conn tr i f) = collected_samples tr"
  "length (conns (upd_conn tr i f)) = length (conns tr)"
  "live (upd_conn tr i f) = live tr" "next_instance (upd_conn tr i f) = next_instance tr"
  "tr_now (upd_conn tr i f) = tr_now tr"
  by (simp_all add: upd_conn_def)

lemma sound_upd_conn:
  assumes "sound tr" and "retained (f (conns tr ! i)) = retained (conns tr ! i)"
  shows "sound (upd_conn tr i f)"
proof -
  have "sum_list (map retained (conns (upd_conn tr i f))) = sum_list (map retained (conns tr))"
    using assms(2) retained_update [of i "conns tr" "f (conns tr ! i)"]
    by (cases "i < length (conns tr)") (simp_all add: upd_conn_def list_update_beyond)
  moreover have "slack (conns (upd_conn tr i f)) = slack (conns tr)"
    using assms(2) slack_update [of i "conns tr" "f (conns tr ! i)"]
    by (cases "i < length (conns tr)") (simp_all add: upd_conn_def list_update_beyond)
  ultimately show ?thesis using assms(1) by (auto simp: sound_def)
qed

section \<open>Admission\<close>

lemma last_max_spec:
  assumes "last_max i ls (w, m) = (w', m')"
  shows "m \<le> m' \<and> (\<forall>l\<in>set ls. l \<le> m') \<and> (w' = w \<and> m' = m \<or> i \<le> w' \<and> w' < i + length ls \<and> ls ! (w' - i) = m')"
  using assms
proof (induction i ls "(w, m)" arbitrary: w m rule: last_max.induct)
  case (1 i)
  then show ?case by simp
next
  case (2 i l ls w m)
  show ?case
  proof (cases "l < m")
    case True
    with 2 have "m \<le> m' \<and> (\<forall>l\<in>set ls. l \<le> m') \<and> (w' = w \<and> m' = m \<or> Suc i \<le> w' \<and> w' < Suc i + length ls \<and> ls ! (w' - Suc i) = m')"
      by simp
    with True show ?thesis by (auto simp: nth_Cons' Suc_le_eq)
  next
    case False
    with 2 have "l \<le> m' \<and> (\<forall>l\<in>set ls. l \<le> m') \<and> (w' = i \<and> m' = l \<or> Suc i \<le> w' \<and> w' < Suc i + length ls \<and> ls ! (w' - Suc i) = m')"
      by simp
    with False show ?thesis by (auto simp: nth_Cons' Suc_le_eq)
  qed
qed

text \<open>A pop takes exactly one sample when one is evictable, and never the last snapshot.\<close>

lemma keeps_same_states:
  "core c' = core c \<Longrightarrow> ct_states c' = ct_states c \<Longrightarrow> keeps c c'"
  by (auto simp: keeps_def states_ok_def dest: core_eqD)

lemma keeps_tl_states:
  assumes "1 < length (ct_states c)"
  shows "keeps c (c\<lparr>ct_states := tl (ct_states c)\<rparr>)"
proof -
  from assms obtain a b r where "ct_states c = a # b # r"
    by (cases "ct_states c"; cases "tl (ct_states c)") auto
  then show ?thesis by (simp add: keeps_def states_ok_def)
qed

lemma pop_longest_front_spec:
  assumes "pop_longest_front c = (c', popped)"
  shows "keeps c c'" and "popped \<Longrightarrow> retained c = Suc (retained c')"
    and "\<not> popped \<Longrightarrow> c' = c \<and> retained c \<le> 1"
proof -
  let ?ls = "[length (ct_series c), length (ct_seq c), length (ct_inflight c), length (ct_rtt c), length (ct_throughput c)]"
  obtain w m where wm: "last_max 1 ?ls (0, length (ct_states c) - 1) = (w, m)"
    by (cases "last_max 1 ?ls (0, length (ct_states c) - 1)")
  note spec = last_max_spec [OF wm]
  note eq = assms [unfolded pop_longest_front_def Let_def list.sel wm prod.case]
  have "keeps c c' \<and> (popped \<longrightarrow> retained c = Suc (retained c')) \<and> (\<not> popped \<longrightarrow> c' = c \<and> retained c \<le> 1)"
  proof (cases "m = 0")
    case True
    then show ?thesis using eq spec by (simp add: retained_def)
  next
    case False
    have "w = 0 \<and> m = length (ct_states c) - 1 \<or> w \<in> {1, 2, 3, 4, 5} \<and> ?ls ! (w - 1) = m"
      using spec by auto
    with False have "w = 0 \<and> 1 < length (ct_states c) \<or> w = 1 \<and> ct_series c \<noteq> []
        \<or> w = 2 \<and> ct_seq c \<noteq> [] \<or> w = 3 \<and> ct_inflight c \<noteq> [] \<or> w = 4 \<and> ct_rtt c \<noteq> []
        \<or> w = 5 \<and> ct_throughput c \<noteq> []" by auto
    then show ?thesis
    proof (elim disjE conjE)
      assume "w = 0" "1 < length (ct_states c)"
      then show ?thesis using False eq keeps_tl_states [of c] by (auto simp: retained_def)
    qed (use False eq in \<open>auto simp: retained_def intro!: keeps_same_states\<close>)+
  qed
  then show "keeps c c'" "popped \<Longrightarrow> retained c = Suc (retained c')"
    "\<not> popped \<Longrightarrow> c' = c \<and> retained c \<le> 1" by simp_all
qed

lemma evict_oldest_global_spec:
  assumes "i < length (conns tr)"
  shows "frame tr (evict_oldest_global tr i)"
    and "overflowed (evict_oldest_global tr i) = overflowed tr"
    and "\<exists>c n. evict_oldest_global tr i = tr\<lparr>conns := (conns tr)[i := c], collected_samples := n\<rparr>
      \<and> (retained (conns tr ! i) = Suc (retained c) \<and> n = collected_samples tr - 1
          \<or> c = conns tr ! i \<and> retained c \<le> 1 \<and> n = collected_samples tr)"
proof -
  obtain c popped where pop: "pop_longest_front (conns tr ! i) = (c, popped)"
    by (cases "pop_longest_front (conns tr ! i)")
  note spec = pop_longest_front_spec [OF pop]
  show "frame tr (evict_oldest_global tr i)"
    using spec(1) assms
    by (auto simp: evict_oldest_global_def pop Let_def frame_def list_all2_conv_all_nth nth_list_update)
  show "overflowed (evict_oldest_global tr i) = overflowed tr"
    by (simp add: evict_oldest_global_def pop Let_def)
  show "\<exists>c n. evict_oldest_global tr i = tr\<lparr>conns := (conns tr)[i := c], collected_samples := n\<rparr>
      \<and> (retained (conns tr ! i) = Suc (retained c) \<and> n = collected_samples tr - 1
          \<or> c = conns tr ! i \<and> retained c \<le> 1 \<and> n = collected_samples tr)"
  proof (intro exI conjI)
    show "evict_oldest_global tr i = tr\<lparr>conns := (conns tr)[i := c],
        collected_samples := (if popped then collected_samples tr - 1 else collected_samples tr)\<rparr>"
      by (simp add: evict_oldest_global_def pop Let_def)
  qed (use spec in auto)
qed

text \<open>
  What every admitted sample relies on: \<open>admit\<close> keeps the frame and leaves room for exactly one
  more sample in the count, or reports the overflow and changes nothing else.
\<close>

lemma frame_bookkeeping [simp]:
  "frame a (b\<lparr>collected_samples := n\<rparr>) = frame a b"
  "frame a b \<Longrightarrow> frame a (b\<lparr>overflowed := True\<rparr>)"
  by (simp_all add: frame_def)

lemma admit_frame:
  assumes "i < length (conns tr)"
  shows "frame tr (fst (admit tr i))"
  using evict_oldest_global_spec(1) [OF assms] by (simp add: admit_def Let_def)

lemma admit_sound:
  assumes "i < length (conns tr)" and "sound tr" and "admit tr i = (tr1, ok)"
    and "retained c = Suc (retained (conns tr1 ! i))"
  shows "sound (if ok then tr1\<lparr>conns := (conns tr1)[i := c]\<rparr> else tr1)"
proof (cases "max_samples (retention (config tr)) \<le> collected_samples tr")
  case below: False
  then show ?thesis using assms retained_update [of i "conns tr" c] slack_update [of i "conns tr" c]
    by (auto simp: admit_def sound_def)
next
  case full: True
  show ?thesis
  proof (cases "retention_window (retention (config tr))")
    case None
    with full assms show ?thesis by (auto simp: admit_def sound_def)
  next
    case (Some w)
    from evict_oldest_global_spec(3) [OF assms(1)] obtain d n where
      e: "evict_oldest_global tr i = tr\<lparr>conns := (conns tr)[i := d], collected_samples := n\<rparr>"
        "retained (conns tr ! i) = Suc (retained d) \<and> n = collected_samples tr - 1
          \<or> d = conns tr ! i \<and> retained d \<le> 1 \<and> n = collected_samples tr" by blast
    have tr1: "tr1 = tr\<lparr>conns := (conns tr)[i := d], collected_samples := n + 1\<rparr>" "ok"
      using full Some assms(3) by (auto simp: admit_def Let_def e(1))
    have c: "retained c = Suc (retained d)" using assms(1,4) by (simp add: tr1)
    from e(2) show ?thesis
    proof
      assume d: "retained (conns tr ! i) = Suc (retained d) \<and> n = collected_samples tr - 1"
      have "0 < sum_list (map retained (conns tr))"
        using d retained_update [OF assms(1), of d] by simp
      with d c assms(1,2) Some retained_update [OF assms(1), of c] slack_update [OF assms(1), of c]
      show ?thesis by (auto simp: sound_def tr1)
    next
      assume "d = conns tr ! i \<and> retained d \<le> 1 \<and> n = collected_samples tr"
      with c assms(1,2) Some retained_update [OF assms(1), of c] slack_update [OF assms(1), of c]
      show ?thesis by (auto simp: sound_def tr1)
    qed
  qed
qed

section \<open>The contract of the recording functions\<close>

text \<open>
  The six \<^verbatim>\<open>record_*\<close> functions share one contract: under a condition on the connection and
  the sample they keep the frame and the accounting. A loop over samples keeps them too.
\<close>

locale recorder =
  fixes record_one :: "tracker \<Rightarrow> nat \<Rightarrow> 'a \<Rightarrow> tracker"
    and admissible :: "conn_track \<Rightarrow> 'a \<Rightarrow> bool"
  assumes record_frame:
      "i < length (conns tr) \<Longrightarrow> admissible (conns tr ! i) x \<Longrightarrow> frame tr (record_one tr i x)"
    and record_sound: "i < length (conns tr) \<Longrightarrow> sound tr \<Longrightarrow> sound (record_one tr i x)"
    and admissible_keeps: "keeps c c' \<Longrightarrow> admissible c x \<Longrightarrow> admissible c' x"
begin

lemma fold_frame:
  assumes "i < length (conns tr)" and "\<forall>x\<in>set xs. admissible (conns tr ! i) x"
  shows "frame tr (fold (\<lambda>x tr. record_one tr i x) xs tr)"
  using assms
proof (induction xs arbitrary: tr)
  case Nil
  then show ?case by simp
next
  case (Cons x xs)
  let ?t = "record_one tr i x"
  have fr: "frame tr ?t" using Cons.prems by (intro record_frame) simp_all
  have "frame ?t (fold (\<lambda>x tr. record_one tr i x) xs ?t)"
    using Cons.prems frame_length [OF fr] frame_nth [OF fr Cons.prems(1)]
    by (intro Cons.IH) (auto intro: admissible_keeps)
  with fr show ?case by (simp add: frame_trans)
qed

lemma fold_sound:
  assumes "i < length (conns tr)" and "\<forall>x\<in>set xs. admissible (conns tr ! i) x" and "sound tr"
  shows "sound (fold (\<lambda>x tr. record_one tr i x) xs tr)"
  using assms
proof (induction xs arbitrary: tr)
  case Nil
  then show ?case by simp
next
  case (Cons x xs)
  let ?t = "record_one tr i x"
  have fr: "frame tr ?t" using Cons.prems by (intro record_frame) simp_all
  have "sound (fold (\<lambda>x tr. record_one tr i x) xs ?t)"
    using Cons.prems frame_length [OF fr] frame_nth [OF fr Cons.prems(1)]
    by (intro Cons.IH) (auto intro: admissible_keeps record_sound)
  then show ?case by simp
qed

text \<open>A loop that computes each sample from the state it has reached, and may skip it.\<close>

lemma fold_computed:
  assumes "i < length (conns tr)" and "\<And>tr d x. g tr d = Some x \<Longrightarrow> admissible (conns tr ! i) x"
  shows "frame tr (fold (\<lambda>d tr. case g tr d of None \<Rightarrow> tr | Some x \<Rightarrow> record_one tr i x) ds tr)"
    and "sound tr \<Longrightarrow> sound (fold (\<lambda>d tr. case g tr d of None \<Rightarrow> tr | Some x \<Rightarrow> record_one tr i x) ds tr)"
proof -
  have "frame tr (fold (\<lambda>d tr. case g tr d of None \<Rightarrow> tr | Some x \<Rightarrow> record_one tr i x) ds tr)
      \<and> (sound tr \<longrightarrow> sound (fold (\<lambda>d tr. case g tr d of None \<Rightarrow> tr | Some x \<Rightarrow> record_one tr i x) ds tr))"
    using assms(1)
  proof (induction ds arbitrary: tr)
    case Nil
    then show ?case by simp
  next
    case (Cons d ds)
    let ?t = "case g tr d of None \<Rightarrow> tr | Some x \<Rightarrow> record_one tr i x"
    have fr: "frame tr ?t"
      using Cons.prems assms(2) [of tr d] by (auto split: option.splits intro!: record_frame)
    have "sound tr \<longrightarrow> sound ?t"
      using Cons.prems by (auto split: option.splits intro!: record_sound)
    with Cons.IH [of ?t] Cons.prems frame_length [OF fr] fr show ?case
      by (simp add: frame_trans [OF fr])
  qed
  then show "frame tr (fold (\<lambda>d tr. case g tr d of None \<Rightarrow> tr | Some x \<Rightarrow> record_one tr i x) ds tr)"
    and "sound tr \<Longrightarrow> sound (fold (\<lambda>d tr. case g tr d of None \<Rightarrow> tr | Some x \<Rightarrow> record_one tr i x) ds tr)"
    by simp_all
qed

end

text \<open>The common body of the six functions: admit, then push onto the connection.\<close>

definition store :: "tracker \<Rightarrow> nat \<Rightarrow> (conn_track \<Rightarrow> conn_track) \<Rightarrow> tracker" where
  "store tr i f = (let (tr1, ok) = admit tr i in if ok then upd_conn tr1 i f else tr1)"

lemma record_store:
  "record_sample tr i a =
     (if \<not> should_collect tr (ct_id (conns tr ! i)) then tr
      else store tr i (\<lambda>c. c\<lparr>ct_series := ct_series c @ [a]\<rparr>))"
  "record_state tr i b =
     (if overflowed tr then tr else store tr i (\<lambda>c. c\<lparr>ct_states := ct_states c @ [b]\<rparr>))"
  "record_seq tr i d =
     (if overflowed tr then tr else store tr i (\<lambda>c. c\<lparr>ct_seq := ct_seq c @ [d]\<rparr>))"
  "record_inflight tr i e =
     (if overflowed tr then tr else store tr i (\<lambda>c. c\<lparr>ct_inflight := ct_inflight c @ [e]\<rparr>))"
  "record_rtt tr i g =
     (if overflowed tr then tr else store tr i (\<lambda>c. c\<lparr>ct_rtt := ct_rtt c @ [g]\<rparr>))"
  "record_throughput tr i h =
     (if overflowed tr then tr else store tr i (\<lambda>c. c\<lparr>ct_throughput := ct_throughput c @ [h]\<rparr>))"
  by (simp_all add: store_def record_sample_def record_state_def record_seq_def record_inflight_def
      record_rtt_def record_throughput_def)

lemma store_frame:
  assumes "i < length (conns tr)" and "\<And>c. keeps (conns tr ! i) c \<Longrightarrow> keeps c (f c)"
  shows "frame tr (store tr i f)"
proof -
  obtain tr1 ok where adm: "admit tr i = (tr1, ok)" by (cases "admit tr i")
  with admit_frame [OF assms(1)] have fr: "frame tr tr1" by simp
  then have "frame tr1 (upd_conn tr1 i f)"
    using assms by (intro frame_upd_conn) (simp add: frame_nth)
  with fr frame_trans [OF fr] show ?thesis by (simp add: adm store_def)
qed

lemma store_sound:
  assumes "i < length (conns tr)" and "sound tr" and "\<And>c. retained (f c) = Suc (retained c)"
  shows "sound (store tr i f)"
proof -
  obtain tr1 ok where adm: "admit tr i = (tr1, ok)" by (cases "admit tr i")
  from admit_sound [OF assms(1,2) adm assms(3)] show ?thesis
    by (cases ok) (simp_all add: adm store_def upd_conn_def)
qed

lemma store_frame_silent:
  assumes "i < length (conns tr)" and "\<And>c. core (f c) = core c" and "\<And>c. ct_states (f c) = ct_states c"
  shows "frame tr (store tr i f)"
  using assms by (intro store_frame) (simp_all add: keeps_same_states)

interpretation sample_rec: recorder record_sample "\<lambda>_ _. True"
proof unfold_locales
  show "frame tr (record_sample tr i x)" if "i < length (conns tr)" for i tr x
    using that by (simp add: record_store store_frame_silent)
  show "sound (record_sample tr i x)" if "i < length (conns tr)" "sound tr" for i tr x
    using that by (simp add: record_store store_sound retained_def)
qed simp

interpretation seq_rec: recorder record_seq "\<lambda>_ _. True"
proof unfold_locales
  show "frame tr (record_seq tr i x)" if "i < length (conns tr)" for i tr x
    using that by (simp add: record_store store_frame_silent)
  show "sound (record_seq tr i x)" if "i < length (conns tr)" "sound tr" for i tr x
    using that by (simp add: record_store store_sound retained_def)
qed simp

interpretation inflight_rec: recorder record_inflight "\<lambda>_ _. True"
proof unfold_locales
  show "frame tr (record_inflight tr i x)" if "i < length (conns tr)" for i tr x
    using that by (simp add: record_store store_frame_silent)
  show "sound (record_inflight tr i x)" if "i < length (conns tr)" "sound tr" for i tr x
    using that by (simp add: record_store store_sound retained_def)
qed simp

interpretation rtt_rec: recorder record_rtt "\<lambda>_ _. True"
proof unfold_locales
  show "frame tr (record_rtt tr i x)" if "i < length (conns tr)" for i tr x
    using that by (simp add: record_store store_frame_silent)
  show "sound (record_rtt tr i x)" if "i < length (conns tr)" "sound tr" for i tr x
    using that by (simp add: record_store store_sound retained_def)
qed simp

interpretation throughput_rec: recorder record_throughput "\<lambda>_ _. True"
proof unfold_locales
  show "frame tr (record_throughput tr i x)" if "i < length (conns tr)" for i tr x
    using that by (simp add: record_store store_frame_silent)
  show "sound (record_throughput tr i x)" if "i < length (conns tr)" "sound tr" for i tr x
    using that by (simp add: record_store store_sound retained_def)
qed simp

text \<open>A snapshot is admissible when it is not after the connection's last activity.\<close>

lemma keeps_push_state:
  assumes "st_t x \<le> ct_last_at c" and "keeps c c'"
  shows "keeps c' (c'\<lparr>ct_states := ct_states c' @ [x]\<rparr>)"
proof -
  have "ct_last_at c' = ct_last_at c" using assms(2) by (auto simp: keeps_def dest: core_eqD(3))
  with assms(1) show ?thesis by (auto simp: keeps_def states_ok_def)
qed

interpretation state_rec: recorder record_state "\<lambda>c x. st_t x \<le> ct_last_at c"
proof unfold_locales
  show "frame tr (record_state tr i x)"
    if "i < length (conns tr)" "st_t x \<le> ct_last_at (conns tr ! i)" for i tr x
    using that by (auto simp: record_store intro!: store_frame keeps_push_state)
  show "sound (record_state tr i x)" if "i < length (conns tr)" "sound tr" for i tr x
    using that by (simp add: record_store store_sound retained_def)
  show "st_t x \<le> ct_last_at c'" if "keeps c c'" "st_t x \<le> ct_last_at c" for c c' x
    using that by (auto simp: keeps_def dest: core_eqD(3))
qed

section \<open>Collecting a segment's samples\<close>

lemma keeps_push_seq_points:
  "push_seq_points c seg dir sample = (c', ps) \<Longrightarrow> keeps c c' \<and> retained c' = retained c"
  by (auto simp: push_seq_points_def Let_def retained_def intro!: keeps_same_states
      split: prod.splits if_splits)

lemma collect_seq_points_ok:
  assumes "i < length (conns tr)"
  shows "frame tr (collect_seq_points tr i seg dir sample)"
    and "sound tr \<Longrightarrow> sound (collect_seq_points tr i seg dir sample)"
proof -
  obtain c ps where p: "push_seq_points (conns tr ! i) seg dir sample = (c, ps)"
    by (cases "push_seq_points (conns tr ! i) seg dir sample")
  let ?t = "upd_conn tr i (\<lambda>_. c)"
  have fr: "frame tr ?t" using keeps_push_seq_points [OF p] by (intro frame_upd_conn) simp
  have len: "i < length (conns ?t)" using assms by simp
  show "frame tr (collect_seq_points tr i seg dir sample)"
    using frame_trans [OF fr seq_rec.fold_frame [OF len, of ps]]
    by (simp add: collect_seq_points_def p)
  show "sound (collect_seq_points tr i seg dir sample)" if "sound tr"
    using that sound_upd_conn [OF that, of "\<lambda>_. c" i] keeps_push_seq_points [OF p]
      seq_rec.fold_sound [OF len, of ps]
    by (simp add: collect_seq_points_def p)
qed

lemma collect_inflight_at_ok:
  assumes "i < length (conns tr)"
  shows "frame tr (collect_inflight_at tr i t)"
    and "sound tr \<Longrightarrow> sound (collect_inflight_at tr i t)"
proof -
  define g where "g = (\<lambda>(tr :: tracker) d. map_option (\<lambda>b. \<lparr>if_t = t, if_dir = dir_sample d, if_bytes = b\<rparr>)
      (in_flight (ct_metrics (conns tr ! i)) d))"
  have body: "(\<lambda>d tr. case in_flight (ct_metrics (conns tr ! i)) d of
        None \<Rightarrow> tr | Some bytes \<Rightarrow> record_inflight tr i \<lparr>if_t = t, if_dir = dir_sample d, if_bytes = bytes\<rparr>)
      = (\<lambda>d tr. case g tr d of None \<Rightarrow> tr | Some x \<Rightarrow> record_inflight tr i x)"
    by (auto simp: g_def fun_eq_iff split: option.splits)
  show "frame tr (collect_inflight_at tr i t)"
    using inflight_rec.fold_computed(1) [OF assms, of g "[O2R, R2O]"]
    unfolding collect_inflight_at_def body by simp
  show "sound (collect_inflight_at tr i t)" if "sound tr"
    using inflight_rec.fold_computed(2) [OF assms, of g "[O2R, R2O]"] that
    unfolding collect_inflight_at_def body by simp
qed

lemma collect_throughput_at_ok:
  assumes "i < length (conns tr)"
  shows "frame tr (collect_throughput_at tr i t)"
    and "sound tr \<Longrightarrow> sound (collect_throughput_at tr i t)"
proof -
  define g where "g = (\<lambda>(tr :: tracker) d. map_option (\<lambda>(a, b). \<lparr>tp_t = t, tp_dir = dir_sample d,
      tp_throughput_bps = a, tp_goodput_bps = b\<rparr>) (throughput_at (ct_metrics (conns tr ! i)) d t (config tr)))"
  have body: "(\<lambda>d tr. case throughput_at (ct_metrics (conns tr ! i)) d t (config tr) of
        None \<Rightarrow> tr
      | Some (throughput_bps, goodput_bps) \<Rightarrow> record_throughput tr i
          \<lparr>tp_t = t, tp_dir = dir_sample d, tp_throughput_bps = throughput_bps, tp_goodput_bps = goodput_bps\<rparr>)
      = (\<lambda>d tr. case g tr d of None \<Rightarrow> tr | Some x \<Rightarrow> record_throughput tr i x)"
    by (auto simp: g_def fun_eq_iff split: option.splits)
  show "frame tr (collect_throughput_at tr i t)"
    using throughput_rec.fold_computed(1) [OF assms, of g "[O2R, R2O]"]
    unfolding collect_throughput_at_def body by simp
  show "sound (collect_throughput_at tr i t)" if "sound tr"
    using throughput_rec.fold_computed(2) [OF assms, of g "[O2R, R2O]"] that
    unfolding collect_throughput_at_def body by simp
qed

lemma collect_rtt_points_ok:
  assumes "i < length (conns tr)"
  shows "frame tr (collect_rtt_points tr i sample)"
    and "sound tr \<Longrightarrow> sound (collect_rtt_points tr i sample)"
proof -
  have step: "frame tr (record_rtt (upd_conn tr i f) i x) \<and> (sound tr \<longrightarrow> sound (record_rtt (upd_conn tr i f) i x))"
    if "\<And>c. core (f c) = core c" "\<And>c. ct_states (f c) = ct_states c" "\<And>c. retained (f c) = retained c" for f x
  proof -
    let ?t = "upd_conn tr i f"
    have fr: "frame tr ?t" using that by (intro frame_upd_conn keeps_same_states)
    have "i < length (conns ?t)" using assms by simp
    then show ?thesis
      using frame_trans [OF fr rtt_rec.record_frame] rtt_rec.record_sound sound_upd_conn that(3) by auto
  qed
  show "frame tr (collect_rtt_points tr i sample)"
    using step by (simp add: collect_rtt_points_def Let_def retained_def split: option.splits)
  show "sound (collect_rtt_points tr i sample)" if "sound tr"
    using step that by (simp add: collect_rtt_points_def Let_def retained_def split: option.splits)
qed

lemma record_derived_ok:
  assumes "i < length (conns tr)"
  shows "frame tr (record_derived tr i seg dir want sample)"
    and "sound tr \<Longrightarrow> sound (record_derived tr i seg dir want sample)"
proof -
  define t1 where "t1 = (if want then record_sample tr i sample else tr)"
  define t2 where "t2 = collect_seq_points t1 i seg dir sample"
  define t3 where "t3 = collect_inflight_at t2 i (seg_ts seg)"
  define t4 where "t4 = collect_rtt_points t3 i sample"
  note defs = t1_def t2_def t3_def t4_def
  have eq: "record_derived tr i seg dir want sample = collect_throughput_at t4 i (seg_ts seg)"
    by (simp add: record_derived_def collect_inflight_points_def collect_throughput_points_def defs Let_def)
  have f1: "frame tr t1" using sample_rec.record_frame assms by (simp add: t1_def)
  have f2: "frame tr t2" unfolding t2_def
    using frame_trans [OF f1 collect_seq_points_ok(1)] frame_length [OF f1] assms by simp
  have f3: "frame tr t3" unfolding t3_def
    using frame_trans [OF f2 collect_inflight_at_ok(1)] frame_length [OF f2] assms by simp
  have f4: "frame tr t4" unfolding t4_def
    using frame_trans [OF f3 collect_rtt_points_ok(1)] frame_length [OF f3] assms by simp
  note lens = frame_length [OF f1] frame_length [OF f2] frame_length [OF f3] frame_length [OF f4]
  show "frame tr (record_derived tr i seg dir want sample)" unfolding eq
    using frame_trans [OF f4 collect_throughput_at_ok(1)] lens assms by simp
  assume "sound tr"
  then have "sound t1" using sample_rec.record_sound assms by (simp add: t1_def)
  then have "sound t4" unfolding t2_def t3_def t4_def
    using lens assms
    by (intro collect_rtt_points_ok(2) collect_inflight_at_ok(2) collect_seq_points_ok(2))
      (simp_all add: t2_def [symmetric] t3_def [symmetric])
  then show "sound (record_derived tr i seg dir want sample)" unfolding eq
    using lens assms by (intro collect_throughput_at_ok(2)) simp_all
qed

section \<open>Ageing out\<close>

text \<open>
  Ageing removes the leading samples older than the horizon, as many as leave \<open>keep_min\<close>, and
  counts each one.
\<close>

lemma evict_front_spec:
  assumes "evict_front key h k xs n = (ys, n')"
  shows "\<exists>gone. xs = gone @ ys \<and> n' = n - length gone \<and> (\<forall>x\<in>set gone. key x < h)
    \<and> (min k (length xs) \<le> length ys) \<and> (k < length ys \<longrightarrow> h \<le> key (hd ys))"
  using assms
proof (induction key h k xs n rule: evict_front.induct)
  case (1 key h k n)
  then show ?case by simp
next
  case (2 key h k x xs n)
  show ?case
  proof (cases "k < length (x # xs) \<and> key x < h")
    case True
    with 2 obtain gone where g: "xs = gone @ ys" "n' = n - 1 - length gone" "\<forall>x\<in>set gone. key x < h"
        "min k (length xs) \<le> length ys" "k < length ys \<longrightarrow> h \<le> key (hd ys)" by auto
    then have "x # xs = (x # gone) @ ys \<and> n' = n - length (x # gone) \<and> (\<forall>y\<in>set (x # gone). key y < h)
        \<and> min k (length (x # xs)) \<le> length ys \<and> (k < length ys \<longrightarrow> h \<le> key (hd ys))"
      using True by auto
    then show ?thesis by blast
  next
    case False
    then have "evict_front key h k (x # xs) n = (x # xs, n)" by auto
    with 2(2) have "ys = x # xs" "n' = n" by auto
    with False show ?thesis by (intro exI [of _ "[]"]) auto
  qed
qed

lemma evict_front_count:
  "evict_front key h k xs n = (ys, n') \<Longrightarrow> n' = n - (length xs - length ys) \<and> length ys \<le> length xs"
  using evict_front_spec by fastforce

lemma evict_front_states:
  assumes "evict_front st_t h 1 (ct_states c) n = (ys, n')"
  shows "set ys \<subseteq> set (ct_states c)" and "ct_states c \<noteq> [] \<Longrightarrow> ys \<noteq> []"
  using evict_front_spec [OF assms] by (auto simp: min_def Suc_le_eq split: if_splits)

lemma evict_conn_ok:
  assumes "evict_conn h c n = (c', n')"
  shows "keeps c c' \<and> retained c' \<le> retained c \<and> n' = n - (retained c - retained c')"
proof -
  obtain states n1 series n2 sq n3 inflight n4 rtt n5 throughput n6 where
    e: "evict_front st_t h 1 (ct_states c) n = (states, n1)"
      "evict_front ms_t h 0 (ct_series c) n1 = (series, n2)"
      "evict_front sq_t h 0 (ct_seq c) n2 = (sq, n3)"
      "evict_front if_t h 0 (ct_inflight c) n3 = (inflight, n4)"
      "evict_front rt_t h 0 (ct_rtt c) n4 = (rtt, n5)"
      "evict_front tp_t h 0 (ct_throughput c) n5 = (throughput, n6)"
    by (meson surj_pair)
  then have c': "c' = c\<lparr>ct_states := states, ct_series := series, ct_seq := sq, ct_inflight := inflight,
      ct_rtt := rtt, ct_throughput := throughput\<rparr>" and n': "n' = n6"
    using assms by (simp_all add: evict_conn_def)
  note counts = e [THEN evict_front_count]
  have "keeps c c'"
    using evict_front_states [OF e(1)] by (auto simp: c' keeps_def states_ok_def)
  moreover have "retained c' \<le> retained c \<and> n' = n - (retained c - retained c')"
    using counts by (simp add: c' n' retained_def)
  ultimately show ?thesis by blast
qed

lemma evict_conns_ok:
  assumes "evict_conns h cs n = (cs', n')"
  shows "list_all2 keeps cs cs' \<and> sum_list (map retained cs') \<le> sum_list (map retained cs)
    \<and> sum_list (map retained cs') + slack cs \<le> sum_list (map retained cs) + slack cs'
    \<and> n' = n - (sum_list (map retained cs) - sum_list (map retained cs'))"
  using assms
proof (induction h cs n arbitrary: cs' n' rule: evict_conns.induct)
  case (1 h n)
  then show ?case by (simp add: slack_def)
next
  case (2 h c cs n)
  obtain c1 n1 where c1: "evict_conn h c n = (c1, n1)" by (cases "evict_conn h c n")
  obtain cs1 n2 where cs1: "evict_conns h cs n1 = (cs1, n2)" by (cases "evict_conns h cs n1")
  from 2(2) have "cs' = c1 # cs1" "n' = n2" by (simp_all add: c1 cs1)
  with 2(1) [OF c1 [symmetric] refl cs1] evict_conn_ok [OF c1] show ?case by (auto simp: slack_def)
qed

lemma evict_samples_ok:
  shows "frame tr (evict_samples tr)" and "sound tr \<Longrightarrow> sound (evict_samples tr)"
proof -
  have "frame tr (evict_samples tr) \<and> (sound tr \<longrightarrow> sound (evict_samples tr))"
  proof (cases "retention_window (retention (config tr))")
    case None
    then show ?thesis by (simp add: evict_samples_def)
  next
    case (Some w)
    let ?h = "sat_sub (tr_now tr) w"
    obtain cs n where e: "evict_conns ?h (conns tr) (collected_samples tr) = (cs, n)"
      by (cases "evict_conns ?h (conns tr) (collected_samples tr)")
    have eq: "evict_samples tr = tr\<lparr>conns := cs, collected_samples := n\<rparr>"
      using Some e by (simp add: evict_samples_def Let_def)
    from evict_conns_ok [OF e] Some show ?thesis by (auto simp: eq frame_def sound_def)
  qed
  then show "frame tr (evict_samples tr)" "sound tr \<Longrightarrow> sound (evict_samples tr)" by simp_all
qed

lemma evict_samples_simps [simp]:
  "overflowed (evict_samples tr) = overflowed tr"
  by (simp add: evict_samples_def Let_def split: option.splits prod.splits)

section \<open>The last snapshot survives\<close>

text \<open>
  Everything but recording a snapshot only drops snapshots from the front, and never the last one;
  this needs no condition on the index.
\<close>

definition trims :: "conn_track \<Rightarrow> conn_track \<Rightarrow> bool" where
  "trims c c' \<longleftrightarrow> (\<exists>gone. ct_states c = gone @ ct_states c') \<and> (ct_states c \<noteq> [] \<longrightarrow> ct_states c' \<noteq> [])"

definition calm :: "tracker \<Rightarrow> tracker \<Rightarrow> bool" where
  "calm tr tr' \<longleftrightarrow> list_all2 trims (conns tr) (conns tr')"

lemma trims_same [simp]: "ct_states c' = ct_states c \<Longrightarrow> trims c c'"
  by (simp add: trims_def)

lemma trims_trans: "trims a b \<Longrightarrow> trims b c \<Longrightarrow> trims a c"
  by (auto simp: trims_def)

lemma calm_refl [simp, intro]: "calm tr tr"
  by (simp add: calm_def list_all2_refl)

lemma calm_trans: "calm a b \<Longrightarrow> calm b c \<Longrightarrow> calm a c"
  unfolding calm_def by (rule list_all2_trans [OF trims_trans])

lemma calm_update: "trims (conns tr ! i) c \<Longrightarrow> conns tr' = (conns tr)[i := c] \<Longrightarrow> calm tr tr'"
  by (cases "i < length (conns tr)")
    (auto simp: calm_def list_all2_conv_all_nth nth_list_update list_update_beyond)

lemma calm_upd_conn: "(\<And>c. ct_states (f c) = ct_states c) \<Longrightarrow> calm tr (upd_conn tr i f)"
  by (rule calm_update [of _ i]) (simp_all add: upd_conn_def)

lemma calm_unless: "calm tr tr' \<Longrightarrow> calm tr (if b then tr else tr')"
  by simp

lemma calm_fold: "(\<And>x tr. calm tr (f x tr)) \<Longrightarrow> calm tr (fold f xs tr)"
  by (induction xs arbitrary: tr) (auto intro: calm_trans)

lemma trims_pop: "trims c (fst (pop_longest_front c))"
proof -
  let ?ls = "[length (ct_series c), length (ct_seq c), length (ct_inflight c), length (ct_rtt c), length (ct_throughput c)]"
  obtain w m where wm: "last_max 1 ?ls (0, length (ct_states c) - 1) = (w, m)"
    by (cases "last_max 1 ?ls (0, length (ct_states c) - 1)")
  have "1 < length (ct_states c)" if "w = 0" "m \<noteq> 0" using last_max_spec [OF wm] that by auto
  then have "trims c (c\<lparr>ct_states := tl (ct_states c)\<rparr>)" if "w = 0" "m \<noteq> 0"
    using that by (cases "ct_states c") (auto simp: trims_def)
  then show ?thesis unfolding pop_longest_front_def Let_def list.sel wm prod.case by auto
qed

lemma calm_admit: "calm tr (fst (admit tr i))"
proof -
  have "calm tr (evict_oldest_global tr i)"
    by (rule calm_update [OF trims_pop, where i = i]) (simp add: evict_oldest_global_def Let_def split: prod.split)
  then show ?thesis by (auto simp: admit_def Let_def calm_def list_all2_refl)
qed

lemma calm_store:
  assumes "\<And>c. ct_states (f c) = ct_states c"
  shows "calm tr (store tr i f)"
  using calm_trans [OF calm_admit calm_upd_conn [OF assms]] calm_admit [of tr i]
  by (simp add: store_def case_prod_beta)

lemma calm_record:
  "calm tr (record_sample tr i a)" "calm tr (record_seq tr i d)" "calm tr (record_inflight tr i e)"
  "calm tr (record_rtt tr i g)" "calm tr (record_throughput tr i h)"
  by (simp_all add: record_store calm_store)

lemma calm_collect:
  "calm tr (collect_seq_points tr i seg dir sample)" "calm tr (collect_inflight_at tr i t)"
  "calm tr (collect_throughput_at tr i t)" "calm tr (collect_rtt_points tr i sample)"
proof -
  have "ct_states (fst (push_seq_points c seg dir sample)) = ct_states c" for c
    by (simp add: push_seq_points_def Let_def split: prod.split)
  then have "calm tr (upd_conn tr i (\<lambda>_. fst (push_seq_points (conns tr ! i) seg dir sample)))"
    by (intro calm_update [of _ i]) (simp_all add: upd_conn_def)
  from calm_trans [OF this calm_fold [of "\<lambda>p tr. record_seq tr i p", OF calm_record(2)]] show "calm tr (collect_seq_points tr i seg dir sample)"
    by (simp add: collect_seq_points_def case_prod_beta)
  show "calm tr (collect_inflight_at tr i t)" "calm tr (collect_throughput_at tr i t)"
    unfolding collect_inflight_at_def collect_throughput_at_def
    by (rule calm_unless, rule calm_fold, simp add: calm_record split: option.split)+
  have "calm tr (record_rtt (upd_conn tr i (\<lambda>c. c\<lparr>ct_srtt := x c\<rparr>)) i g)" for x g
    by (rule calm_trans [OF calm_upd_conn calm_record(4)]) simp
  then show "calm tr (collect_rtt_points tr i sample)"
    by (simp add: collect_rtt_points_def Let_def split: option.split)
qed

lemma calm_derived: "calm tr (record_derived tr i seg dir want sample)"
  unfolding record_derived_def Let_def collect_inflight_points_def collect_throughput_points_def
  by (rule calm_trans [OF _ calm_collect(3)] calm_trans [OF _ calm_collect(4)] calm_trans [OF _ calm_collect(2)]
      calm_trans [OF _ calm_collect(1)])+ (simp add: calm_record)

lemma calm_evict_samples: "calm tr (evict_samples tr)"
proof -
  have one: "trims c (fst (evict_conn h c n))" for h c n
  proof -
    obtain ys n' where e: "evict_front st_t h 1 (ct_states c) n = (ys, n')" by (cases "evict_front st_t h 1 (ct_states c) n")
    have "ct_states (fst (evict_conn h c n)) = ys" by (simp add: evict_conn_def e [simplified] split: prod.split)
    then show ?thesis using evict_front_spec [OF e] evict_front_states(2) [OF e] by (auto simp: trims_def)
  qed
  have "list_all2 trims cs (fst (evict_conns h cs n))" for h cs n
    by (induction cs arbitrary: n) (auto simp: case_prod_beta Let_def one)
  then show ?thesis by (auto simp: calm_def evict_samples_def Let_def case_prod_beta list_all2_refl split: option.split)
qed

lemma calm_emit_decay: "calm tr (emit_decay_samples tr t)"
  unfolding emit_decay_samples_def
  by (auto intro!: calm_fold intro: calm_trans [OF calm_collect(3) calm_collect(2)])

end
