(* ===== verification/Tracker_Lifecycle.thy ===== *)
theory Tracker_Lifecycle
  imports Tracker_Store
begin

text \<open>
  The tracker as a machine: its invariant, that every item keeps it and no item panics, and what
  follows for identities, lifecycle and accounting. The invariant carries the number of items
  folded in, because the instance counters of the code are 32 bits wide.
\<close>


section \<open>The invariant\<close>

text \<open>
  Identity: the live index points into the connection vector and at the right pair, every
  instance number is below its pair's counter, the counters are bounded by the number of items
  folded in, identifiers are distinct, and a connection's times are ordered.
\<close>

definition wf_index :: "nat \<Rightarrow> tracker \<Rightarrow> bool" where
  "wf_index k tr \<longleftrightarrow>
     (\<forall>p i. live tr p = Some i \<longrightarrow> i < length (conns tr) \<and> id_pair (ct_id (conns tr ! i)) = p)
     \<and> (\<forall>c\<in>set (conns tr). \<exists>n. next_instance tr (id_pair (ct_id c)) = Some n \<and> id_instance (ct_id c) < n)
     \<and> (\<forall>p n. next_instance tr p = Some n \<longrightarrow> unat n \<le> k)
     \<and> distinct (map ct_id (conns tr))
     \<and> (\<forall>c\<in>set (conns tr). ct_opened_at c \<le> ct_last_at c \<and> ct_last_at c \<le> tr_now tr)"

text \<open>
  State history: snapshots lie within the connection's lifetime, and every connection outside
  \<open>J\<close> has one while the state timeline is collected.
\<close>

definition wf_states :: "nat set \<Rightarrow> tracker \<Rightarrow> bool" where
  "wf_states J tr \<longleftrightarrow>
     (\<forall>c\<in>set (conns tr). states_ok c)
     \<and> (collect_state_timeline (config tr) \<and> \<not> overflowed tr \<longrightarrow>
          (\<forall>j<length (conns tr). j \<notin> J \<longrightarrow> ct_states (conns tr ! j) \<noteq> []))"

definition wf :: "nat \<Rightarrow> tracker \<Rightarrow> bool" where
  "wf k tr \<longleftrightarrow> wf_index k tr \<and> wf_states {} tr \<and> sound tr"

lemma keepsD:
  assumes "keeps c c'"
  shows "ct_id c' = ct_id c" "ct_opened_at c' = ct_opened_at c" "ct_last_at c' = ct_last_at c"
    "ct_state c' = ct_state c" "ct_view c' = ct_view c"
  using assms core_eqD [of c' c] by (simp_all add: keeps_def)

lemma frame_map:
  assumes "frame tr tr'" and "\<And>c c'. keeps c c' \<Longrightarrow> f c' = f c"
  shows "map f (conns tr') = map f (conns tr)"
proof -
  have "list_all2 keeps (conns tr) (conns tr')" using assms(1) by (simp add: frame_def)
  then show ?thesis by (induction rule: list_all2_induct) (simp_all add: assms(2))
qed

lemma wf_index_frame:
  assumes "wf_index k tr" and fr: "frame tr tr'"
  shows "wf_index k tr'"
proof -
  have ids: "map ct_id (conns tr') = map ct_id (conns tr)" by (rule frame_map [OF fr]) (rule keepsD(1))
  have times: "map (\<lambda>c. (ct_opened_at c, ct_last_at c)) (conns tr') = map (\<lambda>c. (ct_opened_at c, ct_last_at c)) (conns tr)"
    by (rule frame_map [OF fr]) (simp add: keepsD)
  have same: "live tr' = live tr" "next_instance tr' = next_instance tr" "tr_now tr' = tr_now tr"
    using fr by (simp_all add: frame_def)
  have len: "length (conns tr') = length (conns tr)" using fr by (rule frame_length)
  have nth: "ct_id (conns tr' ! i) = ct_id (conns tr ! i)" if "i < length (conns tr)" for i
    using keepsD(1) [OF frame_nth [OF fr that]] .
  have set_ids: "ct_id ` set (conns tr') = ct_id ` set (conns tr)"
    using arg_cong [OF ids, of set] by simp
  have set_times: "(\<lambda>c. (ct_opened_at c, ct_last_at c)) ` set (conns tr') = (\<lambda>c. (ct_opened_at c, ct_last_at c)) ` set (conns tr)"
    using arg_cong [OF times, of set] by simp
  have 1: "\<forall>c\<in>set (conns tr'). \<exists>n. next_instance tr (id_pair (ct_id c)) = Some n \<and> id_instance (ct_id c) < n"
  proof
    fix c assume "c \<in> set (conns tr')"
    with set_ids obtain d where "d \<in> set (conns tr)" "ct_id c = ct_id d" by (metis imageE image_eqI)
    with assms(1) show "\<exists>n. next_instance tr (id_pair (ct_id c)) = Some n \<and> id_instance (ct_id c) < n"
      by (simp add: wf_index_def)
  qed
  have 2: "\<forall>c\<in>set (conns tr'). ct_opened_at c \<le> ct_last_at c \<and> ct_last_at c \<le> tr_now tr"
  proof
    fix c assume "c \<in> set (conns tr')"
    with set_times obtain d where "d \<in> set (conns tr)" "ct_opened_at c = ct_opened_at d" "ct_last_at c = ct_last_at d"
      by (metis (mono_tags, lifting) imageE image_eqI prod.inject)
    with assms(1) show "ct_opened_at c \<le> ct_last_at c \<and> ct_last_at c \<le> tr_now tr"
      by (simp add: wf_index_def)
  qed
  have 3: "i < length (conns tr') \<and> id_pair (ct_id (conns tr' ! i)) = p" if "live tr p = Some i" for p i
    using assms(1) that nth len by (simp add: wf_index_def)
  from 1 2 3 assms(1) show ?thesis
    unfolding wf_index_def same ids by blast
qed

lemma wf_states_frame:
  assumes "wf_states J tr" and fr: "frame tr tr'"
  shows "wf_states J tr'"
proof -
  have la: "list_all2 keeps (conns tr) (conns tr')" using fr by (simp add: frame_def)
  have "\<forall>c\<in>set (conns tr'). states_ok c"
    using la assms(1) unfolding wf_states_def keeps_def
    by (metis (no_types, lifting) in_set_conv_nth list_all2_conv_all_nth)
  moreover have "ct_states (conns tr' ! j) \<noteq> []"
    if "ct_states (conns tr ! j) \<noteq> []" "j < length (conns tr)" for j
    using frame_nth [OF fr that(2)] that(1) by (simp add: keeps_def)
  ultimately show ?thesis using assms frame_length [OF fr]
    by (auto simp: wf_states_def frame_def)
qed

lemma record_state_nonempty:
  assumes "i < length (conns tr)" and "\<not> overflowed (record_state tr i s)"
  shows "ct_states (conns (record_state tr i s) ! i) \<noteq> []"
proof -
  from assms(2) have "\<not> overflowed tr" by (auto simp: record_store split: if_splits)
  obtain tr1 ok where adm: "admit tr i = (tr1, ok)" by (cases "admit tr i")
  with admit_frame [OF assms(1)] have len: "i < length (conns tr1)" using assms(1) frame_length by fastforce
  have ok
  proof (rule ccontr)
    assume "\<not> ok"
    with adm have "overflowed tr1" by (auto simp: admit_def Let_def split: if_splits)
    with \<open>\<not> ok\<close> assms(2) \<open>\<not> overflowed tr\<close> show False by (simp add: record_store store_def adm)
  qed
  with len \<open>\<not> overflowed tr\<close> show ?thesis by (simp add: record_store store_def adm upd_conn_def)
qed

lemma wf_states_record:
  assumes "wf_states (insert i J) tr" and "i < length (conns tr)" and "st_t s \<le> ct_last_at (conns tr ! i)"
  shows "wf_states J (record_state tr i s)"
proof -
  have "wf_states (insert i J) (record_state tr i s)"
    by (rule wf_states_frame [OF assms(1) state_rec.record_frame [OF assms(2,3)]])
  then show ?thesis using record_state_nonempty [OF assms(2), of s]
    by (auto simp: wf_states_def)
qed

section \<open>The steps\<close>

lemma account_fields [simp]:
  "ct_id (account c seg dir) = ct_id c" "ct_opened_at (account c seg dir) = ct_opened_at c"
  "ct_last_at (account c seg dir) = max (ct_last_at c) (seg_ts seg)"
  "ct_states (account c seg dir) = ct_states c" "retained (account c seg dir) = retained c"
  "ct_state (account c seg dir) = ct_state c" "ct_origin (account c seg dir) = ct_origin c"
  "ct_metrics (account c seg dir) = ct_metrics c"
  "ct_segments (account c seg dir) = ct_segments c + 1"
  by (simp_all add: account_def retained_def Let_def split: direction.splits)

lemma set_fin_fields [simp]:
  "ct_id (set_fin c dir) = ct_id c" "ct_opened_at (set_fin c dir) = ct_opened_at c"
  "ct_last_at (set_fin c dir) = ct_last_at c" "ct_states (set_fin c dir) = ct_states c"
  "retained (set_fin c dir) = retained c" "ct_state (set_fin c dir) = ct_state c"
  "ct_origin (set_fin c dir) = ct_origin c" "ct_metrics (set_fin c dir) = ct_metrics c"
  "ct_segments (set_fin c dir) = ct_segments c"
  by (simp_all add: set_fin_def retained_def split: direction.splits)

text \<open>The state after the handshake part of \<^verbatim>\<open>apply_state\<close>, before a FIN is looked at.\<close>

definition handshake :: "conn_state \<Rightarrow> segment \<Rightarrow> direction \<Rightarrow> conn_state" where
  "handshake s seg dir =
     (let f = seg_flags seg;
          s1 = (if (is_syn_ack f \<or> is_bare_syn f \<and> dir = R2O) \<and> s = SynSent then SynReceived else s)
      in if s1 = SynReceived \<and> (fl_ack f \<or> 0 < payload_len seg) then Established else s1)"

lemma handshake_facts:
  "rank s \<le> rank (handshake s seg dir)" "handshake s seg dir = Reset \<longleftrightarrow> s = Reset"
  "handshake s seg dir = Closed \<longleftrightarrow> s = Closed"
  by (auto simp: handshake_def Let_def)

lemma syn_exclusive: "is_syn_ack f \<Longrightarrow> \<not> is_bare_syn f"
  by (simp add: is_syn_ack_def is_bare_syn_def)

lemma apply_state_rst: "fl_rst (seg_flags seg) \<Longrightarrow> apply_state c seg dir = c\<lparr>ct_state := Reset\<rparr>"
  by (simp add: apply_state_def Let_def)

lemma apply_state_reset:
  "\<not> fl_rst (seg_flags seg) \<Longrightarrow> ct_state c = Reset \<Longrightarrow> apply_state c seg dir = c"
  by (simp add: apply_state_def Let_def)

lemma apply_state_live:
  assumes "\<not> fl_rst (seg_flags seg)" and "ct_state c \<noteq> Reset"
  shows "apply_state c seg dir =
    (let c2 = c\<lparr>ct_state := handshake (ct_state c) seg dir\<rparr>
     in if fl_fin (seg_flags seg)
        then let c3 = set_fin c2 dir
             in c3\<lparr>ct_state := advance_to (ct_state c3)
                    (if ct_fin_o2r c3 \<and> ct_fin_r2o c3 then Closed else FinWait)\<rparr>
        else c2)"
proof -
  define f where "f = seg_flags seg"
  define c1 where "c1 = (if is_syn_ack f
      then (if ct_state c = SynSent then c\<lparr>ct_state := advance_to (ct_state c) SynReceived\<rparr> else c)
      else if is_bare_syn f
      then (if ct_state c = SynSent \<and> dir = R2O then c\<lparr>ct_state := advance_to (ct_state c) SynReceived\<rparr> else c)
      else c)"
  define c2 where "c2 = (if ct_state c1 = SynReceived \<and> (fl_ack f \<or> 0 < payload_len seg)
      then c1\<lparr>ct_state := advance_to (ct_state c1) Established\<rparr> else c1)"
  have c1: "c1 = c\<lparr>ct_state := if (is_syn_ack f \<or> is_bare_syn f \<and> dir = R2O) \<and> ct_state c = SynSent
      then SynReceived else ct_state c\<rparr>"
    by (simp add: c1_def advance_to_def)
  have c2: "c2 = c\<lparr>ct_state := handshake (ct_state c) seg dir\<rparr>"
    unfolding c2_def c1 handshake_def Let_def f_def [symmetric] by (simp add: advance_to_def)
  show ?thesis
    using assms
    unfolding apply_state_def f_def [symmetric] Let_def c1_def [symmetric] c2_def [symmetric] c2 [symmetric]
    by simp
qed

text \<open>
  The lifecycle as a function on its own state, the observed state and the FINs seen, and that
  \<^verbatim>\<open>apply_state\<close> is this function on that part of a connection and changes nothing else.
\<close>

definition life_next :: "segment \<Rightarrow> direction \<Rightarrow> conn_state \<times> bool \<times> bool \<Rightarrow> conn_state \<times> bool \<times> bool" where
  "life_next seg dir l =
     (case l of (s, fo, fr) \<Rightarrow>
        if fl_rst (seg_flags seg) then (Reset, fo, fr)
        else if s = Reset then (s, fo, fr)
        else if fl_fin (seg_flags seg)
        then let fo' = (fo \<or> dir = O2R); fr' = (fr \<or> dir = R2O)
             in (advance_to (handshake s seg dir) (if fo' \<and> fr' then Closed else FinWait), fo', fr')
        else (handshake s seg dir, fo, fr))"

definition ct_life :: "conn_track \<Rightarrow> conn_state \<times> bool \<times> bool" where
  "ct_life c = (ct_state c, ct_fin_o2r c, ct_fin_r2o c)"

definition with_life :: "conn_track \<Rightarrow> conn_state \<times> bool \<times> bool \<Rightarrow> conn_track" where
  "with_life c l = (case l of (s, fo, fr) \<Rightarrow> c\<lparr>ct_state := s, ct_fin_o2r := fo, ct_fin_r2o := fr\<rparr>)"

lemma with_life_fields [simp]:
  "ct_id (with_life c l) = ct_id c" "ct_opened_at (with_life c l) = ct_opened_at c"
  "ct_last_at (with_life c l) = ct_last_at c" "ct_states (with_life c l) = ct_states c"
  "ct_origin (with_life c l) = ct_origin c" "ct_metrics (with_life c l) = ct_metrics c"
  "ct_segments (with_life c l) = ct_segments c" "ct_life (with_life c l) = l"
  "ct_bytes_o2r (with_life c l) = ct_bytes_o2r c" "ct_bytes_r2o (with_life c l) = ct_bytes_r2o c"
  "retained (with_life c l) = retained c"
  by (cases l; simp add: with_life_def ct_life_def retained_def)+

lemma apply_state_eq: "apply_state c seg dir = with_life c (life_next seg dir (ct_life c))"
proof (cases "fl_rst (seg_flags seg)")
  case True
  then show ?thesis by (simp add: apply_state_rst life_next_def ct_life_def with_life_def)
next
  case nrst: False
  show ?thesis
  proof (cases "ct_state c = Reset")
    case True
    then show ?thesis using nrst by (simp add: apply_state_reset life_next_def ct_life_def with_life_def)
  next
    case False
    show ?thesis
    proof (cases "fl_fin (seg_flags seg)")
      case True
      then show ?thesis using nrst False
        by (cases dir) (simp_all add: apply_state_live life_next_def ct_life_def with_life_def set_fin_def Let_def)
    next
      case nfin: False
      then show ?thesis using nrst False
        by (simp add: apply_state_live life_next_def ct_life_def with_life_def Let_def)
    qed
  qed
qed

lemma apply_state_fields [simp]:
  "ct_id (apply_state c seg dir) = ct_id c" "ct_opened_at (apply_state c seg dir) = ct_opened_at c"
  "ct_last_at (apply_state c seg dir) = ct_last_at c" "ct_states (apply_state c seg dir) = ct_states c"
  "retained (apply_state c seg dir) = retained c" "ct_origin (apply_state c seg dir) = ct_origin c"
  "ct_metrics (apply_state c seg dir) = ct_metrics c" "ct_segments (apply_state c seg dir) = ct_segments c"
  by (simp_all add: apply_state_eq)

lemma wf_index_upd:
  assumes "wf_index k tr" and "i < length (conns tr)"
    and "\<And>c. ct_id (f c) = ct_id c" and "\<And>c. ct_opened_at (f c) = ct_opened_at c"
    and "ct_last_at (conns tr ! i) \<le> ct_last_at (f (conns tr ! i))"
    and "ct_last_at (f (conns tr ! i)) \<le> tr_now tr"
  shows "wf_index k (upd_conn tr i f)"
proof -
  have ids: "map ct_id (conns (upd_conn tr i f)) = map ct_id (conns tr)"
    using assms(2,3) by (simp add: upd_conn_def map_update list_update_same_conv)
  have nth: "ct_id (conns (upd_conn tr i f) ! j) = ct_id (conns tr ! j)" if "j < length (conns tr)" for j
    using that assms(2,3) by (cases "i = j") (simp_all add: upd_conn_def)
  have mem: "c \<in> set (conns tr) \<or> c = f (conns tr ! i)" if "c \<in> set (conns (upd_conn tr i f))" for c
    using that set_update_subset_insert [of "conns tr" i "f (conns tr ! i)"] by (auto simp: upd_conn_def)
  have self: "conns tr ! i \<in> set (conns tr)" using assms(2) by simp
  have "\<exists>n. next_instance tr (id_pair (ct_id c)) = Some n \<and> id_instance (ct_id c) < n"
    if "c \<in> set (conns (upd_conn tr i f))" for c
    using mem [OF that] assms(1,3) self by (auto simp: wf_index_def)
  moreover have "ct_opened_at c \<le> ct_last_at c \<and> ct_last_at c \<le> tr_now tr"
    if "c \<in> set (conns (upd_conn tr i f))" for c
    using mem [OF that] assms(1,4-6) self by (auto simp: wf_index_def intro: order_trans)
  moreover have "j < length (conns tr) \<and> id_pair (ct_id (conns (upd_conn tr i f) ! j)) = p"
    if "live tr p = Some j" for p j
    using that assms(1) nth by (simp add: wf_index_def)
  ultimately show ?thesis using assms(1)
    unfolding wf_index_def ids upd_conn_simps by blast
qed

lemma wf_states_upd:
  assumes "wf_states J tr" and "\<And>c. ct_states (f c) = ct_states c" and "\<And>c. ct_last_at c \<le> ct_last_at (f c)"
  shows "wf_states J (upd_conn tr i f)"
proof (cases "i < length (conns tr)")
  case True
  have "states_ok (f c)" if "states_ok c" for c
    using that assms(2,3) unfolding states_ok_def by (metis order_trans)
  then have "\<forall>c\<in>set (conns (upd_conn tr i f)). states_ok c"
    using assms(1) True set_update_subset_insert [of "conns tr" i "f (conns tr ! i)"]
    by (auto simp: upd_conn_def wf_states_def)
  moreover have "ct_states (conns (upd_conn tr i f) ! j) = ct_states (conns tr ! j)"
    if "j < length (conns tr)" for j
    using that True assms(2) by (cases "i = j") (simp_all add: upd_conn_def)
  ultimately show ?thesis using assms(1) by (simp add: wf_states_def)
next
  case False
  then have "upd_conn tr i f = tr" by (simp add: upd_conn_def list_update_beyond)
  then show ?thesis using assms(1) by simp
qed

lemma nth_upd_conn [simp]: "i < length (conns tr) \<Longrightarrow> conns (upd_conn tr i f) ! i = f (conns tr ! i)"
  by (simp add: upd_conn_def)

lemma join_wf:
  assumes "wf k tr" and i: "i < length (conns tr)" and "seg_ts seg \<le> tr_now tr"
  shows "wf k (join_instance tr i seg src)"
proof -
  define dir where "dir = direction_of (conns tr ! i) src"
  define tr1 where "tr1 = upd_conn tr i (\<lambda>c. account c seg dir)"
  define tr2 where "tr2 = upd_conn tr1 i (\<lambda>c. apply_state c seg dir)"
  define tr3 where "tr3 = (if collect_state_timeline (config tr2)
    then record_state tr2 i (ct_snapshot (conns tr2 ! i) (seg_ts seg)) else tr2)"
  define out where "out = metric_observe (ct_metrics (conns tr3 ! i)) seg dir (config tr3)"
  define tr4 where "tr4 = upd_conn tr3 i (\<lambda>c. c\<lparr>ct_metrics := fst out\<rparr>)"
  have eq: "join_instance tr i seg src =
      (if wants_observe tr3 (ct_id (conns tr3 ! i))
       then record_derived tr4 i seg dir (should_collect tr3 (ct_id (conns tr3 ! i))) (snd out) else tr3)"
    unfolding join_instance_def Let_def dir_def [symmetric] tr1_def [symmetric] tr2_def [symmetric]
      tr3_def [symmetric] out_def [symmetric]
    by (simp add: case_prod_beta tr4_def)
  have self: "conns tr ! i \<in> set (conns tr)" using i by simp
  have w0: "wf_index k tr" "wf_states {} tr" "sound tr" using assms(1) by (simp_all add: wf_def)
  then have now: "ct_last_at (conns tr ! i) \<le> tr_now tr" using self by (simp add: wf_index_def)
  have w1: "wf_index k tr1" "wf_states {} tr1" "sound tr1" unfolding tr1_def
    using assms(3) now by (simp_all add: w0 i wf_index_upd wf_states_upd sound_upd_conn)
  have i2: "i < length (conns tr2)" using i by (simp add: tr2_def tr1_def)
  have last2: "ct_last_at (conns tr2 ! i) = max (ct_last_at (conns tr ! i)) (seg_ts seg)"
    using i by (simp add: tr2_def tr1_def)
  have i1: "i < length (conns tr1)" "ct_last_at (conns tr1 ! i) \<le> tr_now tr1"
    using i assms(3) now by (simp_all add: tr1_def)
  have w2: "wf_index k tr2" "wf_states {} tr2" "sound tr2" unfolding tr2_def
    using i1 by (simp_all add: w1 wf_index_upd wf_states_upd sound_upd_conn)
  have fr3: "frame tr2 tr3"
    using i2 last2 by (auto simp: tr3_def ct_snapshot_def intro!: state_rec.record_frame)
  have w3: "wf k tr3"
    unfolding wf_def
    using w2 fr3 wf_index_frame wf_states_frame i2
    by (auto simp: tr3_def intro!: state_rec.record_sound)
  have i3: "i < length (conns tr3)" using frame_length [OF fr3] i2 by simp
  have fr4: "frame tr3 tr4" unfolding tr4_def
    by (intro frame_upd_conn keeps_same_states) simp_all
  have s4: "sound tr4" using w3 unfolding tr4_def wf_def
    by (intro sound_upd_conn) (simp_all add: retained_def)
  have i4: "i < length (conns tr4)" using frame_length [OF fr4] i3 by simp
  have "wf k (record_derived tr4 i seg dir w x)" for w x
    using w3 wf_index_frame wf_states_frame frame_trans [OF fr4 record_derived_ok(1) [OF i4]]
      record_derived_ok(2) [OF i4 s4] unfolding wf_def by blast
  then show ?thesis unfolding eq using w3 by simp
qed

lemma fresh_track_fields [simp]:
  "ct_id (fresh_track p n seg src dst) = ConnId p n"
  "ct_opened_at (fresh_track p n seg src dst) = seg_ts seg"
  "ct_last_at (fresh_track p n seg src dst) = seg_ts seg"
  "ct_states (fresh_track p n seg src dst) = []"
  "retained (fresh_track p n seg src dst) = 0"
  "ct_segments (fresh_track p n seg src dst) = 0"
  by (simp_all add: fresh_track_def retained_def split: prod.splits)

lemma wf_index_push:
  assumes "wf_index k tr" and "k < 2 ^ 32 - 1"
    and "ct_id c = ConnId p (case next_instance tr p of None \<Rightarrow> 0 | Some n \<Rightarrow> n)"
    and "ct_opened_at c \<le> ct_last_at c" and "ct_last_at c \<le> tr_now tr"
  shows "wf_index (Suc k) (tr\<lparr>next_instance := (next_instance tr)(p \<mapsto> (case next_instance tr p of None \<Rightarrow> 0 | Some n \<Rightarrow> n) + 1),
      conns := conns tr @ [c], live := (live tr)(p \<mapsto> length (conns tr))\<rparr>)"
proof -
  define n where "n = (case next_instance tr p of None \<Rightarrow> 0 | Some n \<Rightarrow> n)"
  have nk: "unat n \<le> k" using assms(1) by (auto simp: n_def wf_index_def split: option.splits)
  then have nw: "unat (n + 1) = Suc (unat n)"
    using assms(2) by (simp add: unat_word_ariths)
  have below: "id_instance (ct_id d) < n" if "d \<in> set (conns tr)" "id_pair (ct_id d) = p" for d
    using assms(1) that by (auto simp: wf_index_def n_def)
  have lt: "m < n + 1" if "m \<le> n" for m using that nw by (simp add: word_less_nat_alt word_le_nat_alt)
  have fresh: "ConnId p n \<notin> ct_id ` set (conns tr)"
    using below by (metis conn_id.sel(1) conn_id.sel(2) imageE less_irrefl)
  have live: "i < Suc (length (conns tr)) \<and> id_pair (ct_id ((conns tr @ [c]) ! i)) = q"
    if "((live tr)(p \<mapsto> length (conns tr))) q = Some i" for q i
    using that assms(1,3) by (auto simp: wf_index_def nth_append split: if_splits)
  have inst: "\<exists>m. ((next_instance tr)(p \<mapsto> n + 1)) (id_pair (ct_id d)) = Some m \<and> id_instance (ct_id d) < m"
    if "d \<in> set (conns tr @ [c])" for d
  proof (cases "id_pair (ct_id d) = p")
    case True
    have "id_instance (ct_id d) = n" if "d = c" using that assms(3) by (simp add: n_def)
    then have "id_instance (ct_id d) \<le> n" using that below [of d] True by force
    then show ?thesis using True lt by simp
  next
    case False
    with that assms(3) have "d \<in> set (conns tr)" by auto
    then show ?thesis using False assms(1) by (simp add: wf_index_def)
  qed
  have cnt: "unat m \<le> Suc k" if "((next_instance tr)(p \<mapsto> n + 1)) q = Some m" for q m
    using that nk nw assms(1) by (auto simp: wf_index_def le_SucI split: if_splits)
  show ?thesis
    unfolding wf_index_def n_def [symmetric]
    using live inst cnt fresh assms by (auto simp: n_def [symmetric] wf_index_def)
qed

lemma wf_states_push:
  assumes "wf_states {} tr" and "ct_states c = []"
  shows "wf_states {length (conns tr)} (tr\<lparr>next_instance := ni, conns := conns tr @ [c], live := l\<rparr>)"
  using assms by (auto simp: wf_states_def states_ok_def nth_append)

lemma sound_push:
  assumes "sound tr" and "retained c = 0"
  shows "sound (tr\<lparr>next_instance := ni, conns := conns tr @ [c], live := l\<rparr>)"
  using assms by (auto simp: sound_def slack_append slack_def)

lemma retained_metrics [simp]: "retained (c\<lparr>ct_metrics := m\<rparr>) = retained c"
  by (simp add: retained_def)

text \<open>Opening an instance, as one push followed by recording.\<close>

definition opened_track :: "tracker \<Rightarrow> endpoint_pair \<Rightarrow> segment \<Rightarrow> endpoint \<Rightarrow> endpoint \<Rightarrow> conn_track" where
  "opened_track tr pair seg src dst =
     (let track0 = fresh_track pair (case next_instance tr pair of None \<Rightarrow> 0 | Some n \<Rightarrow> n) seg src dst;
          dir = direction_of track0 src;
          track1 = account track0 seg dir
      in if fl_fin (seg_flags seg) then set_fin track1 dir else track1)"

definition pushed :: "tracker \<Rightarrow> endpoint_pair \<Rightarrow> conn_track \<Rightarrow> tracker" where
  "pushed tr pair c =
     tr\<lparr>next_instance := (next_instance tr)(pair \<mapsto> (case next_instance tr pair of None \<Rightarrow> 0 | Some n \<Rightarrow> n) + 1),
        conns := conns tr @ [c], live := (live tr)(pair \<mapsto> length (conns tr))\<rparr>"

lemma opened_track_fields [simp]:
  "ct_id (opened_track tr p seg src dst) = ConnId p (case next_instance tr p of None \<Rightarrow> 0 | Some n \<Rightarrow> n)"
  "ct_opened_at (opened_track tr p seg src dst) = seg_ts seg"
  "ct_last_at (opened_track tr p seg src dst) = seg_ts seg"
  "ct_states (opened_track tr p seg src dst) = []"
  "retained (opened_track tr p seg src dst) = 0"
  "ct_segments (opened_track tr p seg src dst) = 1"
  by (simp_all add: opened_track_def Let_def)

lemma create_shape:
  obtains c tr2 where "keeps (opened_track tr p seg src dst) c"
    and "retained c = 0"
    and "frame (pushed tr p c) tr2" and "sound (pushed tr p c) \<longrightarrow> sound tr2" and "calm (pushed tr p c) tr2"
    and "create_instance tr p seg src dst =
       (if collect_state_timeline (config tr2)
        then record_state tr2 (length (conns tr)) (ct_snapshot (conns tr2 ! length (conns tr)) (seg_ts seg))
        else tr2)"
proof -
  define inst where "inst = (case next_instance tr p of None \<Rightarrow> 0 | Some n \<Rightarrow> n)"
  define tr0 where "tr0 = tr\<lparr>next_instance := (next_instance tr)(p \<mapsto> inst + 1)\<rparr>"
  define c2 where "c2 = opened_track tr p seg src dst"
  define dir where "dir = direction_of (fresh_track p inst seg src dst) src"
  have c2: "c2 = (if fl_fin (seg_flags seg) then set_fin (account (fresh_track p inst seg src dst) seg dir) dir
      else account (fresh_track p inst seg src dst) seg dir)"
    by (simp add: c2_def opened_track_def inst_def dir_def Let_def)
  define out where "out = metric_observe (ct_metrics c2) seg dir (config tr0)"
  define c where "c = (if wants_observe tr0 (ct_id c2) then c2\<lparr>ct_metrics := fst out\<rparr> else c2)"
  have k: "keeps c2 c" "retained c = 0"
    by (auto simp: c_def c2_def intro!: keeps_same_states)
  define tr2 where "tr2 = (if wants_observe tr0 (ct_id c2)
      then record_derived (pushed tr p c) (length (conns tr)) seg dir (should_collect tr0 (ct_id c2)) (snd out)
      else pushed tr p c)"
  have len: "length (conns tr) < length (conns (pushed tr p c))" by (simp add: pushed_def)
  have fr: "frame (pushed tr p c) tr2" "sound (pushed tr p c) \<longrightarrow> sound tr2"
    by (simp_all add: tr2_def record_derived_ok [OF len])
  have cl: "calm (pushed tr p c) tr2" by (simp add: tr2_def calm_derived)
  have push: "tr0\<lparr>conns := conns tr0 @ [c], live := (live tr0)(p \<mapsto> length (conns tr0))\<rparr> = pushed tr p c"
    by (simp add: tr0_def pushed_def inst_def)
  have conns0: "conns tr0 = conns tr" by (simp add: tr0_def)
  have eq: "create_instance tr p seg src dst =
       (if collect_state_timeline (config tr2)
        then record_state tr2 (length (conns tr)) (ct_snapshot (conns tr2 ! length (conns tr)) (seg_ts seg))
        else tr2)"
  proof (cases "wants_observe tr0 (ct_id c2)")
    case True
    then have "c = c2\<lparr>ct_metrics := fst out\<rparr>" by (simp add: c_def)
    with True push show ?thesis
      unfolding create_instance_def inst_def [symmetric] Let_def tr0_def [symmetric] dir_def [symmetric]
        c2 [symmetric] out_def [symmetric] tr2_def
      by (simp add: case_prod_beta conns0)
  next
    case False
    then have "c = c2" by (simp add: c_def)
    with False push show ?thesis
      unfolding create_instance_def inst_def [symmetric] Let_def tr0_def [symmetric] dir_def [symmetric]
        c2 [symmetric] out_def [symmetric] tr2_def
      by (simp add: conns0)
  qed
  show thesis
    by (rule that [OF k [unfolded c2_def] fr cl eq])
qed

lemma create_wf:
  assumes "wf k tr" and "k < 2 ^ 32 - 1" and "seg_ts seg \<le> tr_now tr"
  shows "wf (Suc k) (create_instance tr p seg src dst)"
proof -
  obtain c tr2 where c: "keeps (opened_track tr p seg src dst) c" "retained c = 0"
    and fr: "frame (pushed tr p c) tr2" and snd2: "sound (pushed tr p c) \<longrightarrow> sound tr2"
    and eq: "create_instance tr p seg src dst =
       (if collect_state_timeline (config tr2)
        then record_state tr2 (length (conns tr)) (ct_snapshot (conns tr2 ! length (conns tr)) (seg_ts seg))
        else tr2)"
    by (rule create_shape [of tr p seg src dst])
  have fields: "ct_id c = ConnId p (case next_instance tr p of None \<Rightarrow> 0 | Some n \<Rightarrow> n)"
      "ct_opened_at c = seg_ts seg" "ct_last_at c = seg_ts seg"
    using keepsD [OF c(1)] by simp_all
  have w: "wf_index (Suc k) (pushed tr p c)" "sound (pushed tr p c)"
    using assms fields c(2) wf_index_push [of k tr c p] sound_push [of tr c] by (simp_all add: wf_def pushed_def)
  have i2: "length (conns tr) < length (conns tr2)" using frame_length [OF fr] by (simp add: pushed_def)
  have last2: "ct_last_at (conns tr2 ! length (conns tr)) = seg_ts seg"
    using keepsD(3) [OF frame_nth [OF fr]] fields(3) by (simp add: pushed_def nth_append)
  have wi: "wf_index (Suc k) tr2" "sound tr2" using w fr wf_index_frame snd2 by blast+
  have "ct_states c = []" using c(2) by (simp add: retained_def)
  then have "wf_states {length (conns tr)} (pushed tr p c)"
    using wf_states_push [of tr c] assms(1) by (simp add: wf_def pushed_def)
  then have ws: "wf_states {length (conns tr)} tr2" using fr wf_states_frame by blast
  show ?thesis
  proof (cases "collect_state_timeline (config tr2)")
    case True
    let ?s = "ct_snapshot (conns tr2 ! length (conns tr)) (seg_ts seg)"
    have le: "st_t ?s \<le> ct_last_at (conns tr2 ! length (conns tr))"
      using last2 by (simp add: ct_snapshot_def)
    have "wf_index (Suc k) (record_state tr2 (length (conns tr)) ?s)"
      by (rule wf_index_frame [OF wi(1) state_rec.record_frame [OF i2 le]])
    moreover have "wf_states {} (record_state tr2 (length (conns tr)) ?s)"
      by (rule wf_states_record [OF ws i2 le])
    moreover have "sound (record_state tr2 (length (conns tr)) ?s)"
      by (rule state_rec.record_sound [OF i2 wi(2)])
    ultimately show ?thesis using True by (simp add: eq wf_def)
  next
    case False
    then show ?thesis using wi ws by (simp add: eq wf_def wf_states_def)
  qed
qed

lemma wf_index_mono: "wf_index k tr \<Longrightarrow> wf_index (Suc k) tr"
  unfolding wf_index_def using le_SucI by blast

lemma wf_mono: "wf k tr \<Longrightarrow> wf (Suc k) tr"
  by (simp add: wf_def wf_index_mono)

lemma wf_advance_now:
  assumes "wf k tr"
  shows "wf k (tr\<lparr>tr_now := max (tr_now tr) t\<rparr>)"
  using assms by (auto simp: wf_def wf_index_def wf_states_def sound_def le_max_iff_disj)

lemma observe_segment_ok:
  assumes "wf k tr" and "k < 2 ^ 32 - 1" and "seg_ts seg \<le> tr_now tr"
  shows "\<exists>tr'. observe_segment tr seg = Inr tr' \<and> wf (Suc k) tr'"
proof -
  have "i < length (conns tr)" if "live tr p = Some i" for p i
    using assms(1) that by (simp add: wf_def wf_index_def)
  then show ?thesis
    using join_wf [OF assms(1) _ assms(3)] create_wf [OF assms] wf_mono
    by (auto simp: observe_segment_def Let_def not_le [symmetric] split: option.splits)
qed

lemma wf_evict_samples: "wf k tr \<Longrightarrow> wf k (evict_samples tr)"
  using wf_index_frame wf_states_frame evict_samples_ok unfolding wf_def by blast

section \<open>Ticks\<close>

lemma decay_fold_ok:
  assumes "\<forall>i\<in>set is. i < length (conns tr)"
  shows "frame tr (fold (\<lambda>i tr. if dead_after (config tr) < sat_sub t (ct_last_at (conns tr ! i)) then tr
             else collect_inflight_at (collect_throughput_at tr i t) i t) is tr)
    \<and> (sound tr \<longrightarrow> sound (fold (\<lambda>i tr. if dead_after (config tr) < sat_sub t (ct_last_at (conns tr ! i)) then tr
             else collect_inflight_at (collect_throughput_at tr i t) i t) is tr))"
  using assms
proof (induction "is" arbitrary: tr)
  case Nil
  then show ?case by simp
next
  case (Cons i "is")
  let ?t = "if dead_after (config tr) < sat_sub t (ct_last_at (conns tr ! i)) then tr
    else collect_inflight_at (collect_throughput_at tr i t) i t"
  have i: "i < length (conns tr)" using Cons.prems by simp
  note c1 = collect_throughput_at_ok [OF i, of t]
  have "i < length (conns (collect_throughput_at tr i t))" using frame_length [OF c1(1)] i by simp
  note c2 = collect_inflight_at_ok [OF this, of t]
  have fr: "frame tr ?t" using frame_trans [OF c1(1) c2(1)] by simp
  have "sound tr \<longrightarrow> sound ?t" using c1(2) c2(2) by simp
  with Cons.IH [of ?t] Cons.prems frame_length [OF fr] show ?case
    by (simp add: frame_trans [OF fr])
qed

lemma wf_emit_decay: "wf k tr \<Longrightarrow> wf k (emit_decay_samples tr t)"
  using decay_fold_ok [of "[0..<length (conns tr)]" tr t] wf_index_frame wf_states_frame
  unfolding wf_def emit_decay_samples_def by auto

lemma index_live_spec:
  "index_live cs p = Some i \<Longrightarrow> i < length cs \<and> id_pair (ct_id (cs ! i)) = p"
proof (induction cs arbitrary: i rule: rev_induct)
  case Nil
  then show ?case by (simp add: index_live_def)
next
  case (snoc c cs)
  then show ?case
    by (auto simp: index_live_def enumerate_append_eq nth_append split: if_splits)
qed

lemma wf_evict_dead:
  assumes "wf k tr"
  shows "wf k (evict_dead_connections tr)"
proof (cases "retention_window (retention (config tr))")
  case None
  then show ?thesis using assms by (simp add: evict_dead_connections_def)
next
  case (Some w)
  define cs where "cs = filter (survives (config tr) (tr_now tr) (sat_sub (tr_now tr) w)) (conns tr)"
  have sub: "set cs \<subseteq> set (conns tr)" by (auto simp: cs_def)
  show ?thesis
  proof (cases "length cs = length (conns tr)")
    case True
    then have "cs = conns tr" unfolding cs_def
      by (metis filter_id_conv length_filter_less less_irrefl)
    then show ?thesis using assms Some True
      by (simp add: evict_dead_connections_def cs_def [symmetric] Let_def)
  next
    case False
    define tr' where "tr' = evict_dead_connections tr"
    have eq: "tr' = tr\<lparr>conns := cs, live := index_live cs,
        next_instance := (\<lambda>pair. if pair \<in> (\<lambda>c. id_pair (ct_id c)) ` set cs then next_instance tr pair else None),
        collected_samples := sum_list (map retained cs)\<rparr>"
      using Some False
      by (simp add: tr'_def evict_dead_connections_def cs_def [symmetric] Let_def recount_collected_def)
    have no: "\<not> overflowed tr" using assms Some by (auto simp: wf_def sound_def)
    have "distinct (map ct_id cs)"
      using assms by (auto simp: cs_def wf_def wf_index_def distinct_map_filter)
    then have "wf_index k tr'"
      using assms sub index_live_spec by (auto simp: eq wf_def wf_index_def split: if_splits)
    moreover have "ct_states c \<noteq> []" if "collect_state_timeline (config tr)" "c \<in> set (conns tr)" for c
      using assms no that by (auto simp: wf_def wf_states_def in_set_conv_nth)
    with sub have "wf_states {} tr'"
      using assms by (auto simp: eq wf_def wf_states_def subset_iff)
    moreover have "sum_list (map retained (filter P xs)) + slack xs \<le> sum_list (map retained xs) + slack (filter P xs)" for P xs
      by (induction xs) (auto simp: slack_def)
    from this [of "survives (config tr) (tr_now tr) (sat_sub (tr_now tr) w)" "conns tr"]
    have "sound tr'" using Some no assms by (auto simp: eq sound_def wf_def simp flip: cs_def)
    ultimately show ?thesis by (simp add: wf_def tr'_def)
  qed
qed

lemma wf_observe_tick: "wf k tr \<Longrightarrow> wf k (observe_tick tr t)"
  by (simp add: observe_tick_def Let_def wf_evict_dead wf_evict_samples wf_emit_decay wf_advance_now)

section \<open>The machine\<close>

interpretation tracker_machine: machine observe wf "2 ^ 32 - 1"
proof unfold_locales
  fix k tr item assume wf: "wf k tr" and k: "k < 2 ^ 32 - 1"
  show "\<exists>tr'. observe tr item = Inr tr' \<and> wf (Suc k) tr'"
  proof (cases item)
    case (Segment seg)
    have "seg_ts seg \<le> tr_now (tr\<lparr>tr_now := max (tr_now tr) (seg_ts seg)\<rparr>)" by simp
    from observe_segment_ok [OF wf_advance_now [OF wf] k this] show ?thesis
      using wf_evict_samples by (auto simp: observe_def Segment)
  next
    case (Tick t)
    then show ?thesis using wf_mono [OF wf_observe_tick [OF wf]] by (simp add: observe_def)
  qed
qed

lemma wf_new: "wf 0 (tracker_new cfg)"
  by (simp add: wf_def wf_index_def wf_states_def sound_def tracker_new_def)

lemma observe_all_ok:
  assumes "length items \<le> 2 ^ 32 - 1"
  obtains tr where "observe_all (tracker_new cfg) items = Inr tr" and "wf (length items) tr"
  using tracker_machine.run_ok [OF wf_new, of items cfg] assms by (auto simp: observe_all_def)

section \<open>Invariants of a connection's core\<close>

text \<open>
  A property of a connection that depends only on its core, holds when an instance is opened
  and is kept by folding a segment in, holds of every tracked connection after any run.
\<close>

locale core_invariant =
  fixes P :: "conn_track \<Rightarrow> bool"
  assumes core_only: "core c' = core c \<Longrightarrow> P c \<Longrightarrow> P c'"
    and opened: "P (opened_track tr p seg src dst)"
    and joined: "P c \<Longrightarrow> P (apply_state (account c seg dir) seg dir)"
begin

lemma keeps_P: "keeps c c' \<Longrightarrow> P c \<Longrightarrow> P c'"
  using core_only by (simp add: keeps_def)

lemma frame_P: "frame tr tr' \<Longrightarrow> \<forall>c\<in>set (conns tr). P c \<Longrightarrow> \<forall>c\<in>set (conns tr'). P c"
  unfolding frame_def using keeps_P
  by (metis (no_types, lifting) in_set_conv_nth list_all2_conv_all_nth)

end

text \<open>
  Joining an instance: the lifecycle update of one connection, its snapshot, then recording, which
  leaves the snapshots alone.
\<close>

lemma join_split:
  assumes "i < length (conns tr)"
  obtains tr2 tr3 where
    "tr2 = upd_conn tr i (\<lambda>c. apply_state (account c seg (direction_of (conns tr ! i) src)) seg
             (direction_of (conns tr ! i) src))"
    and "tr3 = (if collect_state_timeline (config tr)
           then record_state tr2 i (ct_snapshot (conns tr2 ! i) (seg_ts seg)) else tr2)"
    and "frame tr2 tr3" and "frame tr3 (join_instance tr i seg src)" and "calm tr3 (join_instance tr i seg src)"
proof -
  define dir where "dir = direction_of (conns tr ! i) src"
  define tr2 where "tr2 = upd_conn (upd_conn tr i (\<lambda>c. account c seg dir)) i (\<lambda>c. apply_state c seg dir)"
  define tr3 where "tr3 = (if collect_state_timeline (config tr)
    then record_state tr2 i (ct_snapshot (conns tr2 ! i) (seg_ts seg)) else tr2)"
  define out where "out = metric_observe (ct_metrics (conns tr3 ! i)) seg dir (config tr3)"
  define tr4 where "tr4 = upd_conn tr3 i (\<lambda>c. c\<lparr>ct_metrics := fst out\<rparr>)"
  have cfg: "config tr2 = config tr" by (simp add: tr2_def)
  have eq: "join_instance tr i seg src =
      (if wants_observe tr3 (ct_id (conns tr3 ! i))
       then record_derived tr4 i seg dir (should_collect tr3 (ct_id (conns tr3 ! i))) (snd out) else tr3)"
    unfolding join_instance_def Let_def dir_def [symmetric] tr2_def [symmetric] cfg
      tr3_def [symmetric] out_def [symmetric]
    by (simp add: case_prod_beta tr4_def)
  have i2: "i < length (conns tr2)" using assms by (simp add: tr2_def)
  have fr3: "frame tr2 tr3"
    using i2 assms by (auto simp: tr3_def tr2_def ct_snapshot_def intro!: state_rec.record_frame)
  have fr4: "frame tr3 tr4" unfolding tr4_def by (intro frame_upd_conn keeps_same_states) simp_all
  have i4: "i < length (conns tr4)" using frame_length [OF fr4] frame_length [OF fr3] i2 by simp
  have "frame tr3 (join_instance tr i seg src)"
    unfolding eq using frame_trans [OF fr4 record_derived_ok(1) [OF i4]] by simp
  moreover have "calm tr3 tr4" unfolding tr4_def by (rule calm_upd_conn) simp
  then have "calm tr3 (join_instance tr i seg src)" unfolding eq using calm_trans [OF _ calm_derived] by simp
  moreover have "tr2 = upd_conn tr i (\<lambda>c. apply_state (account c seg dir) seg dir)"
    using assms by (simp add: tr2_def upd_conn_def)
  ultimately show thesis using that fr3 tr3_def by (simp add: dir_def)
qed

lemma join_shape:
  assumes "i < length (conns tr)"
  obtains tr2 where
    "tr2 = upd_conn tr i (\<lambda>c. apply_state (account c seg (direction_of (conns tr ! i) src)) seg
             (direction_of (conns tr ! i) src))"
    and "frame tr2 (join_instance tr i seg src)"
  by (rule join_split [OF assms]) (use that frame_trans in blast)

lemma create_frame:
  obtains c where "core c = core (opened_track tr p seg src dst)"
    and "frame (pushed tr p c) (create_instance tr p seg src dst)"
proof -
  obtain c tr2 where c: "keeps (opened_track tr p seg src dst) c" "retained c = 0"
    and fr: "frame (pushed tr p c) tr2"
    and eq: "create_instance tr p seg src dst =
       (if collect_state_timeline (config tr2)
        then record_state tr2 (length (conns tr)) (ct_snapshot (conns tr2 ! length (conns tr)) (seg_ts seg))
        else tr2)"
    by (rule create_shape [of tr p seg src dst])
  have i2: "length (conns tr) < length (conns tr2)" using frame_length [OF fr] by (simp add: pushed_def)
  have "ct_last_at (conns tr2 ! length (conns tr)) = seg_ts seg"
    using keepsD(3) [OF frame_nth [OF fr]] keepsD(3) [OF c(1)] by (simp add: pushed_def nth_append)
  then have "frame tr2 (create_instance tr p seg src dst)"
    using i2 by (auto simp: eq ct_snapshot_def intro!: state_rec.record_frame)
  with that c(1) frame_trans [OF fr] show thesis by (auto simp: keeps_def)
qed

text \<open>Every connection after an item is one of before, perhaps with a segment folded in, or new.\<close>

context core_invariant
begin

lemma join_P:
  assumes "\<forall>c\<in>set (conns tr). P c" and "i < length (conns tr)"
  shows "\<forall>c\<in>set (conns (join_instance tr i seg src)). P c"
proof -
  obtain tr2 where tr2: "tr2 = upd_conn tr i (\<lambda>c. apply_state (account c seg (direction_of (conns tr ! i) src)) seg
             (direction_of (conns tr ! i) src))"
    and fr: "frame tr2 (join_instance tr i seg src)"
    by (rule join_shape [OF assms(2), of seg src])
  have "\<forall>c\<in>set (conns tr2). P c"
    using assms joined set_update_subset_insert [of "conns tr" i] by (fastforce simp: tr2 upd_conn_def)
  then show ?thesis by (rule frame_P [OF fr])
qed

lemma create_P:
  assumes "\<forall>c\<in>set (conns tr). P c"
  shows "\<forall>c\<in>set (conns (create_instance tr p seg src dst)). P c"
proof -
  obtain c where c: "core c = core (opened_track tr p seg src dst)"
    and fr: "frame (pushed tr p c) (create_instance tr p seg src dst)"
    by (rule create_frame)
  have "\<forall>c\<in>set (conns (pushed tr p c)). P c"
    using assms core_only [OF c opened] by (simp add: pushed_def)
  then show ?thesis by (rule frame_P [OF fr])
qed

lemma observe_P:
  assumes "\<forall>c\<in>set (conns tr). P c" and "observe tr item = Inr tr'"
  shows "\<forall>c\<in>set (conns tr'). P c"
proof (cases item)
  case (Segment seg)
  let ?t = "tr\<lparr>tr_now := max (tr_now tr) (seg_ts seg)\<rparr>"
  have now: "\<forall>c\<in>set (conns ?t). P c" using assms(1) by simp
  from assms(2) Segment obtain t1 where t1: "observe_segment ?t seg = Inr t1" "tr' = evict_samples t1"
    by (auto simp: observe_def and_then_Inr_iff)
  from t1(1) have "\<forall>c\<in>set (conns t1). P c"
    using join_P [OF now] create_P [OF now]
    by (auto simp: observe_segment_def Let_def not_le split: option.splits if_splits)
  then show ?thesis unfolding t1(2) by (rule frame_P [OF evict_samples_ok(1)])
next
  case (Tick t)
  define t1 where "t1 = tr\<lparr>tr_now := max (tr_now tr) t\<rparr>"
  define t3 where "t3 = evict_samples (emit_decay_samples t1 (tr_now t1))"
  have "frame t1 (emit_decay_samples t1 (tr_now t1))"
    using decay_fold_ok [of "[0..<length (conns t1)]" t1 "tr_now t1"]
    by (simp add: emit_decay_samples_def)
  then have "frame t1 t3" unfolding t3_def by (rule frame_trans [OF _ evict_samples_ok(1)])
  then have "\<forall>c\<in>set (conns t3). P c" using frame_P assms(1) by (simp add: t1_def)
  moreover have "set (conns (evict_dead_connections t3)) \<subseteq> set (conns t3)"
    by (auto simp: evict_dead_connections_def Let_def recount_collected_def split: option.splits)
  moreover have "tr' = tr \<or> tr' = evict_dead_connections t3"
    using assms(2) Tick by (auto simp: observe_def observe_tick_def t3_def t1_def Let_def split: if_splits)
  ultimately show ?thesis using assms(1) by blast
qed

lemma run_P:
  "observe_all (tracker_new cfg) items = Inr tr \<Longrightarrow> \<forall>c\<in>set (conns tr). P c"
proof (induction items arbitrary: tr rule: rev_induct)
  case Nil
  then show ?case by (auto simp: observe_all_def tracker_new_def)
next
  case (snoc x xs)
  then obtain t where t: "observe_all (tracker_new cfg) xs = Inr t" "observe t x = Inr tr"
    by (auto simp: observe_all_def try_fold_append and_then_Inr_iff)
  from observe_P [OF snoc.IH [OF t(1)] t(2)] show ?case .
qed

end

section \<open>Lifecycle\<close>

lemma apply_state_rank: "rank (ct_state c) \<le> rank (ct_state (apply_state c seg dir))"
proof (cases "fl_rst (seg_flags seg)")
  case True
  then show ?thesis using rank_le_5 [of "ct_state c"] by (simp add: apply_state_rst)
next
  case False
  then show ?thesis
    using handshake_facts(1) [of "ct_state c" seg dir]
    by (cases "ct_state c = Reset") (auto simp: apply_state_reset apply_state_live Let_def le_max_iff_disj)
qed

text \<open>A connection counts as closed exactly when both sides have sent a FIN, until a reset.\<close>

definition fins_ok :: "conn_track \<Rightarrow> bool" where
  "fins_ok c \<longleftrightarrow> (ct_state c = Closed \<longrightarrow> ct_fin_o2r c \<and> ct_fin_r2o c)
     \<and> (ct_fin_o2r c \<and> ct_fin_r2o c \<longrightarrow> is_terminal (ct_state c))"

lemma advance_to_Closed: "s \<noteq> Reset \<Longrightarrow> advance_to s Closed = Closed"
  by (cases s) (simp_all add: advance_to_def)

lemma advance_to_eq_Closed: "advance_to s t = Closed \<longleftrightarrow> s = Closed \<and> t \<noteq> Reset \<or> s \<noteq> Reset \<and> t = Closed"
  by (cases s; cases t) (simp_all add: advance_to_def)

lemma account_fins [simp]:
  "ct_fin_o2r (account c seg dir) = ct_fin_o2r c" "ct_fin_r2o (account c seg dir) = ct_fin_r2o c"
  by (simp_all add: account_def Let_def split: direction.splits)

lemma apply_state_fins:
  assumes "fins_ok c"
  shows "fins_ok (apply_state c seg dir)"
proof (cases "fl_rst (seg_flags seg) \<or> ct_state c = Reset")
  case True
  then show ?thesis
    using assms apply_state_rst [of seg c dir] apply_state_reset [of seg c dir]
    by (cases "fl_rst (seg_flags seg)") (simp_all add: fins_ok_def is_terminal_def)
next
  case live: False
  define s where "s = handshake (ct_state c) seg dir"
  have s: "s \<noteq> Reset" "s = Closed \<longleftrightarrow> ct_state c = Closed" using live by (simp_all add: s_def handshake_facts)
  have eq: "apply_state c seg dir =
      (if fl_fin (seg_flags seg)
       then set_fin c dir\<lparr>ct_state := advance_to s (if ct_fin_o2r (set_fin c dir) \<and> ct_fin_r2o (set_fin c dir) then Closed else FinWait)\<rparr>
       else c\<lparr>ct_state := s\<rparr>)"
    using live by (cases dir) (simp_all add: apply_state_live s_def set_fin_def Let_def)
  have mono: "ct_fin_o2r c \<Longrightarrow> ct_fin_o2r (set_fin c dir)" "ct_fin_r2o c \<Longrightarrow> ct_fin_r2o (set_fin c dir)"
    by (cases dir; simp add: set_fin_def)+
  have both: "ct_fin_o2r c \<and> ct_fin_r2o c" if "s = Closed" using that s(2) assms by (simp add: fins_ok_def)
  show ?thesis
  proof (cases "fl_fin (seg_flags seg)")
    case True
    show ?thesis
    proof (cases "ct_fin_o2r (set_fin c dir) \<and> ct_fin_r2o (set_fin c dir)")
      case closed: True
      then show ?thesis using True s(1) by (simp add: eq fins_ok_def is_terminal_def advance_to_Closed)
    next
      case open': False
      with both mono have "s \<noteq> Closed" by blast
      with open' show ?thesis using True by (auto simp: eq fins_ok_def advance_to_eq_Closed)
    qed
  next
    case False
    have "s = Closed" if "ct_fin_o2r c" "ct_fin_r2o c"
      using that assms live s(2) by (auto simp: fins_ok_def is_terminal_def)
    with False both show ?thesis by (auto simp: eq fins_ok_def is_terminal_def)
  qed
qed

lemma opened_fins: "fins_ok (opened_track tr p seg src dst)"
proof -
  obtain a b c d where e: "classify_open (seg_flags seg) src dst = (a, b, c, d)" by (cases "classify_open (seg_flags seg) src dst")
  then have "d \<noteq> Closed" by (auto simp: classify_open_def split: if_splits)
  then show ?thesis
    by (auto simp: opened_track_def fresh_track_def fins_ok_def e Let_def set_fin_def account_def
        split: direction.splits)
qed

interpretation fins: core_invariant fins_ok
proof unfold_locales
  show "fins_ok c'" if "core c' = core c" "fins_ok c" for c c'
    using that core_eqD [OF that(1)] by (simp add: fins_ok_def)
  show "fins_ok (opened_track tr p seg src dst)" for tr p seg src dst by (rule opened_fins)
  show "fins_ok (apply_state (account c seg dir) seg dir)" if "fins_ok c" for c seg dir
    using that by (intro apply_state_fins) (simp add: fins_ok_def)
qed


section \<open>Every segment is counted once\<close>

text \<open>
  Without eviction every segment is folded into exactly one connection, so the totals over all
  connections are the totals over the capture.
\<close>

definition ct_bytes :: "conn_track \<Rightarrow> u64" where
  "ct_bytes c = ct_bytes_o2r c + ct_bytes_r2o c"

fun seg_count :: "item \<Rightarrow> u64" where
  "seg_count (Segment seg) = 1"
| "seg_count (Tick t) = 0"

fun item_bytes :: "item \<Rightarrow> u64" where
  "item_bytes (Segment seg) = ucast (payload_len seg)"
| "item_bytes (Tick t) = 0"

definition totals :: "tracker \<Rightarrow> u64 \<times> u64" where
  "totals tr = (sum_list (map ct_segments (conns tr)), sum_list (map ct_bytes (conns tr)))"

lemma apply_state_bytes [simp]:
  "ct_bytes (apply_state c seg dir) = ct_bytes c"
  by (simp add: apply_state_eq ct_bytes_def)

lemma account_bytes [simp]: "ct_bytes (account c seg dir) = ct_bytes c + ucast (payload_len seg)"
  by (cases dir) (simp_all add: account_def ct_bytes_def Let_def)

lemma sum_list_update_word:
  "i < length xs \<Longrightarrow> sum_list (xs[i := v]) = sum_list xs - xs ! i + (v :: u64)"
  by (induction xs arbitrary: i) (auto split: nat.splits)

lemma frame_totals: "frame tr tr' \<Longrightarrow> totals tr' = totals tr"
proof -
  assume fr: "frame tr tr'"
  have "map ct_segments (conns tr') = map ct_segments (conns tr)"
    by (rule frame_map [OF fr]) (auto simp: keeps_def core_def ct_view_def)
  moreover have "map ct_bytes (conns tr') = map ct_bytes (conns tr)"
    by (rule frame_map [OF fr]) (auto simp: keeps_def core_def ct_view_def ct_bytes_def)
  ultimately show ?thesis by (simp add: totals_def)
qed

lemma observe_segment_totals:
  assumes "observe_segment tr seg = Inr tr'"
  shows "totals tr' = (fst (totals tr) + 1, snd (totals tr) + ucast (payload_len seg))"
proof -
  have join: "totals (join_instance tr i seg src) = (fst (totals tr) + 1, snd (totals tr) + ucast (payload_len seg))"
    if i: "i < length (conns tr)" for i src
  proof -
    obtain tr2 where tr2: "tr2 = upd_conn tr i (\<lambda>c. apply_state (account c seg (direction_of (conns tr ! i) src)) seg
             (direction_of (conns tr ! i) src))"
      and fr: "frame tr2 (join_instance tr i seg src)"
      by (rule join_shape [OF i, of seg src])
    show ?thesis unfolding frame_totals [OF fr] using i
      by (simp add: tr2 totals_def upd_conn_def map_update sum_list_update_word)
  qed
  have create: "totals (create_instance tr p seg src dst) = (fst (totals tr) + 1, snd (totals tr) + ucast (payload_len seg))"
    for p src dst
  proof -
    obtain c where c: "core c = core (opened_track tr p seg src dst)"
      and fr: "frame (pushed tr p c) (create_instance tr p seg src dst)"
      by (rule create_frame)
    have "ct_bytes (set_fin c dir) = ct_bytes c" for c dir
      by (cases dir) (simp_all add: set_fin_def ct_bytes_def)
    moreover have "ct_bytes (fresh_track p n seg src dst) = 0" for n
      by (simp add: fresh_track_def ct_bytes_def split: prod.splits)
    ultimately have "ct_bytes (opened_track tr p seg src dst) = ucast (payload_len seg)"
      by (simp add: opened_track_def Let_def)
    moreover have "ct_segments c = ct_segments (opened_track tr p seg src dst)"
        "ct_bytes c = ct_bytes (opened_track tr p seg src dst)"
      using c by (simp_all add: core_def ct_view_def ct_bytes_def)
    ultimately show ?thesis unfolding frame_totals [OF fr] by (simp add: totals_def pushed_def)
  qed
  from assms join create show ?thesis
    by (auto simp: observe_segment_def Let_def not_le split: option.splits if_splits)
qed

lemma observe_segment_config:
  assumes "observe_segment tr seg = Inr tr'"
  shows "config tr' = config tr"
proof -
  have "config (join_instance tr i seg src) = config tr" if i: "i < length (conns tr)" for i src
    by (rule join_shape [OF i, of seg src]) (simp add: frame_def)
  moreover have "config (create_instance tr p seg src dst) = config tr" for p src dst
    by (rule create_frame [of tr p seg src dst]) (simp add: frame_def pushed_def)
  ultimately show ?thesis using assms
    by (auto simp: observe_segment_def Let_def not_le split: option.splits if_splits)
qed

text \<open>Under the fail-fast policy a tick changes nothing and a segment evicts nothing.\<close>

lemma failfast_observe:
  assumes "retention_window (retention (config tr)) = None"
  shows "observe tr (Tick t) = Inr tr"
    and "observe tr (Segment seg) = observe_segment (tr\<lparr>tr_now := max (tr_now tr) (seg_ts seg)\<rparr>) seg"
proof -
  show "observe tr (Tick t) = Inr tr" using assms by (simp add: observe_def observe_tick_def)
  let ?t = "tr\<lparr>tr_now := max (tr_now tr) (seg_ts seg)\<rparr>"
  show "observe tr (Segment seg) = observe_segment ?t seg"
  proof (cases "observe_segment ?t seg")
    case (Inr t1)
    then have "config t1 = config tr" using observe_segment_config by fastforce
    with assms Inr show ?thesis by (simp add: observe_def evict_samples_def)
  qed (simp add: observe_def)
qed

lemma failfast_step:
  assumes "observe tr item = Inr tr'" and "retention_window (retention (config tr)) = None"
  shows "config tr' = config tr"
    and "totals tr' = (fst (totals tr) + seg_count item, snd (totals tr) + item_bytes item)"
proof -
  have "config tr' = config tr
      \<and> totals tr' = (fst (totals tr) + seg_count item, snd (totals tr) + item_bytes item)"
  proof (cases item)
    case (Tick t)
    then show ?thesis using assms failfast_observe(1) [OF assms(2)] by (simp add: totals_def)
  next
    case (Segment seg)
    let ?t = "tr\<lparr>tr_now := max (tr_now tr) (seg_ts seg)\<rparr>"
    have "observe_segment ?t seg = Inr tr'" using assms(1) failfast_observe(2) [OF assms(2)] Segment by simp
    from observe_segment_config [OF this] observe_segment_totals [OF this] show ?thesis
      by (simp add: Segment totals_def)
  qed
  then show "config tr' = config tr"
    "totals tr' = (fst (totals tr) + seg_count item, snd (totals tr) + item_bytes item)" by simp_all
qed

lemma failfast_run:
  assumes "observe_all (tracker_new cfg) items = Inr tr" and "retention_window (retention cfg) = None"
  shows "config tr = cfg"
    and "totals tr = (sum_list (map seg_count items), sum_list (map item_bytes items))"
proof -
  have "config tr = cfg \<and> totals tr = (sum_list (map seg_count items), sum_list (map item_bytes items))"
    using assms(1)
  proof (induction items arbitrary: tr rule: rev_induct)
    case Nil
    then show ?case by (auto simp: observe_all_def tracker_new_def totals_def)
  next
    case (snoc x xs)
    then obtain t where t: "observe_all (tracker_new cfg) xs = Inr t" "observe t x = Inr tr"
      by (auto simp: observe_all_def try_fold_append and_then_Inr_iff)
    with snoc.IH [OF t(1)] assms(2) failfast_step [OF t(2)] show ?case by simp
  qed
  then show "config tr = cfg" "totals tr = (sum_list (map seg_count items), sum_list (map item_bytes items))"
    by simp_all
qed

end
