(* ===== verification/Tracker_Refine.thy ===== *)
theory Tracker_Refine
  imports Tracker_Lifecycle
begin

text \<open>
  What is collected does not matter to the lifecycle: erasing the series, the derived metrics
  and the accounting from a tracker commutes with every item it observes under the fail-fast
  policy, so two trackers that differ only in what they collect report the same connections.
\<close>


section \<open>The lifecycle alone\<close>

text \<open>
  The abstraction: a tracker with every series, every derived metric and the accounting erased,
  and a configuration that collects nothing. It keeps what decides grouping, orientation,
  lifecycle and counters.
\<close>

definition bare :: "conn_track \<Rightarrow> conn_track" where
  "bare c = c\<lparr>ct_metrics := metric_state_new, ct_series := [], ct_states := [], ct_seq := [],
     ct_inflight := [], ct_rtt := [], ct_throughput := [], ct_srtt := (None, None),
     ct_unwrap := (None, None)\<rparr>"

definition lifecycle_config :: "engine_config \<Rightarrow> engine_config" where
  "lifecycle_config cfg =
     engine_config_default\<lparr>dead_after := dead_after cfg, reset_threshold := reset_threshold cfg\<rparr>"

definition erase :: "tracker \<Rightarrow> tracker" where
  "erase tr = tr\<lparr>config := lifecycle_config (config tr), conns := map bare (conns tr),
     collected_samples := 0, overflowed := False\<rparr>"

lemma lifecycle_config_simps [simp]:
  "dead_after (lifecycle_config cfg) = dead_after cfg"
  "reset_threshold (lifecycle_config cfg) = reset_threshold cfg"
  "series_collection (lifecycle_config cfg) = CollectNone"
  "\<not> collect_state_timeline (lifecycle_config cfg)" "\<not> collect_seq_timeline (lifecycle_config cfg)"
  "\<not> collect_inflight_timeline (lifecycle_config cfg)" "\<not> collect_rtt_timeline (lifecycle_config cfg)"
  "\<not> collect_throughput_timeline (lifecycle_config cfg)"
  "retention_window (retention (lifecycle_config cfg)) = None"
  by (simp_all add: lifecycle_config_def engine_config_default_def)

lemma bare_fields [simp]:
  "ct_id (bare c) = ct_id c" "ct_state (bare c) = ct_state c" "ct_origin (bare c) = ct_origin c"
  "ct_last_at (bare c) = ct_last_at c" "ct_view (bare c) = ct_view c" "baseline (bare c) d = baseline c d"
  "direction_of (bare c) src = direction_of c src"
  by (simp_all add: bare_def ct_view_def baseline_def direction_of_def split: direction.splits)

lemma bare_core: "core c' = core c \<Longrightarrow> bare c' = bare c"
  by (simp add: bare_def core_def ct_view_def conn_track.equality)

lemma bare_account: "bare (account c seg dir) = account (bare c) seg dir"
  by (cases dir) (simp_all add: bare_def account_def Let_def)

lemma bare_apply_state: "bare (apply_state c seg dir) = apply_state (bare c) seg dir"
proof -
  have "ct_life (bare c) = ct_life c" by (simp add: ct_life_def bare_def)
  moreover have "bare (with_life c l) = with_life (bare c) l" for l
    by (cases l) (simp add: with_life_def bare_def)
  ultimately show ?thesis by (simp add: apply_state_eq)
qed

lemma erase_frame:
  assumes "frame tr tr'"
  shows "erase tr' = erase tr"
proof -
  have "map bare (conns tr') = map bare (conns tr)"
    by (rule frame_map [OF assms], rule bare_core) (simp add: keeps_def)
  with assms show ?thesis by (simp add: erase_def frame_def)
qed

lemma erase_fields [simp]:
  "length (conns (erase tr)) = length (conns tr)" "live (erase tr) = live tr"
  "next_instance (erase tr) = next_instance tr" "tr_now (erase tr) = tr_now tr"
  "config (erase tr) = lifecycle_config (config tr)"
  "i < length (conns tr) \<Longrightarrow> conns (erase tr) ! i = bare (conns tr ! i)"
  by (simp_all add: erase_def)

lemma erase_silent [simp]: "\<not> wants_observe (erase tr) i"
  by (simp add: wants_observe_def should_collect_def)

lemma erase_should_split:
  "i < length (conns tr) \<Longrightarrow> should_split (erase tr) i seg src = should_split tr i seg src"
  by (simp add: should_split_def Let_def cong: option.case_cong)

lemma erase_join:
  assumes "i < length (conns tr)"
  shows "join_instance (erase tr) i seg src = erase (join_instance tr i seg src)"
proof -
  define dir where "dir = direction_of (conns tr ! i) src"
  obtain tr2 where tr2: "tr2 = upd_conn tr i (\<lambda>c. apply_state (account c seg (direction_of (conns tr ! i) src)) seg
             (direction_of (conns tr ! i) src))"
    and fr: "frame tr2 (join_instance tr i seg src)"
    by (rule join_shape [OF assms, of seg src])
  have "join_instance (erase tr) i seg src =
      upd_conn (upd_conn (erase tr) i (\<lambda>c. account c seg dir)) i (\<lambda>c. apply_state c seg dir)"
    using assms by (simp add: join_instance_def Let_def dir_def wants_observe_def should_collect_def)
  also have "\<dots> = erase tr2"
    using assms
    by (simp add: tr2 dir_def [symmetric] upd_conn_def erase_def map_update bare_apply_state bare_account)
  finally show ?thesis using erase_frame [OF fr] by simp
qed

lemma opened_bare: "bare (opened_track tr p seg src dst) = opened_track tr p seg src dst"
proof -
  have "bare (set_fin c dir) = set_fin (bare c) dir" for c dir
    by (cases dir) (simp_all add: bare_def set_fin_def)
  moreover have "bare (fresh_track p n seg src dst) = fresh_track p n seg src dst" for n
    by (simp add: bare_def fresh_track_def split: prod.splits)
  ultimately show ?thesis
    by (simp add: opened_track_def Let_def bare_account)
qed

lemma erase_create: "create_instance (erase tr) p seg src dst = erase (create_instance tr p seg src dst)"
proof -
  obtain c where c: "core c = core (opened_track tr p seg src dst)"
    and fr: "frame (pushed tr p c) (create_instance tr p seg src dst)"
    by (rule create_frame)
  have eq: "bare c = opened_track tr p seg src dst" using bare_core [OF c] opened_bare by simp
  have same: "opened_track (erase tr) p seg src dst = opened_track tr p seg src dst"
    by (simp add: opened_track_def)
  have "create_instance (erase tr) p seg src dst = pushed (erase tr) p (opened_track (erase tr) p seg src dst)"
    by (simp add: create_instance_def opened_track_def pushed_def Let_def wants_observe_def should_collect_def)
  also have "\<dots> = erase (pushed tr p c)" unfolding same eq [symmetric] by (simp add: pushed_def erase_def)
  finally show ?thesis using erase_frame [OF fr] by simp
qed

lemma erase_now: "erase (tr\<lparr>tr_now := t\<rparr>) = (erase tr)\<lparr>tr_now := t\<rparr>"
  by (simp add: erase_def)

lemma erase_observe_segment: "observe_segment (erase tr) seg = map_sum id erase (observe_segment tr seg)"
  by (auto simp: observe_segment_def Let_def not_le erase_should_split erase_join erase_create
      split: option.splits)

text \<open>The refinement: erasing commutes with every item under the fail-fast policy.\<close>

lemma erase_observe:
  assumes "retention_window (retention (config tr)) = None"
  shows "observe (erase tr) item = map_sum id erase (observe tr item)"
proof (cases item)
  case (Tick t)
  then show ?thesis using failfast_observe(1) [of tr t] failfast_observe(1) [of "erase tr" t] assms by simp
next
  case (Segment seg)
  then show ?thesis
    using failfast_observe(2) [of tr seg] failfast_observe(2) [of "erase tr" seg] assms
      erase_observe_segment [of "tr\<lparr>tr_now := max (tr_now tr) (seg_ts seg)\<rparr>" seg]
    by (simp add: erase_now)
qed

lemma erase_observe_all:
  assumes "retention_window (retention (config tr)) = None"
  shows "observe_all (erase tr) items = map_sum id erase (observe_all tr items)"
  using assms
proof (induction items arbitrary: tr)
  case Nil
  then show ?case by (simp add: observe_all_def)
next
  case (Cons x xs)
  show ?case
  proof (cases "observe tr x")
    case (Inl e)
    then show ?thesis using erase_observe [OF Cons.prems, of x] by (simp add: observe_all_def)
  next
    case (Inr t)
    then show ?thesis
      using erase_observe [OF Cons.prems, of x] failfast_step(1) [OF Inr Cons.prems] Cons.IH [of t] Cons.prems
      by (simp add: observe_all_def)
  qed
qed

lemma erase_connections: "into_connections (erase tr) = into_connections tr"
  by (simp add: into_connections_def erase_def comp_def)

end
