(* ===== verification/Tracker_Properties.thy ===== *)
theory Tracker_Properties
  imports Tracker_Refine "HOL-Library.Multiset"
begin

text \<open>
  What the tracker promises to its callers, as statements about whole captures folded into a
  fresh tracker, and two behaviours of the eviction policy that its comments do not announce.
\<close>


section \<open>A small capture\<close>

definition example_capture :: "item list" where
  "example_capture =
     [Segment (client_seg 1000 100 0 SYN 0),
      Segment (server_seg 2000 500 101 (SYN OR ACK) 0),
      Segment (client_seg 3000 101 501 ACK 10),
      Segment (client_seg 4000 111 501 (FIN OR ACK) 0),
      Segment (server_seg 5000 501 112 (FIN OR ACK) 0)]"

definition timeline_config :: "retention_policy \<Rightarrow> engine_config" where
  "timeline_config r = engine_config_default\<lparr>retention := r, collect_state_timeline := True\<rparr>"

section \<open>The configuration is constant\<close>

lemma observe_config:
  assumes "observe tr item = Inr tr'"
  shows "config tr' = config tr"
proof (cases item)
  case (Segment seg)
  with assms obtain t1 where "observe_segment (tr\<lparr>tr_now := max (tr_now tr) (seg_ts seg)\<rparr>) seg = Inr t1"
      "tr' = evict_samples t1"
    by (auto simp: observe_def and_then_Inr_iff)
  then show ?thesis
    using observe_segment_config frame_config [OF evict_samples_ok(1), of t1] by fastforce
next
  case (Tick t)
  have decay: "config (emit_decay_samples tr t) = config tr" for tr t
    using decay_fold_ok [of "[0..<length (conns tr)]" tr t]
    by (simp add: emit_decay_samples_def frame_config)
  have "config (evict_dead_connections tr) = config tr" for tr
    by (simp add: evict_dead_connections_def Let_def recount_collected_def split: option.splits)
  then show ?thesis
    using assms Tick decay frame_config [OF evict_samples_ok(1)]
    by (auto simp: observe_def observe_tick_def Let_def split: if_splits)
qed

lemma observe_all_config:
  "observe_all (tracker_new cfg) items = Inr tr \<Longrightarrow> config tr = cfg"
proof (induction items arbitrary: tr rule: rev_induct)
  case Nil
  then show ?case by (auto simp: observe_all_def tracker_new_def)
next
  case (snoc x xs)
  then obtain t where t: "observe_all (tracker_new cfg) xs = Inr t" "observe t x = Inr tr"
    by (auto simp: observe_all_def try_fold_append and_then_Inr_iff)
  with snoc.IH observe_config show ?case by fastforce
qed

lemma observe_all_wf:
  assumes "length items < 2 ^ 32" and "observe_all (tracker_new cfg) items = Inr tr"
  shows "wf (length items) tr"
  using observe_all_ok [of items cfg] assms by fastforce

section \<open>Safety\<close>

text \<open>
  Claim C13: folding fewer than 2^32 items into a tracker never indexes outside the connection
  vector, whatever the items and the configuration; afterwards no two connections share an
  identifier, and the live index leads from a pair to a connection of that pair.
\<close>

theorem tracker_never_panics:
  assumes "length items < 2 ^ 32"
  shows "\<exists>tr. observe_all (tracker_new cfg) items = Inr tr
    \<and> distinct (map ct_id (conns tr))
    \<and> (\<forall>p i. live tr p = Some i \<longrightarrow> i < length (conns tr) \<and> id_pair (ct_id (conns tr ! i)) = p)"
proof -
  have "length items \<le> 2 ^ 32 - 1" using assms by simp
  then obtain tr where "observe_all (tracker_new cfg) items = Inr tr" "wf (length items) tr"
    by (rule observe_all_ok)
  then show ?thesis by (auto simp: wf_def wf_index_def)
qed

theorem tracker_never_panics_witness:
  "length example_capture = 5
   \<and> (\<exists>tr. observe_all (tracker_new (timeline_config (Evict 1000 2))) example_capture = Inr tr
        \<and> distinct (map ct_id (conns tr)))"
proof -
  have "length example_capture = 5" by (simp add: example_capture_def)
  with tracker_never_panics [of example_capture "timeline_config (Evict 1000 2)"] show ?thesis by auto
qed

text \<open>
  Claim C15: under the fail-fast policy the counter is exactly the number of samples held, the
  ceiling is never exceeded, and the ceiling error is reported only when the ceiling has been
  reached, with the ceiling as its limit and one more as the sample that did not fit.
\<close>

theorem failfast_ceiling:
  assumes "length items < 2 ^ 32" and "retention cfg = FailFast m"
    and "observe_all (tracker_new cfg) items = Inr tr"
  shows "collected_samples tr = sum_list (map retained (conns tr)) \<and> collected_samples tr \<le> m
    \<and> (\<forall>e. into_timeline tr = Inl e \<longrightarrow> collected_samples tr = m \<and> e = SampleCeiling (m + 1) m)"
proof -
  have cfg: "config tr = cfg" using observe_all_config [OF assms(3)] .
  have "sound tr" using observe_all_wf [OF assms(1,3)] by (simp add: wf_def)
  then show ?thesis using cfg assms(2)
    by (auto simp: sound_def into_timeline_def ceiling_error_def split: if_splits)
qed

theorem failfast_ceiling_witness:
  "map_sum id (\<lambda>tr. (collected_samples tr, case into_timeline tr of Inl e \<Rightarrow> Some e | Inr _ \<Rightarrow> None))
     (observe_all (tracker_new (timeline_config (FailFast 4))) example_capture)
     = Inr (4, Some (SampleCeiling 5 4))"
proof -
  let ?cfg = "timeline_config (FailFast 4)"
  have run: "map_sum id (\<lambda>tr. overflowed tr) (observe_all (tracker_new ?cfg) example_capture) = Inr True"
    by code_simp
  then obtain tr where tr: "observe_all (tracker_new ?cfg) example_capture = Inr tr" "overflowed tr"
    by (cases "observe_all (tracker_new ?cfg) example_capture") auto
  have "length example_capture < 2 ^ 32" by (simp add: example_capture_def)
  from failfast_ceiling [OF this _ tr(1), of 4] tr show ?thesis
    by (auto simp: timeline_config_def into_timeline_def)
qed

text \<open>
  Claim C16: the eviction policy bounds memory, though not by its ceiling. The counter is exactly the number
  of samples held, and it exceeds the ceiling by at most two samples for each tracked connection.
\<close>

theorem evict_memory_bound:
  assumes "length items < 2 ^ 32" and "retention cfg = Evict w m"
    and "observe_all (tracker_new cfg) items = Inr tr"
  shows "collected_samples tr = sum_list (map retained (conns tr))
    \<and> collected_samples tr \<le> m + 2 * length (conns tr) \<and> \<not> overflowed tr"
proof -
  have cfg: "config tr = cfg" using observe_all_config [OF assms(3)] .
  have "sound tr" using observe_all_wf [OF assms(1,3)] by (simp add: wf_def)
  then show ?thesis using cfg assms(2) slack_le [of "conns tr"] by (auto simp: sound_def)
qed

theorem evict_memory_bound_witness:
  "\<exists>tr. observe_all (tracker_new (timeline_config (Evict 1000000 1))) example_capture = Inr tr
     \<and> collected_samples tr \<le> 1 + 2 * length (conns tr)"
proof -
  let ?cfg = "timeline_config (Evict 1000000 1)"
  have len: "length example_capture < 2 ^ 32" by (simp add: example_capture_def)
  then have "length example_capture \<le> 2 ^ 32 - 1" by simp
  then obtain tr where tr: "observe_all (tracker_new ?cfg) example_capture = Inr tr" by (rule observe_all_ok)
  from evict_memory_bound [OF len _ tr, of 1000000 1] tr show ?thesis by (simp add: timeline_config_def)
qed

section \<open>Lifecycle\<close>

text \<open>
  Claim C23: a segment never moves a connection back to an earlier state, a reset is entered from
  every state by a segment with the RST flag, and it is never left.
\<close>

theorem lifecycle_monotone:
  "rank (ct_state c) \<le> rank (ct_state (apply_state c seg dir))
   \<and> (fl_rst (seg_flags seg) \<longrightarrow> ct_state (apply_state c seg dir) = Reset)
   \<and> (ct_state c = Reset \<longrightarrow> ct_state (apply_state c seg dir) = Reset)"
  using apply_state_rank [of c seg dir] apply_state_rst [of seg c dir] apply_state_reset [of seg c dir]
  by (cases "fl_rst (seg_flags seg)") simp_all

definition fresh_example :: conn_track where
  "fresh_example = fresh_track (pair_new (flow_source client_flow) (flow_destination client_flow)) 0
     (client_seg 1000 100 0 SYN 0) (flow_source client_flow) (flow_destination client_flow)"

theorem lifecycle_monotone_witness:
  "ct_state (apply_state fresh_example (server_seg 2000 0 101 (RST OR ACK) 0) R2O) = Reset
   \<and> ct_state (apply_state (fresh_example\<lparr>ct_state := Reset\<rparr>) (client_seg 2000 0 101 ACK 0) O2R) = Reset"
proof -
  have "fl_rst (seg_flags (server_seg 2000 0 101 (RST OR ACK) 0))" by code_simp
  with lifecycle_monotone [of fresh_example "server_seg 2000 0 101 (RST OR ACK) 0" R2O]
    lifecycle_monotone [of "fresh_example\<lparr>ct_state := Reset\<rparr>" "client_seg 2000 0 101 ACK 0" O2R]
  show ?thesis by simp
qed

text \<open>
  Claim C21: without eviction every segment of the capture is counted in exactly one connection:
  the segment counters add up to the number of segments and the byte counters to the payload
  carried, modulo the 64 bits of the counters.
\<close>

theorem segments_counted_once:
  assumes "observe_all (tracker_new cfg) items = Inr tr" and "retention cfg = FailFast m"
  shows "sum_list (map ct_segments (conns tr)) = sum_list (map seg_count items)
    \<and> sum_list (map ct_bytes (conns tr)) = sum_list (map item_bytes items)"
  using failfast_run(2) [OF assms(1)] assms(2) by (simp add: totals_def)

theorem segments_counted_once_witness:
  "map_sum id (\<lambda>tr. (sum_list (map ct_segments (conns tr)), sum_list (map ct_bytes (conns tr))))
     (observe_all (tracker_new engine_config_default) example_capture) = Inr (5, 10)"
proof -
  have "map_sum id (\<lambda>tr. length (conns tr)) (observe_all (tracker_new engine_config_default) example_capture) = Inr 1"
    by code_simp
  then obtain tr where tr: "observe_all (tracker_new engine_config_default) example_capture = Inr tr"
    by (cases "observe_all (tracker_new engine_config_default) example_capture") auto
  have "retention engine_config_default = FailFast 10000000" by (simp add: engine_config_default_def)
  with segments_counted_once [OF tr] tr show ?thesis
    by (simp add: example_capture_def client_seg_def server_seg_def)
qed

section \<open>Reported connections\<close>

lemma track_config_irrelevant:
  assumes "retention cfg = FailFast m" and "retention cfg' = FailFast m'"
    and "dead_after cfg = dead_after cfg'" and "reset_threshold cfg = reset_threshold cfg'"
  shows "track items cfg = track items cfg'"
proof -
  have new: "erase (tracker_new cfg) = tracker_new (lifecycle_config cfg)" for cfg
    by (simp add: erase_def tracker_new_def)
  have "track items cfg = track items (lifecycle_config cfg)" if "retention cfg = FailFast m" for cfg m
    using erase_observe_all [of "tracker_new cfg" items] that
    by (cases "observe_all (tracker_new cfg) items")
      (simp_all add: track_def new erase_connections, simp_all add: tracker_new_def track_def erase_connections)
  moreover have "lifecycle_config cfg = lifecycle_config cfg'"
    using assms(3,4) by (simp add: lifecycle_config_def)
  ultimately show ?thesis using assms(1,2) by metis
qed

text \<open>
  Claim C14: what a replay collects, and its ceiling, do not change which connections it reports
  or anything reported about them: two fail-fast configurations that agree on the idle and the
  reset thresholds report the same connections for every capture.
\<close>

theorem collection_does_not_matter:
  assumes "retention cfg = FailFast m" and "retention cfg' = FailFast m'"
    and "dead_after cfg = dead_after cfg'" and "reset_threshold cfg = reset_threshold cfg'"
  shows "track items cfg = track items cfg'"
  using track_config_irrelevant [OF assms] .

theorem collection_does_not_matter_witness:
  "track example_capture (timeline_config (FailFast 1)) = track example_capture engine_config_default
   \<and> map_sum id (map conn_segments) (track example_capture engine_config_default) = Inr [5]"
proof
  show "track example_capture (timeline_config (FailFast 1)) = track example_capture engine_config_default"
    by (rule collection_does_not_matter [of _ 1 _ 10000000])
      (simp_all add: timeline_config_def engine_config_default_def)
  show "map_sum id (map conn_segments) (track example_capture engine_config_default) = Inr [5]"
    by code_simp
qed

text \<open>
  The report is the tracked connections, each once, strictly ordered by opening time,
  endpoint pair and instance, so the order does not depend on the order of tracking.
\<close>

theorem into_connections_sorted:
  assumes "length items < 2 ^ 32" and "observe_all (tracker_new cfg) items = Inr tr"
  shows "mset (into_connections tr) = mset (map ct_view (conns tr))
    \<and> sorted_wrt (\<lambda>a b. conn_key a < conn_key b) (into_connections tr)"
proof -
  let ?out = "into_connections tr"
  have ms: "mset ?out = mset (map ct_view (conns tr))" by (simp add: into_connections_def)
  have "distinct (map ct_id (conns tr))"
    using observe_all_wf [OF assms] by (simp add: wf_def wf_index_def)
  then have "distinct (map conn_id (map ct_view (conns tr)))" by (simp add: ct_view_def comp_def)
  then have "distinct (map conn_key (map ct_view (conns tr)))"
    by (auto simp: distinct_map inj_on_def conn_key_def conn_id.expand)
  then have "distinct (map conn_key ?out)"
    using ms by (metis mset_eq_imp_distinct_iff mset_map)
  moreover have "sorted (map conn_key ?out)" by (simp add: into_connections_def)
  ultimately have "sorted_wrt (<) (map conn_key ?out)" by (simp add: strict_sorted_iff)
  with ms show ?thesis by (simp add: sorted_wrt_map)
qed

theorem into_connections_sorted_witness:
  "\<exists>tr. observe_all (tracker_new engine_config_default) example_capture = Inr tr
     \<and> length (into_connections tr) = 1 \<and> sorted_wrt (\<lambda>a b. conn_key a < conn_key b) (into_connections tr)"
proof -
  have "map_sum id (\<lambda>tr. length (into_connections tr))
      (observe_all (tracker_new engine_config_default) example_capture) = Inr 1" by code_simp
  then obtain tr where tr: "observe_all (tracker_new engine_config_default) example_capture = Inr tr"
      "length (into_connections tr) = 1"
    by (cases "observe_all (tracker_new engine_config_default) example_capture") auto
  have "length example_capture < 2 ^ 32" by (simp add: example_capture_def)
  from into_connections_sorted [OF this tr(1)] tr show ?thesis by blast
qed

section \<open>Timelines\<close>

lemma all_series_states_ok:
  assumes "wf k tr"
  shows "\<forall>(c, samples, r)\<in>set (all_series tr). \<forall>s\<in>set samples. st_t s \<le> conn_last_at c"
  using assms by (auto simp: all_series_def wf_def wf_states_def states_ok_def ct_view_def)

lemma into_timeline_bounds:
  assumes "length items < 2 ^ 32" and "observe_all (tracker_new cfg) items = Inr tr"
    and "into_timeline tr = Inr tml"
  shows "fst (bounds tml) \<le> snd (bounds tml)
    \<and> (\<forall>x\<in>set (event_times tml). fst (bounds tml) \<le> x \<and> x \<le> snd (bounds tml))"
proof -
  have "tml = with_seq (all_series tr)" using assms(3) by (auto simp: into_timeline_def split: if_splits)
  with with_seq_interval [OF all_series_states_ok [OF observe_all_wf [OF assms(1,2)]]] show ?thesis by simp
qed

text \<open>
  The cursor domain of the timeline a replay produces is an interval and contains every
  event, so a cursor can always be clamped into it.
\<close>

theorem replay_timeline_bounds:
  assumes "length items < 2 ^ 32" and "observe_all (tracker_new cfg) items = Inr tr"
    and "into_timeline tr = Inr tml"
  shows "fst (bounds tml) \<le> snd (bounds tml)
    \<and> (\<forall>x\<in>set (event_times tml). fst (bounds tml) \<le> x \<and> x \<le> snd (bounds tml))"
  using into_timeline_bounds [OF assms] .

theorem replay_timeline_bounds_witness:
  "map_sum id (\<lambda>tr. map_sum id bounds (into_timeline tr))
     (observe_all (tracker_new (timeline_config (FailFast 100))) example_capture) = Inr (Inr (1000, 5000))
   \<and> (1000 :: nanos) \<le> 5000"
proof -
  let ?run = "observe_all (tracker_new (timeline_config (FailFast 100))) example_capture"
  have run: "map_sum id (\<lambda>tr. map_sum id bounds (into_timeline tr)) ?run = Inr (Inr (1000, 5000))" by code_simp
  then obtain tr tml where t: "?run = Inr tr" "into_timeline tr = Inr tml" "bounds tml = (1000, 5000)"
    by (cases ?run; cases "into_timeline (projr ?run)") auto
  have "length example_capture < 2 ^ 32" by (simp add: example_capture_def)
  from replay_timeline_bounds [OF this t(1,2)] t(3) run show ?thesis by simp
qed

section \<open>Two corners of the eviction policy\<close>

definition other_seg :: "nanos \<Rightarrow> segment" where
  "other_seg t = (client_seg t 700 0 SYN 0)\<lparr>seg_flow := client_flow\<lparr>src_port := 40001\<rparr>\<rparr>"

text \<open>
  The ceiling of the eviction policy is not a bound on the samples held. A sample for a
  connection that has nothing to give up is admitted anyway: with a ceiling of one, two
  connections hold one snapshot each.
\<close>

theorem evict_ceiling_exceeded:
  "map_sum id (\<lambda>tr. (collected_samples tr, max_samples (retention (config tr))))
     (observe_all (tracker_new (timeline_config (Evict 1000000 1)))
        [Segment (client_seg 1000 100 0 SYN 0), Segment (other_seg 1001)]) = Inr (2, 1)"
  by code_simp

definition resurrection_capture :: "item list" where
  "resurrection_capture =
     [Segment (client_seg 1000 3000000000 0 ACK 10),
      Segment (client_seg 2000 1000000000 0 ACK 10),
      Segment (client_seg 3000 1000000010 0 RST 0),
      Tick 5000,
      Segment (client_seg 6000 77 0 SYN 0)]"

definition instances_of :: "item list \<Rightarrow> panic + (u32 \<times> u64 \<times> conn_state) list" where
  "instances_of items =
     map_sum id (\<lambda>tr. map (\<lambda>c. (id_instance (ct_id c), ct_segments c, ct_state c)) (conns tr))
       (observe_all (tracker_new (timeline_config (Evict 1000 100))) items)"

text \<open>
  Evicting a dead instance can bring a superseded one back to life. The backward jump of
  the sequence number opens instance 1 beside the established instance 0; after instance 1 is
  reset and evicted, the rebuilt index leads to instance 0 again, and the SYN of the next
  connection of the pair is folded into it. Without the tick between, the SYN opens instance 2.
\<close>

theorem superseded_instance_revived:
  "instances_of (take 3 resurrection_capture) = Inr [(0, 1, Established), (1, 2, Reset)]
   \<and> instances_of resurrection_capture = Inr [(0, 2, Established)]
   \<and> instances_of (take 3 resurrection_capture @ drop 4 resurrection_capture)
       = Inr [(0, 1, Established), (1, 2, Reset), (2, 1, SynSent)]"
  (is "?a \<and> ?b \<and> ?c")
proof (intro conjI)
  show ?a by code_simp
  show ?b by code_simp
  show ?c by code_simp
qed

end
