(* ===== verification/Tracker_History.thy ===== *)
theory Tracker_History
  imports Tracker_Properties "HOL-Library.Sublist"
begin

text \<open>
  Where the state of a tracked connection comes from. Every connection is the account of a
  subsequence of the captured segments: its counters are theirs, it is closed by the FINs among them
  and reset by a RST. With segments in the order of their times, the last snapshot of a connection is
  what the connection is, so that the live view shows the present.
\<close>

section \<open>Histories\<close>

text \<open>
  A connection as the account of a list of segments: what is counted, and how it lived. A RST
  resets, except in a first segment with a SYN, which opens the connection. The FINs
  of a side are remembered until a reset.
\<close>

abbreviation seg_source :: "segment \<Rightarrow> endpoint" where
  "seg_source seg \<equiv> flow_source (seg_flow seg)"

abbreviation seg_pair :: "segment \<Rightarrow> endpoint_pair" where
  "seg_pair seg \<equiv> pair_new (flow_source (seg_flow seg)) (flow_destination (seg_flow seg))"

definition reset_by :: "segment list \<Rightarrow> bool" where
  "reset_by segs \<longleftrightarrow> fl_rst (seg_flags (hd segs)) \<and> \<not> fl_syn (seg_flags (hd segs))
     \<or> (\<exists>seg\<in>set (tl segs). fl_rst (seg_flags seg))"

definition payload_sum :: "segment list \<Rightarrow> u64" where
  "payload_sum segs = sum_list (map (\<lambda>seg. ucast (payload_len seg)) segs)"

definition fin_from :: "(endpoint \<Rightarrow> bool) \<Rightarrow> segment list \<Rightarrow> bool" where
  "fin_from side segs \<longleftrightarrow> (\<exists>seg\<in>set segs. side (seg_source seg) \<and> fl_fin (seg_flags seg))"

definition counted :: "segment list \<Rightarrow> conn_track \<Rightarrow> bool" where
  "counted segs c \<longleftrightarrow>
     segs \<noteq> [] \<and> (\<forall>seg\<in>set segs. seg_pair seg = id_pair (ct_id c))
     \<and> ct_origin c = (if is_syn_ack (seg_flags (hd segs)) then flow_destination (seg_flow (hd segs)) else seg_source (hd segs))
     \<and> ct_opened_at c = seg_ts (hd segs) \<and> ct_last_at c \<in> seg_ts ` set segs
     \<and> ct_segments c = of_nat (length segs)
     \<and> ct_bytes_o2r c = payload_sum (filter (\<lambda>seg. seg_source seg = ct_origin c) segs)
     \<and> ct_bytes_r2o c = payload_sum (filter (\<lambda>seg. seg_source seg \<noteq> ct_origin c) segs)"

definition lived :: "segment list \<Rightarrow> conn_track \<Rightarrow> bool" where
  "lived segs c \<longleftrightarrow>
     (ct_state c = Reset \<longleftrightarrow> reset_by segs)
     \<and> (reset_by segs \<or> (ct_fin_o2r c \<longleftrightarrow> fin_from (\<lambda>e. e = ct_origin c) segs)
                        \<and> (ct_fin_r2o c \<longleftrightarrow> fin_from (\<lambda>e. e \<noteq> ct_origin c) segs))"

definition history :: "segment list \<Rightarrow> conn_track \<Rightarrow> bool" where
  "history segs c \<longleftrightarrow> counted segs c \<and> lived segs c"

lemma history_core:
  assumes "core c' = core c" and "history segs c"
  shows "history segs c'"
proof -
  have "ct_segments c' = ct_segments c" "ct_bytes_o2r c' = ct_bytes_o2r c" "ct_bytes_r2o c' = ct_bytes_r2o c"
    using assms(1) by (simp_all add: core_def ct_view_def)
  note same = this core_eqD [OF assms(1)]
  from assms(2) show ?thesis unfolding history_def counted_def lived_def same .
qed

lemma history_opened:
  assumes "p = seg_pair seg"
  shows "history [seg] (opened_track tr p seg (seg_source seg) (flow_destination (seg_flow seg)))"
  using assms unfolding history_def counted_def lived_def opened_track_def fresh_track_def Let_def
  by (auto simp: classify_open_def set_fin_def account_def direction_of_def reset_by_def payload_sum_def fin_from_def
      is_syn_ack_def is_bare_syn_def split: if_splits direction.splits)

lemma history_joined:
  assumes h: "history segs c" and p: "seg_pair seg = id_pair (ct_id c)"
    and dir: "dir = direction_of c (seg_source seg)"
  shows "history (segs @ [seg]) (apply_state (account c seg dir) seg dir)"
  unfolding history_def
proof
  have ne: "segs \<noteq> []" using h by (simp add: history_def counted_def)
  have bytes: "ct_bytes_o2r (account c seg dir) = ct_bytes_o2r c + (if seg_source seg = ct_origin c then ucast (payload_len seg) else 0)"
    "ct_bytes_r2o (account c seg dir) = ct_bytes_r2o c + (if seg_source seg \<noteq> ct_origin c then ucast (payload_len seg) else 0)"
    by (auto simp: account_def dir direction_of_def Let_def)
  show "counted (segs @ [seg]) (apply_state (account c seg dir) seg dir)"
    using h p ne by (auto simp: history_def counted_def apply_state_eq bytes payload_sum_def max_def)
  have r: "reset_by (segs @ [seg]) \<longleftrightarrow> reset_by segs \<or> fl_rst (seg_flags seg)"
    using ne by (auto simp: reset_by_def)
  have f: "fin_from side (segs @ [seg]) \<longleftrightarrow> fin_from side segs \<or> side (seg_source seg) \<and> fl_fin (seg_flags seg)" for side
    by (auto simp: fin_from_def)
  have d: "dir = O2R \<longleftrightarrow> seg_source seg = ct_origin c" "dir = R2O \<longleftrightarrow> seg_source seg \<noteq> ct_origin c"
    by (simp_all add: dir direction_of_def)
  obtain s fo fr where l: "ct_life (account c seg dir) = (s, fo, fr)" by (cases "ct_life (account c seg dir)")
  then have l': "ct_state c = s" "ct_fin_o2r c = fo" "ct_fin_r2o c = fr" by (simp_all add: ct_life_def)
  obtain s' fo' fr' where n: "life_next seg dir (s, fo, fr) = (s', fo', fr')" by (cases "life_next seg dir (s, fo, fr)")
  have "ct_life (apply_state (account c seg dir) seg dir) = (s', fo', fr')" by (simp add: apply_state_eq l n)
  then have a: "ct_state (apply_state (account c seg dir) seg dir) = s'" "ct_fin_o2r (apply_state (account c seg dir) seg dir) = fo'"
    "ct_fin_r2o (apply_state (account c seg dir) seg dir) = fr'" by (simp_all add: ct_life_def)
  have adv: "advance_to x Closed = Reset \<longleftrightarrow> x = Reset" "advance_to x FinWait = Reset \<longleftrightarrow> x = Reset" for x
    by (cases x; simp add: advance_to_def)+
  show "lived (segs @ [seg]) (apply_state (account c seg dir) seg dir)"
    using h n unfolding lived_def history_def a r f
    by (auto simp: life_next_def l' d handshake_facts adv Let_def split: if_splits)
qed

text \<open>Every connection after a segment is one of before, one of the segment's pair with it folded in, or new.\<close>

lemma frame_set:
  assumes "frame tr tr'" and "c' \<in> set (conns tr')"
  obtains c where "c \<in> set (conns tr)" and "core c' = core c"
proof -
  from assms(2) frame_length [OF assms(1)] obtain i where i: "i < length (conns tr)" "c' = conns tr' ! i"
    by (auto simp: in_set_conv_nth)
  with frame_nth [OF assms(1) i(1)] that [of "conns tr ! i"] show thesis by (simp add: keeps_def)
qed

lemma observe_segment_conns:
  assumes "observe_segment tr seg = Inr tr'" and "wf_index k tr" and "c' \<in> set (conns tr')"
  shows "(\<exists>c\<in>set (conns tr). core c' = core c)
    \<or> (\<exists>c\<in>set (conns tr). id_pair (ct_id c) = seg_pair seg
        \<and> core c' = core (apply_state (account c seg (direction_of c (seg_source seg))) seg (direction_of c (seg_source seg))))
    \<or> core c' = core (opened_track tr (seg_pair seg) seg (seg_source seg) (flow_destination (seg_flow seg)))"
proof -
  let ?src = "seg_source seg" and ?dst = "flow_destination (seg_flow seg)" and ?p = "seg_pair seg"
  have "(\<exists>i. live tr ?p = Some i \<and> i < length (conns tr) \<and> tr' = join_instance tr i seg ?src)
      \<or> tr' = create_instance tr ?p seg ?src ?dst"
    using assms(1) by (auto simp: observe_segment_def Let_def not_le split: option.splits if_splits)
  then show ?thesis
  proof (elim disjE exE conjE)
    fix i assume i: "live tr ?p = Some i" "i < length (conns tr)" and tr': "tr' = join_instance tr i seg ?src"
    let ?c = "conns tr ! i"
    obtain tr2 where tr2: "tr2 = upd_conn tr i (\<lambda>c. apply_state (account c seg (direction_of ?c ?src)) seg (direction_of ?c ?src))"
      and fr: "frame tr2 tr'"
      unfolding tr' by (rule join_shape [OF i(2), of seg ?src])
    from frame_set [OF fr assms(3)] obtain c where c: "c \<in> set (conns tr2)" "core c' = core c" .
    then have "c \<in> set (conns tr) \<or> c = apply_state (account ?c seg (direction_of ?c ?src)) seg (direction_of ?c ?src)"
      using set_update_subset_insert [of "conns tr" i] by (auto simp: tr2 upd_conn_def)
    moreover have "id_pair (ct_id ?c) = ?p" using assms(2) i(1) by (simp add: wf_index_def)
    ultimately show ?thesis using c(2) i(2) nth_mem [OF i(2)] by metis
  next
    assume tr': "tr' = create_instance tr ?p seg ?src ?dst"
    obtain d where d: "core d = core (opened_track tr ?p seg ?src ?dst)" and fr: "frame (pushed tr ?p d) tr'"
      unfolding tr' by (rule create_frame)
    from frame_set [OF fr assms(3)] obtain c where "c \<in> set (conns (pushed tr ?p d))" "core c' = core c" .
    then show ?thesis using d by (auto simp: pushed_def)
  qed
qed

text \<open>The connections after a tick are some of those before.\<close>

lemma observe_tick_conns:
  assumes "c' \<in> set (conns (observe_tick tr t))"
  obtains c where "c \<in> set (conns tr)" and "core c' = core c"
proof -
  define t1 where "t1 = tr\<lparr>tr_now := max (tr_now tr) t\<rparr>"
  define t3 where "t3 = evict_samples (emit_decay_samples t1 (tr_now t1))"
  have "frame t1 (emit_decay_samples t1 (tr_now t1))"
    using decay_fold_ok [of "[0..<length (conns t1)]" t1 "tr_now t1"] by (simp add: emit_decay_samples_def)
  then have fr: "frame t1 t3" unfolding t3_def by (rule frame_trans [OF _ evict_samples_ok(1)])
  have "set (conns (evict_dead_connections t3)) \<subseteq> set (conns t3)"
    by (auto simp: evict_dead_connections_def Let_def recount_collected_def split: option.splits)
  then have "c' \<in> set (conns tr) \<or> c' \<in> set (conns t3)"
    using assms by (auto simp: observe_tick_def t3_def t1_def Let_def split: if_splits)
  then show thesis using that frame_set [OF fr, of c'] by (auto simp: t1_def)
qed

lemma observe_history:
  assumes "\<forall>c\<in>set (conns tr). \<exists>segs. subseq (map Segment segs) items \<and> history segs c"
    and "wf_index k tr" and "observe tr item = Inr tr'" and "c' \<in> set (conns tr')"
  shows "\<exists>segs. subseq (map Segment segs) (items @ [item]) \<and> history segs c'"
proof -
  have old: "\<exists>segs. subseq (map Segment segs) (items @ [item]) \<and> history segs c'"
    if "c \<in> set (conns tr)" "core c' = core c" for c
    using assms(1) that history_core by (metis list_emb_append2 list_emb_prefix)
  show ?thesis
  proof (cases item)
    case (Tick t)
    then have "c' \<in> set (conns (observe_tick tr t))" using assms(3,4) by (simp add: observe_def)
    then show ?thesis by (rule observe_tick_conns) (rule old)
  next
    case (Segment seg)
    let ?t = "tr\<lparr>tr_now := max (tr_now tr) (seg_ts seg)\<rparr>"
    from assms(3) Segment obtain t1 where t1: "observe_segment ?t seg = Inr t1" "tr' = evict_samples t1"
      by (auto simp: observe_def and_then_Inr_iff)
    have wf: "wf_index k ?t" using assms(2) by (auto simp: wf_index_def max_def dest: order_trans)
    obtain d where d: "d \<in> set (conns t1)" "core c' = core d"
      using frame_set [OF evict_samples_ok(1) [of t1]] assms(4) t1(2) by metis
    from observe_segment_conns [OF t1(1) wf d(1)] show ?thesis
    proof (elim disjE bexE conjE)
      fix c assume "c \<in> set (conns ?t)" "core d = core c"
      then show ?thesis using old d(2) by simp
    next
      fix c assume c: "c \<in> set (conns ?t)" "id_pair (ct_id c) = seg_pair seg"
        "core d = core (apply_state (account c seg (direction_of c (seg_source seg))) seg (direction_of c (seg_source seg)))"
      then obtain segs where s: "subseq (map Segment segs) items" "history segs c" using assms(1) by auto
      have "history (segs @ [seg]) c'"
        using history_core [OF _ history_joined [OF s(2) c(2) [symmetric] refl]] c(3) d(2) by metis
      moreover have "subseq (map Segment (segs @ [seg])) (items @ [item])"
        using s(1) Segment by (simp add: list_emb_append_mono)
      ultimately show ?thesis by blast
    next
      assume "core d = core (opened_track ?t (seg_pair seg) seg (seg_source seg) (flow_destination (seg_flow seg)))"
      then have "history [seg] c'" using history_core [OF _ history_opened [OF refl]] d(2) by metis
      moreover have "subseq (map Segment [seg]) (items @ [item])" by (simp add: Segment subseq_singleton_left)
      ultimately show ?thesis by blast
    qed
  qed
qed

lemma run_history:
  assumes "length items < 2 ^ 32" and "observe_all (tracker_new cfg) items = Inr tr"
  shows "\<forall>c\<in>set (conns tr). \<exists>segs. subseq (map Segment segs) items \<and> history segs c"
  using assms
proof (induction items arbitrary: tr rule: rev_induct)
  case Nil
  then show ?case by (auto simp: observe_all_def tracker_new_def)
next
  case (snoc x xs)
  then obtain t where t: "observe_all (tracker_new cfg) xs = Inr t" "observe t x = Inr tr"
    by (auto simp: observe_all_def try_fold_append and_then_Inr_iff)
  have len: "length xs < 2 ^ 32" using snoc.prems(1) by simp
  have "wf_index (length xs) t" using observe_all_wf [OF len t(1)] by (simp add: wf_def)
  with observe_history [OF snoc.IH [OF len t(1)] _ t(2)] show ?case by blast
qed



section \<open>Snapshots are up to date\<close>

text \<open>Every connection has a snapshot, and its last one is what it is at its last activity.\<close>

definition fresh :: "conn_track \<Rightarrow> bool" where
  "fresh c \<longleftrightarrow> ct_states c \<noteq> [] \<and> last (ct_states c) = ct_snapshot c (ct_last_at c)"

lemma fresh_keeps:
  assumes "fresh c" and "core c' = core c" and "trims c c'"
  shows "fresh c'"
proof -
  have "last (ct_states c') = last (ct_states c)"
    using assms(1,3) by (auto simp: trims_def fresh_def)
  moreover have "ct_snapshot c' (ct_last_at c') = ct_snapshot c (ct_last_at c)"
    using assms(2) by (simp add: core_def ct_view_def ct_snapshot_def)
  ultimately show ?thesis using assms by (simp add: fresh_def trims_def)
qed

definition all_fresh :: "nat set \<Rightarrow> tracker \<Rightarrow> bool" where
  "all_fresh J tr \<longleftrightarrow> (\<forall>j<length (conns tr). j \<notin> J \<longrightarrow> fresh (conns tr ! j))"

lemma all_fresh_frame:
  assumes "all_fresh J tr" and "frame tr tr'" and "calm tr tr'"
  shows "all_fresh J tr'"
  unfolding all_fresh_def
proof (intro allI impI)
  fix j assume "j < length (conns tr')" "j \<notin> J"
  then have j: "j < length (conns tr)" using frame_length [OF assms(2)] by simp
  with assms(1) \<open>j \<notin> J\<close> have "fresh (conns tr ! j)" by (simp add: all_fresh_def)
  then show "fresh (conns tr' ! j)"
    by (rule fresh_keeps) (use frame_nth [OF assms(2) j] assms(3) j in
      \<open>simp_all add: keeps_def calm_def list_all2_nthD\<close>)
qed

lemma all_fresh_record:
  assumes "all_fresh (insert i J) tr" and i: "i < length (conns tr)" and "ct_last_at (conns tr ! i) = t"
    and "retention (config tr) = Evict w m" and "\<not> overflowed tr"
  shows "all_fresh J (record_state tr i (ct_snapshot (conns tr ! i) t))"
proof -
  obtain tr1 ok where adm: "admit tr i = (tr1, ok)" by (cases "admit tr i")
  have ok: "ok" using adm assms(4) by (auto simp: admit_def Let_def split: if_splits)
  have fr: "frame tr tr1" "calm tr tr1" using admit_frame [OF i] calm_admit [of tr i] adm by simp_all
  have eq: "record_state tr i x = upd_conn tr1 i (\<lambda>c. c\<lparr>ct_states := ct_states c @ [x]\<rparr>)" for x
    using assms(5) ok by (simp add: record_store store_def adm)
  have i1: "i < length (conns tr1)" using frame_length [OF fr(1)] i by simp
  have "core (conns tr1 ! i) = core (conns tr ! i)" using frame_nth [OF fr(1) i] by (simp add: keeps_def)
  then have "ct_snapshot (conns tr1 ! i) t = ct_snapshot (conns tr ! i) t" "ct_last_at (conns tr1 ! i) = t"
    using assms(3) by (simp_all add: core_def ct_view_def ct_snapshot_def)
  then have "fresh ((conns tr1 ! i)\<lparr>ct_states := ct_states (conns tr1 ! i) @ [ct_snapshot (conns tr ! i) t]\<rparr>)"
    by (simp add: fresh_def ct_snapshot_def)
  then show ?thesis using all_fresh_frame [OF assms(1) fr] i1
    unfolding eq by (auto simp: all_fresh_def upd_conn_def nth_list_update)
qed

lemma all_fresh_set: "all_fresh {} tr \<longleftrightarrow> (\<forall>c\<in>set (conns tr). fresh c)"
  by (simp add: all_fresh_def all_set_conv_all_nth)

lemma all_fresh_join:
  assumes "all_fresh {} tr" and i: "i < length (conns tr)" and "ct_last_at (conns tr ! i) \<le> seg_ts seg"
    and "collect_state_timeline (config tr)" and "retention (config tr) = Evict w m" and "\<not> overflowed tr"
  shows "all_fresh {} (join_instance tr i seg src)"
proof -
  obtain tr2 tr3 where
    tr2: "tr2 = upd_conn tr i (\<lambda>c. apply_state (account c seg (direction_of (conns tr ! i) src)) seg
             (direction_of (conns tr ! i) src))"
    and tr3: "tr3 = (if collect_state_timeline (config tr)
           then record_state tr2 i (ct_snapshot (conns tr2 ! i) (seg_ts seg)) else tr2)"
    and fr: "frame tr3 (join_instance tr i seg src)" "calm tr3 (join_instance tr i seg src)"
    by (rule join_split [OF i, of seg src])
  have "all_fresh {i} tr2" using assms(1) by (auto simp: tr2 all_fresh_def upd_conn_def nth_list_update)
  moreover have "ct_last_at (conns tr2 ! i) = seg_ts seg"
    using i assms(3) by (simp add: tr2 upd_conn_def max_def)
  moreover have "config tr2 = config tr" "overflowed tr2 = overflowed tr" "i < length (conns tr2)"
    using i by (simp_all add: tr2)
  ultimately have "all_fresh {} tr3" unfolding tr3 using assms(4-6) by (simp add: all_fresh_record)
  then show ?thesis by (rule all_fresh_frame [OF _ fr])
qed

lemma all_fresh_create:
  assumes "all_fresh {} tr" and "sound tr"
    and "collect_state_timeline (config tr)" and ev: "retention (config tr) = Evict w m"
  shows "all_fresh {} (create_instance tr p seg src dst)"
proof -
  obtain c tr2 where c: "keeps (opened_track tr p seg src dst) c" "retained c = 0"
    and fr: "frame (pushed tr p c) tr2" and snd: "sound (pushed tr p c) \<longrightarrow> sound tr2" and cl: "calm (pushed tr p c) tr2"
    and eq: "create_instance tr p seg src dst =
       (if collect_state_timeline (config tr2)
        then record_state tr2 (length (conns tr)) (ct_snapshot (conns tr2 ! length (conns tr)) (seg_ts seg))
        else tr2)"
    by (rule create_shape [of tr p seg src dst])
  have cfg: "config tr2 = config tr" using frame_config [OF fr] by (simp add: pushed_def)
  have i2: "length (conns tr) < length (conns tr2)" using frame_length [OF fr] by (simp add: pushed_def)
  have "ct_last_at (conns tr2 ! length (conns tr)) = seg_ts seg"
    using keepsD(3) [OF frame_nth [OF fr]] keepsD(3) [OF c(1)] by (simp add: pushed_def nth_append)
  moreover have "sound tr2" using snd assms(2) c(2) sound_push [of tr c] by (simp add: pushed_def)
  then have "\<not> overflowed tr2" using ev cfg by (auto simp: sound_def)
  moreover have "all_fresh {length (conns tr)} (pushed tr p c)"
    using assms(1) by (auto simp: all_fresh_def pushed_def nth_append less_Suc_eq)
  from all_fresh_frame [OF this fr cl] have "all_fresh {length (conns tr)} tr2" .
  ultimately show ?thesis unfolding eq using assms(3) ev cfg i2 by (simp add: all_fresh_record)
qed

lemma observe_fresh:
  assumes "all_fresh {} tr" and wf: "wf k tr" and "observe tr item = Inr tr'"
    and cfg: "collect_state_timeline (config tr)" "retention (config tr) = Evict w m"
    and late: "\<And>seg c. item = Segment seg \<Longrightarrow> c \<in> set (conns tr) \<Longrightarrow> ct_last_at c \<le> seg_ts seg"
  shows "all_fresh {} tr'"
proof (cases item)
  case (Segment seg)
  let ?t = "tr\<lparr>tr_now := max (tr_now tr) (seg_ts seg)\<rparr>"
  from assms(3) Segment obtain t1 where t1: "observe_segment ?t seg = Inr t1" "tr' = evict_samples t1"
    by (auto simp: observe_def and_then_Inr_iff)
  have t: "all_fresh {} ?t" "sound ?t" "\<not> overflowed ?t"
    using assms(1) wf cfg by (auto simp: all_fresh_def wf_def sound_def)
  have "ct_last_at (conns ?t ! i) \<le> seg_ts seg" if "i < length (conns ?t)" for i
    using late [OF Segment] that by simp
  with t cfg t1(1) have "all_fresh {} t1"
    by (auto simp: observe_segment_def Let_def not_le all_fresh_join all_fresh_create split: option.splits if_splits)
  then show ?thesis unfolding t1(2) by (rule all_fresh_frame [OF _ evict_samples_ok(1) calm_evict_samples])
next
  case (Tick t)
  define t1 where "t1 = tr\<lparr>tr_now := max (tr_now tr) t\<rparr>"
  define t3 where "t3 = evict_samples (emit_decay_samples t1 (tr_now t1))"
  have "frame t1 (emit_decay_samples t1 (tr_now t1))"
    using decay_fold_ok [of "[0..<length (conns t1)]" t1 "tr_now t1"] by (simp add: emit_decay_samples_def)
  then have "frame t1 t3" unfolding t3_def by (rule frame_trans [OF _ evict_samples_ok(1)])
  moreover have "calm t1 t3" unfolding t3_def by (rule calm_trans [OF calm_emit_decay calm_evict_samples])
  moreover have "all_fresh {} t1" using assms(1) by (simp add: t1_def all_fresh_def)
  ultimately have "all_fresh {} t3" by (metis all_fresh_frame)
  moreover have "set (conns (evict_dead_connections t3)) \<subseteq> set (conns t3)"
    by (auto simp: evict_dead_connections_def Let_def recount_collected_def split: option.splits)
  moreover have "tr' = tr \<or> tr' = evict_dead_connections t3"
    using assms(3) Tick by (auto simp: observe_def observe_tick_def t3_def t1_def Let_def split: if_splits)
  ultimately show ?thesis using assms(1) by (auto simp: all_fresh_set)
qed

text \<open>The times of the segments, in the order they were captured.\<close>

definition segment_times :: "item list \<Rightarrow> nanos list" where
  "segment_times items = [seg_ts seg. Segment seg \<leftarrow> items]"

lemma segment_times_append: "segment_times (xs @ ys) = segment_times xs @ segment_times ys"
  by (simp add: segment_times_def)

lemma run_last_at:
  assumes "length items < 2 ^ 32" and "observe_all (tracker_new cfg) items = Inr tr" and "c \<in> set (conns tr)"
  shows "ct_last_at c \<in> set (segment_times items)"
proof -
  from run_history [OF assms(1,2)] assms(3) obtain segs where s: "subseq (map Segment segs) items" "history segs c" by blast
  then obtain seg where "seg \<in> set segs" "ct_last_at c = seg_ts seg" by (auto simp: history_def counted_def)
  moreover from this(1) s(1) have "Segment seg \<in> set items" using list_emb_set [of "(=)" "map Segment segs" items] by auto
  ultimately show ?thesis by (force simp: segment_times_def)
qed

lemma run_fresh:
  assumes "length items < 2 ^ 32" and "observe_all (tracker_new cfg) items = Inr tr"
    and "collect_state_timeline cfg" and "retention cfg = Evict w m" and "sorted (segment_times items)"
  shows "all_fresh {} tr"
  using assms(1,2,5)
proof (induction items arbitrary: tr rule: rev_induct)
  case Nil
  then show ?case by (auto simp: observe_all_def tracker_new_def all_fresh_def)
next
  case (snoc x xs)
  then obtain t where t: "observe_all (tracker_new cfg) xs = Inr t" "observe t x = Inr tr"
    by (auto simp: observe_all_def try_fold_append and_then_Inr_iff)
  have len: "length xs < 2 ^ 32" using snoc.prems(1) by simp
  have srt: "sorted (segment_times xs)" using snoc.prems(3) by (simp add: segment_times_append sorted_append)
  have "ct_last_at c \<le> seg_ts seg" if "x = Segment seg" "c \<in> set (conns t)" for seg c
    using run_last_at [OF len t(1) that(2)] snoc.prems(3) that(1)
    by (simp add: segment_times_append sorted_append segment_times_def [of "[Segment seg]"])
  with observe_fresh [OF snoc.IH [OF len t(1) srt] observe_all_wf [OF len t(1)] t(2)] observe_all_config [OF t(1)] assms(3,4)
  show ?case by blast
qed

lemma as_of_ref_last:
  "xs \<noteq> [] \<Longrightarrow> \<forall>x\<in>set xs. key x \<le> key (last xs) \<Longrightarrow> key (last xs) \<le> t \<Longrightarrow> as_of_ref key t xs = Some (last xs)"
proof (induction xs)
  case (Cons x xs)
  then show ?case by (cases "xs = []") auto
qed simp

text \<open>What the live view shows of the connections, one row each.\<close>

definition shown_rows :: "tracker \<Rightarrow> conn_id \<Rightarrow> as_of list" where
  "shown_rows tr i = filter (\<lambda>a. ao_id a = i) (resolve_at (snapshot tr) (tr_now tr))"

lemma filter_map_filter_distinct:
  assumes "distinct (map key xs)" and "x \<in> set xs" and "\<And>y a. y \<in> set xs \<Longrightarrow> f y = Some a \<Longrightarrow> k a = key y"
  shows "filter (\<lambda>a. k a = key x) (List.map_filter f xs) = (case f x of None \<Rightarrow> [] | Some a \<Rightarrow> [a])"
  using assms
proof (induction xs)
  case (Cons y ys)
  have none: "filter (\<lambda>a. k a = key y) (List.map_filter f ys) = []"
    unfolding filter_empty_conv
  proof
    fix a assume "a \<in> set (List.map_filter f ys)"
    then obtain z where z: "z \<in> set ys" "f z = Some a" by (auto simp: List.map_filter_def)
    have "key y \<notin> key ` set ys" using Cons.prems(1) by simp
    with z have "k a = key z" "key z \<noteq> key y" using Cons.prems(3) by (auto, metis imageI)
    then show "k a \<noteq> key y" by simp
  qed
  show ?case
  proof (cases "x = y")
    case True
    then show ?thesis using none Cons.prems(3) [of y] by (auto simp: List.map_filter_simps split: option.split)
  next
    case False
    then have x: "x \<in> set ys" using Cons.prems(2) by simp
    then have "key y \<noteq> key x" using Cons.prems(1) by auto
    then have "f y = Some a \<Longrightarrow> k a \<noteq> key x" for a using Cons.prems(3) [of y a] by simp
    moreover have "filter (\<lambda>a. k a = key x) (List.map_filter f ys) = (case f x of None \<Rightarrow> [] | Some a \<Rightarrow> [a])"
      using Cons.IH [OF _ x] Cons.prems(1,3) by simp
    ultimately show ?thesis by (cases "f y") (simp_all add: List.map_filter_simps)
  qed
qed simp

lemma shown_rows_resolved:
  assumes "wf k tr" and "c \<in> set (conns tr)" and "\<not> is_terminal (ct_state c)" and "ct_states c \<noteq> []"
  shows "\<exists>s. as_of_ref st_t (tr_now tr) (ct_states c) = Some s
    \<and> shown_rows tr (ct_id c) =
        [\<lparr>ao_id = ct_id c, ao_state = st_state s, ao_bytes_o2r = st_bytes_o2r s, ao_bytes_r2o = st_bytes_r2o s\<rparr>]"
proof -
  have times: "ct_opened_at c \<le> ct_last_at c" "ct_last_at c \<le> tr_now tr"
    using assms(1,2) by (auto simp: wf_def wf_index_def)
  have "\<forall>s\<in>set (ct_states c). st_t s \<le> tr_now tr"
    using assms(1,2) times(2) by (fastforce simp: wf_def wf_states_def states_ok_def)
  with assms(4) obtain s where s: "as_of_ref st_t (tr_now tr) (ct_states c) = Some s"
    by (cases "as_of_ref st_t (tr_now tr) (ct_states c)") (auto simp: as_of_ref_None neq_Nil_conv)
  let ?cs = "\<lambda>c. (ct_view c, ct_states c, ct_seq c, ct_inflight c, ct_rtt c, ct_throughput c)"
  let ?f = "resolve_ref (tr_now tr) (tr_now tr)"
  have "distinct (map (\<lambda>x. conn_id (fst x)) (all_series tr))"
    using assms(1) by (simp add: wf_def wf_index_def all_series_def comp_def ct_view_def)
  moreover have "?cs c \<in> set (all_series tr)" using assms(2) by (auto simp: all_series_def)
  moreover have "ao_id a = conn_id (fst y)" if "?f y = Some a" for y a
    using that by (auto simp: resolve_ref_def split: prod.splits if_splits)
  ultimately have "shown_rows tr (ct_id c) = (case ?f (?cs c) of None \<Rightarrow> [] | Some a \<Rightarrow> [a])"
    using filter_map_filter_distinct [of "\<lambda>x. conn_id (fst x)" "all_series tr" "?cs c" ?f ao_id]
    by (simp add: shown_rows_def snapshot_def resolve_at_built ct_view_def)
  then show ?thesis using s times assms(3)
    by (auto simp: resolve_ref_def effective_end_of_def ct_view_def)
qed

text \<open>
  Claim C20: the live view misses no open connection and shows the present. While states are
  collected under the eviction policy, the snapshot resolves every connection that is neither closed
  nor reset to exactly one row at the tracker's present; and if the segments were captured in the
  order of their times, the row has the current state and the current byte counts of both sides.
\<close>

theorem live_snapshot_current:
  assumes "length items < 2 ^ 32" and "observe_all (tracker_new cfg) items = Inr tr"
    and "retention cfg = Evict w m" and "collect_state_timeline cfg"
    and "c \<in> set (conns tr)" and "\<not> is_terminal (ct_state c)"
  shows "length (shown_rows tr (ct_id c)) = 1
    \<and> (sorted (segment_times items) \<longrightarrow> shown_rows tr (ct_id c) =
        [\<lparr>ao_id = ct_id c, ao_state = ct_state c, ao_bytes_o2r = ct_bytes_o2r c, ao_bytes_r2o = ct_bytes_r2o c\<rparr>])"
proof -
  have cfg: "config tr = cfg" using observe_all_config [OF assms(2)] .
  have wf: "wf (length items) tr" using observe_all_wf [OF assms(1,2)] .
  then have "\<not> overflowed tr" using assms(3) cfg by (auto simp: wf_def sound_def)
  then have ne: "ct_states c \<noteq> []"
    using wf assms(4,5) cfg by (auto simp: wf_def wf_states_def in_set_conv_nth)
  from shown_rows_resolved [OF wf assms(5,6) ne] obtain s where
    s: "as_of_ref st_t (tr_now tr) (ct_states c) = Some s"
      "shown_rows tr (ct_id c) =
        [\<lparr>ao_id = ct_id c, ao_state = st_state s, ao_bytes_o2r = st_bytes_o2r s, ao_bytes_r2o = st_bytes_r2o s\<rparr>]" by blast
  have "s = ct_snapshot c (ct_last_at c)" if "sorted (segment_times items)"
  proof -
    have l: "last (ct_states c) = ct_snapshot c (ct_last_at c)"
      using run_fresh [OF assms(1,2,4,3) that] assms(5) by (simp add: all_fresh_set fresh_def)
    have "\<forall>x\<in>set (ct_states c). st_t x \<le> ct_last_at c" "ct_last_at c \<le> tr_now tr"
      using wf assms(5) by (auto simp: wf_def wf_states_def wf_index_def states_ok_def)
    then show ?thesis using s(1) as_of_ref_last [OF ne, of st_t "tr_now tr"] by (simp add: l ct_snapshot_def)
  qed
  with s(2) show ?thesis by (simp add: ct_snapshot_def)
qed

theorem live_snapshot_current_witness:
  "\<exists>tr c. observe_all (tracker_new (timeline_config (Evict 1000 3))) (take 3 example_capture) = Inr tr
     \<and> conns tr = [c] \<and> ct_state c = Established \<and> ct_bytes_o2r c = 10
     \<and> shown_rows tr (ct_id c) = [\<lparr>ao_id = ct_id c, ao_state = Established, ao_bytes_o2r = 10, ao_bytes_r2o = 0\<rparr>]"
proof -
  let ?cfg = "timeline_config (Evict 1000 3)"
  let ?run = "observe_all (tracker_new ?cfg) (take 3 example_capture)"
  have "map_sum id (\<lambda>tr. map (\<lambda>c. (ct_state c, ct_bytes_o2r c, ct_bytes_r2o c)) (conns tr)) ?run = Inr [(Established, 10, 0)]"
    by code_simp
  then obtain tr c where tr: "?run = Inr tr" "conns tr = [c]" "ct_state c = Established" "ct_bytes_o2r c = 10" "ct_bytes_r2o c = 0"
    by (cases ?run) auto
  have "length (take 3 example_capture) < 2 ^ 32" by (simp add: example_capture_def)
  moreover have "retention ?cfg = Evict 1000 3" "collect_state_timeline ?cfg" by (simp_all add: timeline_config_def)
  moreover have "sorted (segment_times (take 3 example_capture))" by code_simp
  ultimately have "shown_rows tr (ct_id c) =
      [\<lparr>ao_id = ct_id c, ao_state = ct_state c, ao_bytes_o2r = ct_bytes_o2r c, ao_bytes_r2o = ct_bytes_r2o c\<rparr>]"
    using live_snapshot_current [OF _ tr(1), of 1000 3 c] tr by (simp add: is_terminal_def)
  with tr show ?thesis by auto
qed

text \<open>
  The order matters. A segment that arrives late is recorded at its own time, behind a later
  snapshot, so its bytes are counted but not shown.
\<close>

lemma late_segment_not_shown:
  "map_sum id (\<lambda>tr. (map ct_bytes_o2r (conns tr), map ao_bytes_o2r (resolve_at (snapshot tr) (tr_now tr))))
     (observe_all (tracker_new (timeline_config (Evict 1000000 100)))
        [Segment (client_seg 1000 100 0 SYN 0), Segment (server_seg 5000 500 101 (SYN OR ACK) 0),
         Segment (client_seg 3000 101 501 ACK 10)]) = Inr ([10], [0])"
  by code_simp

end
