(* ===== verification/Names.thy ===== *)
theory Names
  imports Core_Types "HOL-Library.AList"
begin

text \<open>
  Host names learned from captured DNS traffic (\<^verbatim>\<open>crates/tcpvisr-core/src/name.rs\<close>): the
  sanitised, bounded host name and the capped, latest-wins table from addresses to names. A
  Rust \<^verbatim>\<open>str\<close> is its UTF-8 bytes, one \<open>char\<close> each. The hash map of the table is an
  association list with distinct keys; its order is not observable in the code, but the
  list order (first appearance) lets the retained addresses be stated exactly.
\<close>

definition MAX_HOST_LEN :: nat where
  "MAX_HOST_LEN = 253"

definition NAME_TABLE_CAP :: nat where
  "NAME_TABLE_CAP = 65536"

datatype host_name = HostName (host_str: string)

text \<open>\<^verbatim>\<open>(0x20..=0x7e).contains(b)\<close>.\<close>

definition printable :: "char \<Rightarrow> bool" where
  "printable c \<longleftrightarrow> 0x20 \<le> (of_char c :: nat) \<and> (of_char c :: nat) \<le> 0x7E"

definition strip_root_dot :: "string \<Rightarrow> string" where
  "strip_root_dot raw = (if raw \<noteq> [] \<and> last raw = CHR ''.'' then butlast raw else raw)"

definition host_name_new :: "string \<Rightarrow> host_name option" where
  "host_name_new raw =
     (let trimmed = strip_root_dot raw
      in if trimmed = [] \<or> MAX_HOST_LEN < length trimmed then None
         else let clean = filter printable trimmed
              in if clean = [] then None else Some (HostName clean))"

record name_observation =
  no_ts :: nanos
  no_ip :: ip_addr
  no_name :: host_name

record name_table =
  by_ip :: "(ip_addr \<times> nanos \<times> host_name) list"
  nt_dropped :: u64

definition name_table_default :: name_table where
  "name_table_default = \<lparr>by_ip = [], nt_dropped = 0\<rparr>"

definition nt_observe :: "name_table \<Rightarrow> name_observation \<Rightarrow> name_table" where
  "nt_observe tab obs =
     (case map_of (by_ip tab) (no_ip obs) of
        Some slot \<Rightarrow>
          (if fst slot \<le> no_ts obs
           then tab\<lparr>by_ip := AList.update (no_ip obs) (no_ts obs, no_name obs) (by_ip tab)\<rparr>
           else tab)
      | None \<Rightarrow>
          (if NAME_TABLE_CAP \<le> length (by_ip tab) then tab\<lparr>nt_dropped := nt_dropped tab + 1\<rparr>
           else tab\<lparr>by_ip := AList.update (no_ip obs) (no_ts obs, no_name obs) (by_ip tab)\<rparr>))"

definition nt_resolve :: "name_table \<Rightarrow> ip_addr \<Rightarrow> host_name option" where
  "nt_resolve tab ip = map_option snd (map_of (by_ip tab) ip)"

definition nt_len :: "name_table \<Rightarrow> nat" where
  "nt_len tab = length (by_ip tab)"

definition nt_is_empty :: "name_table \<Rightarrow> bool" where
  "nt_is_empty tab = (by_ip tab = [])"

text \<open>A capture's observations folded into a fresh table, in arrival order.\<close>

definition nt_run :: "name_observation list \<Rightarrow> name_table" where
  "nt_run obs = foldl nt_observe name_table_default obs"

section \<open>Sanitised names\<close>

lemma host_name_new_Some:
  assumes "host_name_new raw = Some h"
  shows "host_str h \<noteq> [] \<and> length (host_str h) \<le> MAX_HOST_LEN \<and> list_all printable (host_str h)"
proof -
  define trimmed where "trimmed = strip_root_dot raw"
  from assms have "length trimmed \<le> MAX_HOST_LEN" "filter printable trimmed \<noteq> []"
      "h = HostName (filter printable trimmed)"
    by (auto simp: host_name_new_def Let_def trimmed_def split: if_splits)
  moreover from this(1) have "length (filter printable trimmed) \<le> MAX_HOST_LEN"
    by (rule le_trans [OF length_filter_le])
  ultimately show ?thesis by (simp add: list_all_iff)
qed

text \<open>A name that is already clean passes unchanged: sanitising is idempotent.\<close>

lemma host_name_new_clean:
  assumes "s \<noteq> []" and "length s \<le> MAX_HOST_LEN" and "list_all printable s"
    and "last s \<noteq> CHR ''.''"
  shows "host_name_new s = Some (HostName s)"
proof -
  have "filter printable s = s" using assms(3) by (simp add: list_all_iff filter_id_conv)
  with assms show ?thesis by (simp add: host_name_new_def strip_root_dot_def)
qed

section \<open>The table keeps the latest name of the first addresses seen\<close>

text \<open>Addresses in the order of their first appearance.\<close>

definition first_seen :: "'a list \<Rightarrow> 'a list" where
  "first_seen xs = rev (remdups (rev xs))"

lemma first_seen_snoc:
  "first_seen (xs @ [x]) = (if x \<in> set xs then first_seen xs else first_seen xs @ [x])"
  by (simp add: first_seen_def)

lemma first_seen_Nil [simp]: "first_seen [] = []"
  by (simp add: first_seen_def)

lemma set_first_seen [simp]: "set (first_seen xs) = set xs"
  by (simp add: first_seen_def)

lemma distinct_first_seen [simp]: "distinct (first_seen xs)"
  by (simp add: first_seen_def)

text \<open>
  The name an address should have after \<open>obs\<close>: the one of the observation with the greatest
  timestamp, the last of several.
\<close>

fun latest_name :: "ip_addr \<Rightarrow> name_observation list \<Rightarrow> (nanos \<times> host_name) option" where
  "latest_name ip [] = None"
| "latest_name ip (x # xs) =
     (case latest_name ip xs of
        Some slot \<Rightarrow>
          (if no_ip x = ip \<and> fst slot < no_ts x then Some (no_ts x, no_name x) else Some slot)
      | None \<Rightarrow> (if no_ip x = ip then Some (no_ts x, no_name x) else None))"

lemma latest_name_None: "latest_name ip xs = None \<longleftrightarrow> ip \<notin> no_ip ` set xs"
  by (induction xs) (auto split: option.splits)

lemma latest_name_snoc:
  "latest_name ip (xs @ [x]) =
     (if no_ip x \<noteq> ip then latest_name ip xs
      else case latest_name ip xs of
        Some slot \<Rightarrow> (if fst slot \<le> no_ts x then Some (no_ts x, no_name x) else Some slot)
      | None \<Rightarrow> Some (no_ts x, no_name x))"
proof (induction xs)
  case Nil
  then show ?case by simp
next
  case (Cons y ys)
  show ?case
  proof (cases "latest_name ip ys")
    case None
    then show ?thesis by (auto simp: Cons.IH)
  next
    case (Some slot)
    then show ?thesis by (auto simp: Cons.IH)
  qed
qed

lemma map_fst_AList_update:
  "map fst (AList.update k v al) = (if k \<in> set (map fst al) then map fst al else map fst al @ [k])"
  by (induction al) auto

lemma nt_run_snoc: "nt_run (obs @ [x]) = nt_observe (nt_run obs) x"
  by (simp add: nt_run_def)

lemma nt_run_Nil [simp]: "nt_run [] = name_table_default"
  by (simp add: nt_run_def)

text \<open>Which addresses are held: the first \<open>NAME_TABLE_CAP\<close> distinct ones, in order.\<close>

lemma nt_run_keys: "map fst (by_ip (nt_run obs)) = take NAME_TABLE_CAP (first_seen (map no_ip obs))"
proof (induction obs rule: rev_induct)
  case Nil
  then show ?case by (simp add: name_table_default_def)
next
  case (snoc x obs)
  let ?tab = "nt_run obs" and ?seen = "first_seen (map no_ip obs)"
  have keys: "set (map fst (by_ip ?tab)) = set (take NAME_TABLE_CAP ?seen)"
    and len: "length (by_ip ?tab) = min (length ?seen) NAME_TABLE_CAP"
    using snoc by (metis, metis length_map length_take)
  show ?case
  proof (cases "no_ip x \<in> set (map fst (by_ip ?tab))")
    case True
    then obtain slot where "map_of (by_ip ?tab) (no_ip x) = Some slot"
      by (metis list.set_map map_of_eq_None_iff not_None_eq)
    moreover have "no_ip x \<in> no_ip ` set obs"
      using True keys by (metis in_set_takeD list.set_map set_first_seen)
    ultimately show ?thesis using True snoc
      by (auto simp: nt_run_snoc nt_observe_def map_fst_AList_update first_seen_snoc)
  next
    case False
    then have none: "map_of (by_ip ?tab) (no_ip x) = None"
      by (simp add: map_of_eq_None_iff)
    show ?thesis
    proof (cases "NAME_TABLE_CAP \<le> length (by_ip ?tab)")
      case True
      with none snoc len show ?thesis
        by (simp add: nt_run_snoc nt_observe_def first_seen_snoc)
    next
      case roomy: False
      then have "take NAME_TABLE_CAP ?seen = ?seen" using len by simp
      with False keys have "no_ip x \<notin> no_ip ` set obs" by simp
      with none roomy False snoc len show ?thesis
        by (simp add: nt_run_snoc nt_observe_def map_fst_AList_update first_seen_snoc)
    qed
  qed
qed

lemma nt_run_lookup:
  "map_of (by_ip (nt_run obs)) ip =
     (if ip \<in> set (take NAME_TABLE_CAP (first_seen (map no_ip obs))) then latest_name ip obs
      else None)"
proof (induction obs rule: rev_induct)
  case Nil
  then show ?case by (simp add: name_table_default_def)
next
  case (snoc x obs)
  let ?tab = "nt_run obs"
  have dom: "\<And>a. map_of (by_ip (nt_run o')) a = None \<longleftrightarrow>
      a \<notin> set (take NAME_TABLE_CAP (first_seen (map no_ip o')))" for o'
    by (metis list.set_map map_of_eq_None_iff nt_run_keys)
  have grow: "set (take NAME_TABLE_CAP (first_seen (map no_ip obs)))
      \<subseteq> set (take NAME_TABLE_CAP (first_seen (map no_ip (obs @ [x]))))"
    by (auto simp: first_seen_snoc)
  show ?case
  proof (cases "map_of (by_ip (nt_run (obs @ [x]))) ip")
    case None
    then show ?thesis using dom by auto
  next
    case (Some slot)
    then have held: "ip \<in> set (take NAME_TABLE_CAP (first_seen (map no_ip (obs @ [x]))))"
      using dom by (metis option.distinct(1))
    have "map_of (by_ip (nt_observe ?tab x)) ip = latest_name ip (obs @ [x])"
    proof (cases "ip = no_ip x")
      case False
      with Some have "map_of (by_ip ?tab) ip = Some slot"
        by (auto simp: nt_run_snoc nt_observe_def update_conv split: option.splits if_splits)
      with False Some snoc show ?thesis
        by (auto simp: nt_run_snoc latest_name_snoc split: if_splits)
    next
      case True
      show ?thesis
      proof (cases "map_of (by_ip ?tab) ip")
        case (Some slot')
        with snoc have "latest_name ip obs = Some slot'" by (auto split: if_splits)
        with True Some show ?thesis
          by (auto simp: nt_observe_def latest_name_snoc update_conv)
      next
        case None
        have "latest_name ip obs = None"
        proof (rule ccontr)
          assume "latest_name ip obs \<noteq> None"
          then have "ip \<in> set (map no_ip obs)" by (simp add: latest_name_None)
          then have "first_seen (map no_ip (obs @ [x])) = first_seen (map no_ip obs)"
            using True by (simp add: first_seen_snoc)
          with held None dom show False by auto
        qed
        with None True Some show ?thesis
          by (auto simp: nt_run_snoc nt_observe_def latest_name_snoc update_conv split: if_splits)
      qed
    qed
    with held show ?thesis by (simp add: nt_run_snoc)
  qed
qed

text \<open>The observations counted as dropped are those of addresses the full table refused.\<close>

lemma nt_run_dropped:
  "nt_dropped (nt_run obs) =
     of_nat (length (filter (\<lambda>x. no_ip x \<notin> set (take NAME_TABLE_CAP (first_seen (map no_ip obs)))) obs))"
proof (induction obs rule: rev_induct)
  case Nil
  then show ?case by (simp add: name_table_default_def)
next
  case (snoc x obs)
  let ?K = "\<lambda>os. set (take NAME_TABLE_CAP (first_seen (map no_ip os)))"
  have dom: "map_of (by_ip (nt_run obs)) a = None \<longleftrightarrow> a \<notin> ?K obs" for a
    by (metis list.set_map map_of_eq_None_iff nt_run_keys)
  have len: "length (by_ip (nt_run obs)) = length (take NAME_TABLE_CAP (first_seen (map no_ip obs)))"
    by (metis length_map nt_run_keys)
  show ?case
  proof (cases "no_ip x \<in> ?K obs")
    case True
    from in_set_takeD [OF True] have "no_ip x \<in> set (map no_ip obs)" by simp
    then have "?K (obs @ [x]) = ?K obs" by (simp add: first_seen_snoc)
    moreover have "nt_dropped (nt_run (obs @ [x])) = nt_dropped (nt_run obs)"
      using True dom [of "no_ip x"]
      by (auto simp: nt_run_snoc nt_observe_def split: option.splits)
    ultimately show ?thesis using True snoc by simp
  next
    case False
    then have none: "map_of (by_ip (nt_run obs)) (no_ip x) = None" using dom by simp
    show ?thesis
    proof (cases "NAME_TABLE_CAP \<le> length (by_ip (nt_run obs))")
      case full: True
      then have "?K (obs @ [x]) = ?K obs" using len by (simp add: first_seen_snoc)
      with full none False snoc show ?thesis
        by (simp add: nt_run_snoc nt_observe_def)
    next
      case roomy: False
      then have all: "take NAME_TABLE_CAP (first_seen (map no_ip obs)) = first_seen (map no_ip obs)"
        using len by simp
      with False have "no_ip x \<notin> no_ip ` set obs" by simp
      then have K': "?K (obs @ [x]) = insert (no_ip x) (?K obs)"
        using roomy all len by (simp add: first_seen_snoc)
      have "filter (\<lambda>y. no_ip y \<notin> ?K (obs @ [x])) (obs @ [x]) = []"
        unfolding K' using all by (auto simp: filter_empty_conv)
      moreover have "filter (\<lambda>y. no_ip y \<notin> ?K obs) obs = []"
        using all by (auto simp: filter_empty_conv)
      ultimately show ?thesis using none roomy snoc
        by (simp add: nt_run_snoc nt_observe_def)
    qed
  qed
qed

section \<open>What the table promises\<close>

text \<open>
  Claim C27: after any sequence of observations the table resolves exactly the first
  \<open>NAME_TABLE_CAP\<close> distinct addresses observed, each to the name of the observation with the
  greatest timestamp (the last of several), never holds more entries than that, and counts in
  \<open>nt_dropped\<close> every observation of another address.
\<close>

theorem name_table_correct:
  "nt_resolve (nt_run obs) ip =
     (if ip \<in> set (take NAME_TABLE_CAP (first_seen (map no_ip obs)))
      then map_option snd (latest_name ip obs) else None)
   \<and> nt_len (nt_run obs) \<le> NAME_TABLE_CAP
   \<and> nt_dropped (nt_run obs) =
       of_nat (length (filter (\<lambda>x. no_ip x \<notin> set (take NAME_TABLE_CAP (first_seen (map no_ip obs)))) obs))"
proof -
  have "nt_len (nt_run obs) = length (map fst (by_ip (nt_run obs)))" by (simp add: nt_len_def)
  also have "\<dots> \<le> NAME_TABLE_CAP" unfolding nt_run_keys by simp
  finally show ?thesis by (simp add: nt_resolve_def nt_run_lookup nt_run_dropped)
qed

text \<open>
  Claim C28: a name accepted from the wire is not empty, has at most 253 characters and only
  printable ASCII ones, so it cannot carry terminal control sequences; and a name that is
  already of that form, without the root dot, is accepted unchanged.
\<close>

theorem host_name_sanitised:
  "(\<forall>h. host_name_new raw = Some h \<longrightarrow>
      host_str h \<noteq> [] \<and> length (host_str h) \<le> MAX_HOST_LEN \<and> list_all printable (host_str h))
   \<and> (raw \<noteq> [] \<and> length raw \<le> MAX_HOST_LEN \<and> list_all printable raw \<and> last raw \<noteq> CHR ''.'' \<longrightarrow>
      host_name_new raw = Some (HostName raw))"
  using host_name_new_Some host_name_new_clean by blast

theorem host_name_sanitised_witness:
  "host_name_new (''example.com'' @ [CHR 0x1B, CHR ''.'']) = Some (HostName ''example.com'')
   \<and> host_name_new ''example.com'' = Some (HostName ''example.com'')
   \<and> list_all printable ''example.com''"
proof -
  have "host_name_new (''example.com'' @ [CHR 0x1B, CHR ''.'']) = Some (HostName ''example.com'')"
    by code_simp
  with host_name_sanitised [of "''example.com'' @ [CHR 0x1B, CHR ''.'']"]
  have "list_all printable ''example.com''" by simp
  moreover have "length ''example.com'' \<le> MAX_HOST_LEN" by (simp add: MAX_HOST_LEN_def)
  ultimately show ?thesis
    using host_name_sanitised [of "''example.com''"]
      \<open>host_name_new (''example.com'' @ [CHR 0x1B, CHR ''.'']) = Some (HostName ''example.com'')\<close>
    by simp
qed

end
