(* ===== verification/Decode.thy ===== *)
theory Decode
  imports Names
begin

text \<open>
  The shared frame decoder of \<^verbatim>\<open>crates/tcpvisr-ingest/src\<close>: link stripping (\<^verbatim>\<open>link.rs\<close>), DNS
  answers (\<^verbatim>\<open>dns.rs\<close>), frames to segments (\<^verbatim>\<open>decode.rs\<close>) and the skip counters (\<^verbatim>\<open>lib.rs\<close>).
  The header parser \<^verbatim>\<open>etherparse\<close> and the DNS parser \<^verbatim>\<open>simple_dns\<close> are parameters: \<open>from_ip\<close> takes
  the bytes of an IP packet to the parts of the sliced packet the decoder reads, \<open>parse_packet\<close> the
  bytes of a datagram to the answers of the message. A borrowed slice is its length and the
  distance of its start from the start of the input.
\<close>

type_synonym bytes = "u8 list"

section \<open>Skip reasons and their counters\<close>

datatype skip_reason = NonTcp | Malformed | UnsupportedLinkType | Ipv6Fragment | UnsupportedExtChain | Truncated

record skip_counts =
  sc_non_tcp :: u64
  sc_malformed :: u64
  sc_unsupported_link_type :: u64
  sc_ipv6_fragment :: u64
  sc_unsupported_ext_chain :: u64
  sc_truncated :: u64

definition skip_counts_default :: skip_counts where
  "skip_counts_default =
     \<lparr>sc_non_tcp = 0, sc_malformed = 0, sc_unsupported_link_type = 0, sc_ipv6_fragment = 0,
      sc_unsupported_ext_chain = 0, sc_truncated = 0\<rparr>"

fun skip_record :: "skip_counts \<Rightarrow> skip_reason \<Rightarrow> skip_counts" where
  "skip_record sc NonTcp = sc\<lparr>sc_non_tcp := sc_non_tcp sc + 1\<rparr>"
| "skip_record sc Malformed = sc\<lparr>sc_malformed := sc_malformed sc + 1\<rparr>"
| "skip_record sc UnsupportedLinkType = sc\<lparr>sc_unsupported_link_type := sc_unsupported_link_type sc + 1\<rparr>"
| "skip_record sc Ipv6Fragment = sc\<lparr>sc_ipv6_fragment := sc_ipv6_fragment sc + 1\<rparr>"
| "skip_record sc UnsupportedExtChain = sc\<lparr>sc_unsupported_ext_chain := sc_unsupported_ext_chain sc + 1\<rparr>"
| "skip_record sc Truncated = sc\<lparr>sc_truncated := sc_truncated sc + 1\<rparr>"

definition skip_nonzero :: "skip_counts \<Rightarrow> (string \<times> u64) list" where
  "skip_nonzero sc =
     filter (\<lambda>(_, count). 0 < count)
       [(''non_tcp'', sc_non_tcp sc), (''malformed'', sc_malformed sc),
        (''unsupported_link_type'', sc_unsupported_link_type sc), (''ipv6_fragment'', sc_ipv6_fragment sc),
        (''unsupported_ext_chain'', sc_unsupported_ext_chain sc), (''truncated'', sc_truncated sc)]"

definition skip_total :: "skip_counts \<Rightarrow> u64" where
  "skip_total sc = sc_non_tcp sc + sc_malformed sc + sc_unsupported_link_type sc + sc_ipv6_fragment sc
     + sc_unsupported_ext_chain sc + sc_truncated sc"

section \<open>Link layers (\<^verbatim>\<open>link.rs\<close>)\<close>

datatype link_type = Ethernet | LinuxSll | LinuxSll2 | RawIp | Null

definition from_dlt :: "u16 \<Rightarrow> link_type option" where
  "from_dlt dlt =
     (if dlt = 1 then Some Ethernet
      else if dlt = 0 then Some Null
      else if dlt = 12 \<or> dlt = 14 \<or> dlt = 101 then Some RawIp
      else if dlt = 113 then Some LinuxSll
      else if dlt = 276 then Some LinuxSll2
      else None)"

datatype stripped = Ip bytes | Skip skip_reason

definition ETHERTYPE_IPV4 :: u16 where "ETHERTYPE_IPV4 = 0x0800"
definition ETHERTYPE_IPV6 :: u16 where "ETHERTYPE_IPV6 = 0x86DD"
definition VLAN_8021Q :: u16 where "VLAN_8021Q = 0x8100"
definition VLAN_8021AD :: u16 where "VLAN_8021AD = 0x88A8"

definition be16 :: "bytes \<Rightarrow> usize \<Rightarrow> u16 option" where
  "be16 b off =
     (if off + 2 \<le> length b then Some (of_nat (unat (b ! off) * 256 + unat (b ! (off + 1)))) else None)"

text \<open>\<^verbatim>\<open>frame.get(k..)\<close>.\<close>

definition get_from :: "bytes \<Rightarrow> usize \<Rightarrow> bytes option" where
  "get_from b k = (if k \<le> length b then Some (drop k b) else None)"

definition strip_after_ethertype :: "bytes \<Rightarrow> usize \<Rightarrow> usize \<Rightarrow> stripped" where
  "strip_after_ethertype frame et_off ip_off =
     (case be16 frame et_off of
        Some et \<Rightarrow>
          (if et = ETHERTYPE_IPV4 \<or> et = ETHERTYPE_IPV6
           then (case get_from frame ip_off of Some ip \<Rightarrow> Ip ip | None \<Rightarrow> Skip Malformed)
           else Skip NonTcp)
      | None \<Rightarrow> Skip Malformed)"

text \<open>The loop of \<^verbatim>\<open>strip_ethernet\<close>, which moves past one VLAN tag at a time.\<close>

function strip_ethernet_from :: "bytes \<Rightarrow> usize \<Rightarrow> stripped" where
  "strip_ethernet_from frame off =
     (case be16 frame off of
        Some et \<Rightarrow>
          (if et = ETHERTYPE_IPV4 \<or> et = ETHERTYPE_IPV6
           then (case get_from frame (off + 2) of Some ip \<Rightarrow> Ip ip | None \<Rightarrow> Skip Malformed)
           else if et = VLAN_8021Q \<or> et = VLAN_8021AD then strip_ethernet_from frame (off + 4)
           else Skip NonTcp)
      | None \<Rightarrow> Skip Malformed)"
  by pat_completeness auto
termination
  by (relation "measure (\<lambda>(frame, off). length frame - off)") (auto simp: be16_def split: if_splits)

declare strip_ethernet_from.simps [simp del]

definition strip_ethernet :: "bytes \<Rightarrow> stripped" where
  "strip_ethernet frame = strip_ethernet_from frame 12"

fun strip_link :: "link_type \<Rightarrow> bytes \<Rightarrow> stripped" where
  "strip_link RawIp frame = Ip frame"
| "strip_link Null frame = (case get_from frame 4 of Some ip \<Rightarrow> Ip ip | None \<Rightarrow> Skip Malformed)"
| "strip_link LinuxSll2 frame = strip_after_ethertype frame 0 20"
| "strip_link LinuxSll frame = strip_after_ethertype frame 14 16"
| "strip_link Ethernet frame = strip_ethernet frame"

section \<open>DNS answers (\<^verbatim>\<open>dns.rs\<close>)\<close>

datatype rdata = RA u32 | RAAAA "128 word" | ROther

record dns_answer =
  an_name :: string
  an_rdata :: rdata

type_synonym dns_parser = "bytes \<Rightarrow> dns_answer list option"

definition answer_observation :: "nanos \<Rightarrow> dns_answer \<Rightarrow> name_observation option" where
  "answer_observation ts answer =
     Option.bind (case an_rdata answer of RA a \<Rightarrow> Some (V4 a) | RAAAA a \<Rightarrow> Some (V6 a) | ROther \<Rightarrow> None)
       (\<lambda>ip. map_option (\<lambda>name. \<lparr>no_ts = ts, no_ip = ip, no_name = name\<rparr>) (host_name_new (an_name answer)))"

definition parse_dns_answers :: "dns_parser \<Rightarrow> nanos \<Rightarrow> bytes \<Rightarrow> name_observation list" where
  "parse_dns_answers parse_packet ts payload =
     (case parse_packet payload of
        None \<Rightarrow> []
      | Some answers \<Rightarrow> List.map_filter (answer_observation ts) answers)"

section \<open>Sliced packets, as \<^verbatim>\<open>etherparse\<close> returns them\<close>

record v4_slice =
  v4_source_addr :: u32
  v4_destination_addr :: u32
  v4_fragmented :: bool
  v4_total_len :: u16

record v6_slice =
  v6_source_addr :: "128 word"
  v6_destination_addr :: "128 word"
  v6_fragmented :: bool
  v6_payload_length :: u16

datatype net_slice = NetIpv4 v4_slice | NetIpv6 v6_slice | NetArp

datatype tcp_option_element =
    MaximumSegmentSize u16
  | WindowScale u8
  | SelectiveAcknowledgementPermitted
  | SelectiveAcknowledgement "u32 \<times> u32" "(u32 \<times> u32) option list"
  | Timestamp u32 u32
  | Noop

text \<open>An element of the options iterator is \<open>None\<close> when it does not parse.\<close>

record tcp_slice =
  ts_source_port :: u16
  ts_destination_port :: u16
  ts_sequence_number :: u32
  ts_acknowledgment_number :: u32
  ts_fin :: bool
  ts_syn :: bool
  ts_rst :: bool
  ts_psh :: bool
  ts_ack :: bool
  ts_urg :: bool
  ts_ece :: bool
  ts_cwr :: bool
  ts_ns :: bool
  ts_window_size :: u16
  ts_data_offset :: u8
  ts_options :: "tcp_option_element option list"
  ts_payload_len :: usize
  ts_start :: int

datatype transport_slice = Tcp tcp_slice | Udp u16 bytes | OtherTransport

datatype layer = LayerIpv6ExtHeader | LayerIpHeader | LayerOther
datatype slice_error = SliceLen | SliceOther

record sliced_packet =
  sl_net :: "net_slice option"
  sl_transport :: "transport_slice option"
  sl_stop_err :: "(slice_error \<times> layer) option"

datatype header_slice_error = HeaderLen | HeaderOther

type_synonym ip_slicer = "bytes \<Rightarrow> header_slice_error + sliced_packet"

section \<open>Frames to segments (\<^verbatim>\<open>decode.rs\<close>)\<close>

definition IPV6_HEADER_LEN :: usize where "IPV6_HEADER_LEN = 40"

datatype decode_outcome = Decoded segment | Names "name_observation list" | Skipped skip_reason

unbundle bit_operations_syntax

definition build_flags :: "tcp_slice \<Rightarrow> tcp_flags" where
  "build_flags tcp =
     foldl (\<lambda>bits (on, b). if on then bits OR b else bits) 0
       [(ts_fin tcp, FIN), (ts_syn tcp, SYN), (ts_rst tcp, RST), (ts_psh tcp, PSH), (ts_ack tcp, ACK),
        (ts_urg tcp, URG), (ts_ece tcp, ECE), (ts_cwr tcp, CWR), (ts_ns tcp, NS)]"

fun apply_option :: "tcp_options \<Rightarrow> tcp_option_element \<Rightarrow> tcp_options" where
  "apply_option opts (MaximumSegmentSize v) = opts\<lparr>mss := Some v\<rparr>"
| "apply_option opts (WindowScale v) = opts\<lparr>window_scale := Some v\<rparr>"
| "apply_option opts SelectiveAcknowledgementPermitted = opts\<lparr>sack_permitted := True\<rparr>"
| "apply_option opts (SelectiveAcknowledgement first rest) =
     opts\<lparr>sack_blocks := sack_blocks opts @ [first] @ List.map_filter (\<lambda>x. x) rest\<rparr>"
| "apply_option opts (Timestamp a b) = opts\<lparr>timestamp := Some (a, b)\<rparr>"
| "apply_option opts Noop = opts"

fun parse_options_loop :: "tcp_options \<Rightarrow> tcp_option_element option list \<Rightarrow> tcp_options" where
  "parse_options_loop opts [] = opts"
| "parse_options_loop opts (None # es) = opts"
| "parse_options_loop opts (Some e # es) = parse_options_loop (apply_option opts e) es"

definition parse_options :: "tcp_slice \<Rightarrow> tcp_options" where
  "parse_options tcp = parse_options_loop tcp_options_default (ts_options tcp)"

text \<open>The start of the inner slice relative to the outer one may be anywhere.\<close>

definition subslice_offset :: "usize \<Rightarrow> int \<Rightarrow> usize option" where
  "subslice_offset outer_len inner_start =
     (if inner_start < 0 then None else if nat inner_start \<le> outer_len then Some (nat inner_start) else None)"

text \<open>\<^verbatim>\<open>u32::try_from(n).unwrap_or(u32::MAX)\<close>.\<close>

definition u32_of :: "usize \<Rightarrow> u32" where
  "u32_of n = (if n < 2 ^ 32 then of_nat n else 0xFFFFFFFF)"

definition derive_payload_len :: "bytes \<Rightarrow> net_slice \<Rightarrow> tcp_slice \<Rightarrow> u32" where
  "derive_payload_len ip net tcp =
     (let captured = u32_of (ts_payload_len tcp);
          onwire = (case net of
              NetIpv4 v4 \<Rightarrow> Some (unat (v4_total_len v4))
            | NetIpv6 v6 \<Rightarrow> Some (IPV6_HEADER_LEN + unat (v6_payload_length v6))
            | NetArp \<Rightarrow> None)
      in case onwire of
           None \<Rightarrow> captured
         | Some onwire_ip_len \<Rightarrow>
             (case subslice_offset (length ip) (ts_start tcp) of
                None \<Rightarrow> captured
              | Some tcp_offset \<Rightarrow>
                  (let need = tcp_offset + unat (ts_data_offset tcp) * 4
                   in if need \<le> length ip \<and> need \<le> onwire_ip_len then u32_of (onwire_ip_len - need)
                      else captured)))"

definition classify_no_tcp :: "sliced_packet \<Rightarrow> bool \<Rightarrow> skip_reason" where
  "classify_no_tcp sliced truncated =
     (case sl_stop_err sliced of
        Some (err, lay) \<Rightarrow>
          (if err = SliceLen \<and> truncated then Truncated
           else if lay = LayerIpv6ExtHeader \<or> lay = LayerIpHeader then UnsupportedExtChain
           else NonTcp)
      | None \<Rightarrow> NonTcp)"

definition net_addresses :: "net_slice \<Rightarrow> (ip_addr \<times> ip_addr \<times> bool) option" where
  "net_addresses net =
     (case net of
        NetIpv4 v4 \<Rightarrow> Some (V4 (v4_source_addr v4), V4 (v4_destination_addr v4), v4_fragmented v4)
      | NetIpv6 v6 \<Rightarrow> Some (V6 (v6_source_addr v6), V6 (v6_destination_addr v6), v6_fragmented v6)
      | NetArp \<Rightarrow> None)"

definition decode_segment :: "nanos \<Rightarrow> ip_addr \<Rightarrow> ip_addr \<Rightarrow> bytes \<Rightarrow> net_slice \<Rightarrow> tcp_slice \<Rightarrow> segment" where
  "decode_segment ts srcip dstip ip net tcp =
     \<lparr>seg_ts = ts,
      seg_flow = \<lparr>src_ip = srcip, src_port = ts_source_port tcp, dst_ip = dstip, dst_port = ts_destination_port tcp\<rparr>,
      seg_seq = ts_sequence_number tcp, seg_ack = ts_acknowledgment_number tcp,
      seg_flags = build_flags tcp, seg_window = ts_window_size tcp, seg_options = parse_options tcp,
      payload_len = derive_payload_len ip net tcp\<rparr>"

definition decode_ip :: "dns_parser \<Rightarrow> nanos \<Rightarrow> bytes \<Rightarrow> bool \<Rightarrow> sliced_packet \<Rightarrow> decode_outcome" where
  "decode_ip parse_packet ts ip truncated sliced =
     (case sl_net sliced of
        None \<Rightarrow> Skipped Malformed
      | Some net \<Rightarrow>
          (case net_addresses net of
             None \<Rightarrow> Skipped NonTcp
           | Some (srcip, dstip, fragmenting) \<Rightarrow>
               (if fragmenting then Skipped Ipv6Fragment
                else case sl_transport sliced of
                    Some (Tcp tcp) \<Rightarrow> Decoded (decode_segment ts srcip dstip ip net tcp)
                  | Some (Udp sport payload) \<Rightarrow>
                      (if sport = 53
                       then let obs = parse_dns_answers parse_packet ts payload
                            in if obs = [] then Skipped NonTcp else Names obs
                       else Skipped (classify_no_tcp sliced truncated))
                  | _ \<Rightarrow> Skipped (classify_no_tcp sliced truncated))))"

definition decode_frame :: "ip_slicer \<Rightarrow> dns_parser \<Rightarrow> link_type \<Rightarrow> nanos \<Rightarrow> bytes \<Rightarrow> u32 \<Rightarrow> decode_outcome" where
  "decode_frame from_ip parse_packet link ts frame wire_len =
     (let truncated = length frame < unat wire_len
      in case strip_link link frame of
           Skip reason \<Rightarrow> Skipped reason
         | Ip ip \<Rightarrow>
             (case from_ip ip of
                Inl HeaderLen \<Rightarrow> Skipped (if truncated then Truncated else Malformed)
              | Inl HeaderOther \<Rightarrow> Skipped Malformed
              | Inr sliced \<Rightarrow> decode_ip parse_packet ts ip truncated sliced))"

end
