(* ===== verification/Ingest.thy ===== *)
theory Ingest
  imports Decode
begin

text \<open>
  The capture faucets of \<^verbatim>\<open>crates/tcpvisr-ingest/src\<close>: the replay faucet (\<^verbatim>\<open>replay.rs\<close>), the libpcap
  file faucet (\<^verbatim>\<open>libpcap.rs\<close>) and live capture (\<^verbatim>\<open>live.rs\<close>). The container readers
  (\<^verbatim>\<open>pcap_parser\<close>, \<^verbatim>\<open>pcap\<close>) are the outcomes they deliver, one per call, as a list; a loop that runs
  out of outcomes is still running, and its result is \<open>None\<close>. The sinks are functions on states
  of their own, so that a caller that pushes items and one that folds them are instances.
\<close>

section \<open>Errors\<close>

datatype ingest_error =
    OpenError (ie_path: string) (ie_source: string)
  | ContainerError (ie_path: string) (ie_detail: string)
  | UnknownLinkType (ie_dlt: u16)
  | MixedLinkTypes

record replay_parse =
  rp_items :: "item list"
  rp_skipped :: skip_counts
  rp_link_type :: link_type
  rp_names :: "name_observation list"

section \<open>Replay (\<^verbatim>\<open>replay.rs\<close>)\<close>

definition MICRO_TICK_NS :: u64 where "MICRO_TICK_NS = 1000"
definition NANO_MAGIC :: u32 where "NANO_MAGIC = 0xA1B23C4D"

record replay_state =
  rs_link_type :: "link_type option"
  rs_baseline :: "u64 option"
  rs_nanos_per_tick :: u64
  rs_skipped :: skip_counts

text \<open>The blocks of a container, with the fields the faucet reads.\<close>

datatype pcap_block =
    LegacyHeader (bl_network: int) (bl_magic_number: u32)
  | Legacy (bl_ts_sec: u32) (bl_ts_usec: u32) (bl_origlen: u32) (bl_data: bytes)
  | InterfaceDescription (bl_linktype: int) (bl_ts_resolution: "u64 option")
  | EnhancedPacket (bl_ts_high: u32) (bl_ts_low: u32) (bl_origlen: u32) (bl_data: bytes)
  | OtherBlock

text \<open>One call of \<^verbatim>\<open>reader.next()\<close>; when more bytes are needed, the refill fails or not.\<close>

datatype read_outcome = Got pcap_block | Incomplete "string option" | Eof | ReadError string

definition nanos_per_tick :: "u64 \<Rightarrow> u64 option" where
  "nanos_per_tick ticks_per_sec =
     (if ticks_per_sec = 0 \<or> 1000000000 mod ticks_per_sec \<noteq> 0 then None
      else Some (1000000000 div ticks_per_sec))"

text \<open>\<^verbatim>\<open>u16::try_from\<close> of an \<^verbatim>\<open>i32\<close>.\<close>

definition dlt_to_link :: "int \<Rightarrow> ingest_error + link_type" where
  "dlt_to_link dlt =
     (if 0 \<le> dlt \<and> dlt < 65536 then ok_or (UnknownLinkType (of_int dlt)) (from_dlt (of_int dlt))
      else Inl (UnknownLinkType 0xFFFF))"

type_synonym decoder = "link_type \<Rightarrow> nanos \<Rightarrow> bytes \<Rightarrow> u32 \<Rightarrow> decode_outcome"

definition process_packet :: "decoder \<Rightarrow> string \<Rightarrow> ('a \<Rightarrow> item \<Rightarrow> 'a) \<Rightarrow> ('b \<Rightarrow> name_observation \<Rightarrow> 'b)
    \<Rightarrow> replay_state \<times> 'a \<times> 'b \<Rightarrow> u64 \<Rightarrow> u32 \<Rightarrow> bytes \<Rightarrow> ingest_error + replay_state \<times> 'a \<times> 'b" where
  "process_packet decode path sink name_sink sab abs_ns origlen data =
     (case sab of (st, a, b) \<Rightarrow>
        let base = (case rs_baseline st of Some x \<Rightarrow> x | None \<Rightarrow> abs_ns);
            st1 = st\<lparr>rs_baseline := Some base\<rparr>;
            ts = sat_sub abs_ns base
        in and_then (ok_or (ContainerError path ''packet before any interface description'') (rs_link_type st1))
             (\<lambda>link. case decode link ts data origlen of
                Decoded seg \<Rightarrow> Inr (st1, sink a (Segment seg), b)
              | Names obs \<Rightarrow> Inr (st1, a, foldl name_sink b obs)
              | Skipped reason \<Rightarrow> Inr (st1\<lparr>rs_skipped := skip_record (rs_skipped st1) reason\<rparr>, a, b)))"

fun handle_block :: "decoder \<Rightarrow> string \<Rightarrow> ('a \<Rightarrow> item \<Rightarrow> 'a) \<Rightarrow> ('b \<Rightarrow> name_observation \<Rightarrow> 'b)
    \<Rightarrow> replay_state \<times> 'a \<times> 'b \<Rightarrow> pcap_block \<Rightarrow> ingest_error + replay_state \<times> 'a \<times> 'b" where
  "handle_block decode path sink name_sink (st, a, b) (LegacyHeader network magic_number) =
     and_then (dlt_to_link network)
       (\<lambda>link. Inr (st\<lparr>rs_link_type := Some link,
          rs_nanos_per_tick := (if magic_number = NANO_MAGIC then 1 else MICRO_TICK_NS)\<rparr>, a, b))"
| "handle_block decode path sink name_sink (st, a, b) (Legacy ts_sec ts_usec origlen data) =
     (let abs_ns = sat_add (sat_mul (ucast ts_sec) 1000000000) (sat_mul (ucast ts_usec) (rs_nanos_per_tick st))
      in process_packet decode path sink name_sink (st, a, b) abs_ns origlen data)"
| "handle_block decode path sink name_sink (st, a, b) (InterfaceDescription linktype ts_resolution) =
     and_then (dlt_to_link linktype)
       (\<lambda>link. if (case rs_link_type st of Some existing \<Rightarrow> existing \<noteq> link | None \<Rightarrow> False) then Inl MixedLinkTypes
          else and_then (ok_or (ContainerError path ''unreadable interface timestamp resolution'') ts_resolution)
            (\<lambda>tps. and_then (ok_or (ContainerError path (''unsupported timestamp resolution ('' @ show_dec (unat tps)
                 @ '' ticks/s); M1 supports nanosecond or coarser'')) (nanos_per_tick tps))
            (\<lambda>npt. Inr (st\<lparr>rs_link_type := Some link, rs_nanos_per_tick := npt\<rparr>, a, b))))"
| "handle_block decode path sink name_sink (st, a, b) (EnhancedPacket ts_high ts_low origlen data) =
     (let ticks = push_bit 32 (ucast ts_high) OR ucast ts_low;
          abs_ns = sat_mul ticks (rs_nanos_per_tick st)
      in process_packet decode path sink name_sink (st, a, b) abs_ns origlen data)"
| "handle_block decode path sink name_sink (st, a, b) OtherBlock = Inr (st, a, b)"

fun read_loop :: "decoder \<Rightarrow> string \<Rightarrow> ('a \<Rightarrow> item \<Rightarrow> 'a) \<Rightarrow> ('b \<Rightarrow> name_observation \<Rightarrow> 'b)
    \<Rightarrow> replay_state \<times> 'a \<times> 'b \<Rightarrow> read_outcome list \<Rightarrow> (ingest_error + replay_state \<times> 'a \<times> 'b) option" where
  "read_loop decode path sink name_sink sab [] = None"
| "read_loop decode path sink name_sink sab (Got block # outs) =
     (case handle_block decode path sink name_sink sab block of
        Inl e \<Rightarrow> Some (Inl e)
      | Inr sab' \<Rightarrow> read_loop decode path sink name_sink sab' outs)"
| "read_loop decode path sink name_sink sab (Incomplete None # outs) = read_loop decode path sink name_sink sab outs"
| "read_loop decode path sink name_sink sab (Incomplete (Some detail) # outs) = Some (Inl (ContainerError path detail))"
| "read_loop decode path sink name_sink sab (Eof # outs) = Some (Inr sab)"
| "read_loop decode path sink name_sink sab (ReadError detail # outs) = Some (Inl (ContainerError path detail))"

text \<open>
  A capture file: opening it fails, or creating a reader on it fails, or the reader delivers
  outcomes.
\<close>

datatype capture_file = Unopenable string | Unreadable string | Readable "read_outcome list"

definition replay_state_new :: replay_state where
  "replay_state_new =
     \<lparr>rs_link_type = None, rs_baseline = None, rs_nanos_per_tick = MICRO_TICK_NS, rs_skipped = skip_counts_default\<rparr>"

definition parse_file_visit_named :: "decoder \<Rightarrow> string \<Rightarrow> capture_file \<Rightarrow> ('a \<Rightarrow> item \<Rightarrow> 'a)
    \<Rightarrow> ('b \<Rightarrow> name_observation \<Rightarrow> 'b) \<Rightarrow> 'a \<Rightarrow> 'b \<Rightarrow> (ingest_error + (link_type \<times> skip_counts) \<times> 'a \<times> 'b) option" where
  "parse_file_visit_named decode path file sink name_sink a b =
     (case file of
        Unopenable source \<Rightarrow> Some (Inl (OpenError path source))
      | Unreadable detail \<Rightarrow> Some (Inl (ContainerError path detail))
      | Readable outs \<Rightarrow>
          map_option (\<lambda>r. and_then r (\<lambda>(st, a', b').
              and_then (ok_or (ContainerError path ''no interface or packets in capture'') (rs_link_type st))
                (\<lambda>link. Inr ((link, rs_skipped st), a', b'))))
            (read_loop decode path sink name_sink (replay_state_new, a, b) outs))"

definition parse_file_visit :: "decoder \<Rightarrow> string \<Rightarrow> capture_file \<Rightarrow> ('a \<Rightarrow> item \<Rightarrow> 'a) \<Rightarrow> 'a
    \<Rightarrow> (ingest_error + (link_type \<times> skip_counts) \<times> 'a) option" where
  "parse_file_visit decode path file sink a =
     map_option (map_sum id (\<lambda>(r, a', u). (r, a')))
       (parse_file_visit_named decode path file sink (\<lambda>u _. u) a ())"

definition parse_file :: "decoder \<Rightarrow> string \<Rightarrow> capture_file \<Rightarrow> (ingest_error + replay_parse) option" where
  "parse_file decode path file =
     map_option (map_sum id (\<lambda>((link, skipped), items, names).
         \<lparr>rp_items = items, rp_skipped = skipped, rp_link_type = link, rp_names = names\<rparr>))
       (parse_file_visit_named decode path file (\<lambda>xs x. xs @ [x]) (\<lambda>xs x. xs @ [x]) [] [])"

section \<open>Packets as libpcap delivers them\<close>

text \<open>\<^verbatim>\<open>u64::try_from\<close> of a signed time value with \<^verbatim>\<open>unwrap_or(0)\<close>; the products are not checked.\<close>

definition time_field :: "int \<Rightarrow> u64" where
  "time_field t = (if t < 0 then 0 else of_int t)"

record packet =
  pk_tv_sec :: int
  pk_tv_usec :: int
  pk_len :: u32
  pk_data :: bytes

section \<open>libpcap files (\<^verbatim>\<open>libpcap.rs\<close>)\<close>

datatype pcap_outcome = Packet packet | NoMorePackets | PcapError string

record faucet_state =
  fs_items :: "item list"
  fs_names :: "name_observation list"
  fs_skipped :: skip_counts
  fs_baseline :: "u64 option"

definition libpcap_packet :: "decoder \<Rightarrow> link_type \<Rightarrow> faucet_state \<Rightarrow> packet \<Rightarrow> faucet_state" where
  "libpcap_packet decode link fs p =
     (let abs_ns = time_field (pk_tv_sec p) * 1000000000 + time_field (pk_tv_usec p) * 1000;
          base = (case fs_baseline fs of Some x \<Rightarrow> x | None \<Rightarrow> abs_ns);
          fs1 = fs\<lparr>fs_baseline := Some base\<rparr>;
          ts = sat_sub abs_ns base
      in case decode link ts (pk_data p) (pk_len p) of
           Decoded seg \<Rightarrow> fs1\<lparr>fs_items := fs_items fs1 @ [Segment seg]\<rparr>
         | Names obs \<Rightarrow> fs1\<lparr>fs_names := fs_names fs1 @ obs\<rparr>
         | Skipped reason \<Rightarrow> fs1\<lparr>fs_skipped := skip_record (fs_skipped fs1) reason\<rparr>)"

fun libpcap_loop :: "decoder \<Rightarrow> string \<Rightarrow> link_type \<Rightarrow> faucet_state \<Rightarrow> pcap_outcome list
    \<Rightarrow> (ingest_error + faucet_state) option" where
  "libpcap_loop decode path link fs [] = None"
| "libpcap_loop decode path link fs (Packet p # outs) = libpcap_loop decode path link (libpcap_packet decode link fs p) outs"
| "libpcap_loop decode path link fs (NoMorePackets # outs) = Some (Inr fs)"
| "libpcap_loop decode path link fs (PcapError detail # outs) = Some (Inl (ContainerError path detail))"

definition faucet_state_new :: faucet_state where
  "faucet_state_new = \<lparr>fs_items = [], fs_names = [], fs_skipped = skip_counts_default, fs_baseline = None\<rparr>"

text \<open>An opened file: its data link number and the outcomes of reading it.\<close>

definition parse_file_libpcap :: "decoder \<Rightarrow> string \<Rightarrow> string + int \<times> pcap_outcome list
    \<Rightarrow> (ingest_error + replay_parse) option" where
  "parse_file_libpcap decode path file =
     (case file of
        Inl detail \<Rightarrow> Some (Inl (ContainerError path detail))
      | Inr (dlt, outs) \<Rightarrow>
          (case dlt_to_link dlt of
             Inl e \<Rightarrow> Some (Inl e)
           | Inr link \<Rightarrow>
               map_option (map_sum id (\<lambda>fs.
                   \<lparr>rp_items = fs_items fs, rp_skipped = fs_skipped fs, rp_link_type = link, rp_names = fs_names fs\<rparr>))
                 (libpcap_loop decode path link faucet_state_new outs)))"

section \<open>Live capture (\<^verbatim>\<open>live.rs\<close>)\<close>

definition READ_TIMEOUT_MS :: int where "READ_TIMEOUT_MS = 100"
definition DEFAULT_SNAPLEN :: int where "DEFAULT_SNAPLEN = 262144"

record live_options =
  lo_iface :: string
  lo_filter :: "string option"
  lo_snaplen :: int
  lo_promisc :: bool

definition live_options_new :: "string \<Rightarrow> live_options" where
  "live_options_new iface = \<lparr>lo_iface = iface, lo_filter = None, lo_snaplen = DEFAULT_SNAPLEN, lo_promisc = False\<rparr>"

datatype live_error =
    LiveOpen string string
  | LiveActivate string string
  | LivePrivilege string
  | LiveFilter string string
  | LiveUnsupportedLinkType u16
  | LiveInterfaces string

text \<open>
  Enumerating interfaces: \<open>devices\<close> is what libpcap answers, the names and descriptions or the text of
  its error.
\<close>

record interface_info =
  ii_name :: string
  ii_description :: "string option"

definition list_interfaces :: "string + (string \<times> string option) list \<Rightarrow> live_error + interface_info list" where
  "list_interfaces devices =
     and_then (map_sum LiveInterfaces id devices)
       (\<lambda>ds. Inr (map (\<lambda>(name, desc). \<lparr>ii_name = name, ii_description = desc\<rparr>) ds))"

text \<open>\<^verbatim>\<open>str::contains\<close>.\<close>

fun str_contains :: "string \<Rightarrow> string \<Rightarrow> bool" where
  "str_contains needle [] \<longleftrightarrow> needle = []"
| "str_contains needle (c # cs) \<longleftrightarrow> take (length needle) (c # cs) = needle \<or> str_contains needle cs"

text \<open>The lower-casing of the message is a parameter.\<close>

definition map_open_error :: "(string \<Rightarrow> string) \<Rightarrow> string \<Rightarrow> string \<Rightarrow> live_error" where
  "map_open_error lower iface detail =
     (if str_contains ''permission'' (lower detail) \<or> str_contains ''not permitted'' (lower detail)
         \<or> str_contains ''root'' (lower detail)
      then LivePrivilege iface else LiveActivate iface detail)"

datatype precision = Nano | Micro

text \<open>
  \<^verbatim>\<open>open_with\<close>: \<open>from_device\<close> finds the device, \<open>activate\<close> opens it with the options and the
  precision; both are libpcap.
\<close>

definition open_with :: "(string \<Rightarrow> string) \<Rightarrow> (string \<Rightarrow> string + 'd) \<Rightarrow> ('d \<Rightarrow> int \<Rightarrow> bool \<Rightarrow> int \<Rightarrow> precision \<Rightarrow> string + 'c)
    \<Rightarrow> live_options \<Rightarrow> precision \<Rightarrow> live_error + 'c" where
  "open_with lower from_device activate opts prec =
     (case from_device (lo_iface opts) of
        Inl detail \<Rightarrow> Inl (LiveOpen (lo_iface opts) detail)
      | Inr dev \<Rightarrow>
          (case activate dev (lo_snaplen opts) (lo_promisc opts) READ_TIMEOUT_MS prec of
             Inl detail \<Rightarrow> Inl (map_open_error lower (lo_iface opts) detail)
           | Inr cap \<Rightarrow> Inr cap))"

record 'c live_capture =
  lc_cap :: 'c
  lc_link :: link_type
  lc_nanos :: bool

definition live_open :: "(precision \<Rightarrow> live_error + 'c) \<Rightarrow> ('c \<Rightarrow> int) \<Rightarrow> ('c \<Rightarrow> string \<Rightarrow> string option) \<Rightarrow> live_options
    \<Rightarrow> live_error + 'c live_capture" where
  "live_open attempt get_datalink install opts =
     and_then (case attempt Nano of
                 Inr cap \<Rightarrow> Inr (cap, True)
               | Inl _ \<Rightarrow> and_then (attempt Micro) (\<lambda>cap. Inr (cap, False)))
       (\<lambda>(cap, nanos).
          let dlt = get_datalink cap
          in and_then (if 0 \<le> dlt \<and> dlt < 65536 then ok_or (LiveUnsupportedLinkType (of_int dlt)) (from_dlt (of_int dlt))
                       else Inl (LiveUnsupportedLinkType 0xFFFF))
               (\<lambda>link. case lo_filter opts of
                  None \<Rightarrow> Inr \<lparr>lc_cap = cap, lc_link = link, lc_nanos = nanos\<rparr>
                | Some expr \<Rightarrow>
                    (case install cap expr of
                       Some detail \<Rightarrow> Inl (LiveFilter expr detail)
                     | None \<Rightarrow> Inr \<lparr>lc_cap = cap, lc_link = link, lc_nanos = nanos\<rparr>)))"

datatype live_event = LiveItem item | LiveName name_observation

definition normalize_ts :: "u64 \<Rightarrow> u64 option \<Rightarrow> nanos \<times> u64 option" where
  "normalize_ts abs_ns baseline =
     (let base = (case baseline of Some x \<Rightarrow> x | None \<Rightarrow> abs_ns) in (sat_sub abs_ns base, Some base))"

text \<open>The wall clock: nanoseconds since the epoch, or nothing when it is set before it.\<close>

definition wall_now_ns :: "nat option \<Rightarrow> u64" where
  "wall_now_ns since_epoch = (case since_epoch of Some d \<Rightarrow> u64_of d | None \<Rightarrow> 0)"

text \<open>
  One iteration of the capture loop: the stop flag read before it and what reading the handle
  gives; a timeout comes with the wall clock read for it.
\<close>

datatype live_outcome = LivePacket packet | TimeoutExpired "nat option" | LiveReadError

record live_state =
  lv_baseline :: "u64 option"
  lv_skipped :: skip_counts
  lv_diagnostic :: u64
  lv_events :: "live_event list"

definition live_packet :: "decoder \<Rightarrow> link_type \<Rightarrow> bool \<Rightarrow> live_state \<Rightarrow> packet \<Rightarrow> live_state" where
  "live_packet decode link nanos ls p =
     (let sub = time_field (pk_tv_usec p);
          abs_ns = time_field (pk_tv_sec p) * 1000000000 + (if nanos then sub else sub * 1000);
          (ts, base) = normalize_ts abs_ns (lv_baseline ls);
          ls1 = ls\<lparr>lv_baseline := base\<rparr>
      in case decode link ts (pk_data p) (pk_len p) of
           Decoded seg \<Rightarrow> ls1\<lparr>lv_events := lv_events ls1 @ [LiveItem (Segment seg)]\<rparr>
         | Names obs \<Rightarrow> ls1\<lparr>lv_events := lv_events ls1 @ map LiveName obs\<rparr>
         | Skipped reason \<Rightarrow>
             ls1\<lparr>lv_skipped := skip_record (lv_skipped ls1) reason,
                 lv_diagnostic := lv_diagnostic ls1 + (if reason \<noteq> NonTcp then 1 else 0)\<rparr>)"

fun live_run :: "decoder \<Rightarrow> link_type \<Rightarrow> bool \<Rightarrow> live_state \<Rightarrow> (bool \<times> live_outcome) list \<Rightarrow> live_state option" where
  "live_run decode link nanos ls [] = None"
| "live_run decode link nanos ls ((stop, out) # outs) =
     (if stop then Some ls
      else case out of
          LivePacket p \<Rightarrow> live_run decode link nanos (live_packet decode link nanos ls p) outs
        | TimeoutExpired now \<Rightarrow>
            (let (ts, base) = normalize_ts (wall_now_ns now) (lv_baseline ls)
             in live_run decode link nanos (ls\<lparr>lv_baseline := base, lv_events := lv_events ls @ [LiveItem (Tick ts)]\<rparr>) outs)
        | LiveReadError \<Rightarrow> Some ls)"

definition live_state_new :: live_state where
  "live_state_new = \<lparr>lv_baseline = None, lv_skipped = skip_counts_default, lv_diagnostic = 0, lv_events = []\<rparr>"

end
