(* ===== verification/Ingest_Properties.thy ===== *)
theory Ingest_Properties
  imports Ingest
begin

text \<open>
  What the faucets promise: the link stripper undoes encapsulation, a frame decodes to
  exactly the segment of its headers, streaming a capture is folding it, and the three faucets agree
  on the same packets.
\<close>

section \<open>Ethernet frames with VLAN tags\<close>

definition to_be16 :: "u16 \<Rightarrow> bytes" where
  "to_be16 w = [ucast (drop_bit 8 w), ucast w]"

lemma be16_to_be16:
  assumes "k = length pre"
  shows "be16 (pre @ to_be16 w @ rest) k = Some w"
proof -
  have "unat w < 65536" using unsigned_less [of w] by simp
  then have w: "unat w div 256 < 256" by (simp add: less_mult_imp_div_less)
  have "unat (ucast (drop_bit 8 w) :: u8) = unat w div 256" "unat (ucast w :: u8) = unat w mod 256"
    using w by (simp_all add: unsigned_ucast_eq unsigned_drop_bit_eq drop_bit_eq_div take_bit_eq_mod unat_div)
  then have "unat (ucast (drop_bit 8 w) :: u8) * 256 + unat (ucast w :: u8) = unat w" by simp
  moreover have "(pre @ to_be16 w @ rest) ! k = ucast (drop_bit 8 w)" "(pre @ to_be16 w @ rest) ! (k + 1) = ucast w"
    using assms by (simp_all add: nth_append to_be16_def)
  moreover have "k + 2 \<le> length (pre @ to_be16 w @ rest)" using assms by (simp add: to_be16_def)
  moreover have "of_nat (unat w) = w" by simp
  ultimately show ?thesis by (simp only: be16_def if_True)
qed

definition ethertype_ip :: "u16 \<Rightarrow> bool" where
  "ethertype_ip et \<longleftrightarrow> et = ETHERTYPE_IPV4 \<or> et = ETHERTYPE_IPV6"

definition ethertype_vlan :: "u16 \<Rightarrow> bool" where
  "ethertype_vlan et \<longleftrightarrow> et = VLAN_8021Q \<or> et = VLAN_8021AD"

lemmas ethertype_defs = ETHERTYPE_IPV4_def ETHERTYPE_IPV6_def VLAN_8021Q_def VLAN_8021AD_def

text \<open>Addresses, VLAN tags (protocol and two bytes of control information), the type, the payload.\<close>

definition tag_bytes :: "(u16 \<times> u8 \<times> u8) list \<Rightarrow> bytes" where
  "tag_bytes tags = concat (map (\<lambda>(tpid, hi, lo). to_be16 tpid @ [hi, lo]) tags)"

definition ethernet_frame :: "bytes \<Rightarrow> (u16 \<times> u8 \<times> u8) list \<Rightarrow> u16 \<Rightarrow> bytes \<Rightarrow> bytes" where
  "ethernet_frame macs tags et payload = macs @ tag_bytes tags @ to_be16 et @ payload"

lemma strip_ethernet_from_tags:
  assumes "list_all (\<lambda>(tpid, _). ethertype_vlan tpid) tags" and "\<not> ethertype_vlan et"
  shows "strip_ethernet_from (pre @ tag_bytes tags @ to_be16 et @ payload) (length pre)
    = (if ethertype_ip et then Ip payload else Skip NonTcp)"
  using assms(1)
proof (induction tags arbitrary: pre)
  case Nil
  have "get_from (pre @ to_be16 et @ payload) (length pre + 2) = Some payload"
    by (simp add: get_from_def to_be16_def)
  then show ?case using assms(2) be16_to_be16 [OF refl, of pre et payload]
    by (simp add: strip_ethernet_from.simps [of "pre @ to_be16 et @ payload"] tag_bytes_def ethertype_ip_def ethertype_vlan_def)
next
  case (Cons t tags)
  obtain tpid hi lo where t: "t = (tpid, hi, lo)" by (cases t)
  let ?rest = "tag_bytes tags @ to_be16 et @ payload"
  have v: "ethertype_vlan tpid" using Cons.prems t by simp
  then have "\<not> ethertype_ip tpid" by (auto simp: ethertype_vlan_def ethertype_ip_def ethertype_defs)
  moreover have "be16 (pre @ to_be16 tpid @ [hi, lo] @ ?rest) (length pre) = Some tpid"
    using be16_to_be16 [OF refl] by simp
  ultimately have "strip_ethernet_from (pre @ to_be16 tpid @ [hi, lo] @ ?rest) (length pre)
      = strip_ethernet_from ((pre @ to_be16 tpid @ [hi, lo]) @ ?rest) (length (pre @ to_be16 tpid @ [hi, lo]))"
    using v by (subst strip_ethernet_from.simps) (simp add: ethertype_vlan_def ethertype_ip_def to_be16_def numeral_eq_Suc)
  also have "\<dots> = (if ethertype_ip et then Ip payload else Skip NonTcp)"
    using Cons.prems by (intro Cons.IH) simp
  finally show ?case by (simp add: t tag_bytes_def)
qed

text \<open>
  Claim C32: the link stripper undoes Ethernet encapsulation. Through any number of VLAN tags it finds
  the type; for IPv4 and IPv6 it gives exactly the payload, and any other type is skipped as
  not TCP.
\<close>

theorem strip_ethernet_tags:
  assumes "length macs = 12" and "list_all (\<lambda>(tpid, _). ethertype_vlan tpid) tags" and "\<not> ethertype_vlan et"
  shows "strip_link Ethernet (ethernet_frame macs tags et payload)
    = (if ethertype_ip et then Ip payload else Skip NonTcp)"
  using strip_ethernet_from_tags [OF assms(2,3), of macs payload] assms(1)
  by (simp add: strip_ethernet_def ethernet_frame_def)

theorem strip_ethernet_tags_witness:
  "strip_link Ethernet (ethernet_frame (replicate 12 7) [(VLAN_8021AD, 0, 1), (VLAN_8021Q, 0, 2)] ETHERTYPE_IPV6 [96, 1])
     = Ip [96, 1]"
  using strip_ethernet_tags [of "replicate 12 7" "[(VLAN_8021AD, 0, 1), (VLAN_8021Q, 0, 2)]" ETHERTYPE_IPV6 "[96, 1]"]
  by (simp add: ethertype_vlan_def ethertype_ip_def ethertype_defs)

section \<open>Segments\<close>

lemma bit_foldl_or:
  "bit (foldl (\<lambda>bits (on, b). if on then bits OR b else bits) (w :: u16) ps) n
     \<longleftrightarrow> bit w n \<or> (\<exists>(on, b)\<in>set ps. on \<and> bit b n)"
proof (induction ps arbitrary: w)
  case (Cons p ps)
  obtain on b where "p = (on, b)" by (cases p)
  then show ?case using Cons.IH [of "if on then w OR b else w"] by (simp add: bit_or_iff)
qed simp

lemma flag_powers:
  "FIN = 2 ^ 0" "SYN = 2 ^ 1" "RST = 2 ^ 2" "PSH = 2 ^ 3" "ACK = 2 ^ 4" "URG = 2 ^ 5" "ECE = 2 ^ 6" "CWR = 2 ^ 7" "NS = 2 ^ 8"
  by (simp_all add: flag_defs)

lemma flag_test: "f AND 2 ^ n \<noteq> 0 \<longleftrightarrow> bit (f :: u16) n"
  unfolding and_exp_eq_0_iff_not_bit not_not ..

lemma flag_bits:
  "fl_fin f = bit f 0" "fl_syn f = bit f 1" "fl_rst f = bit f 2" "fl_psh f = bit f 3" "fl_ack f = bit f 4"
  "fl_urg f = bit f 5" "fl_ece f = bit f 6" "fl_cwr f = bit f 7" "fl_ns f = bit f 8"
  unfolding fl_defs flag_powers by (rule flag_test)+

lemma build_flags_bits:
  "fl_fin (build_flags tcp) = ts_fin tcp" "fl_syn (build_flags tcp) = ts_syn tcp" "fl_rst (build_flags tcp) = ts_rst tcp"
  "fl_psh (build_flags tcp) = ts_psh tcp" "fl_ack (build_flags tcp) = ts_ack tcp" "fl_urg (build_flags tcp) = ts_urg tcp"
  "fl_ece (build_flags tcp) = ts_ece tcp" "fl_cwr (build_flags tcp) = ts_cwr tcp" "fl_ns (build_flags tcp) = ts_ns tcp"
  by (simp_all add: build_flags_def flag_bits bit_foldl_or flag_defs bit_0 bit_numeral_rec bit_1_iff)


lemma decode_ip_Decoded:
  "decode_ip parse_packet ts ip truncated sliced = Decoded seg \<longleftrightarrow>
     (\<exists>net srcip dstip tcp. sl_net sliced = Some net \<and> net_addresses net = Some (srcip, dstip, False)
        \<and> sl_transport sliced = Some (Tcp tcp) \<and> seg = decode_segment ts srcip dstip ip net tcp)"
proof (cases "sl_net sliced")
  case None
  then show ?thesis by (simp add: decode_ip_def)
next
  case (Some net)
  then show ?thesis
    by (auto simp: decode_ip_def Let_def split: option.splits transport_slice.splits if_splits)
qed

text \<open>The last of the values an option was sent with.\<close>

definition last_opt :: "'x list \<Rightarrow> 'x option" where
  "last_opt xs = (if xs = [] then None else Some (last xs))"

text \<open>The options before the first that does not parse.\<close>

definition readable_options :: "tcp_slice \<Rightarrow> tcp_option_element list" where
  "readable_options tcp = map the (takeWhile (\<lambda>e. e \<noteq> None) (ts_options tcp))"

definition options_of :: "tcp_option_element list \<Rightarrow> tcp_options" where
  "options_of es =
     \<lparr>mss = last_opt [v. MaximumSegmentSize v \<leftarrow> es], window_scale = last_opt [v. WindowScale v \<leftarrow> es],
      sack_permitted = (SelectiveAcknowledgementPermitted \<in> set es), timestamp = last_opt [(a, b). Timestamp a b \<leftarrow> es],
      sack_blocks = concat [first # [blk. Some blk \<leftarrow> rest]. SelectiveAcknowledgement first rest \<leftarrow> es]\<rparr>"

lemma map_filter_id: "List.map_filter (\<lambda>x. x) xs = [y. Some y \<leftarrow> xs]"
  by (induction xs) (auto simp: List.map_filter_def split: option.split)

lemma options_of_snoc: "options_of (es @ [e]) = apply_option (options_of es) e"
  by (cases e) (simp_all add: options_of_def last_opt_def map_filter_id)

lemma parse_options_loop_takeWhile:
  "parse_options_loop opts es = foldl apply_option opts (map the (takeWhile (\<lambda>e. e \<noteq> None) es))"
  by (induction opts es rule: parse_options_loop.induct) simp_all

lemma parse_options_spec: "parse_options tcp = options_of (readable_options tcp)"
proof -
  have "foldl apply_option tcp_options_default es = options_of es" for es
    by (induction es rule: rev_induct)
      (simp_all add: options_of_snoc, simp add: options_of_def tcp_options_default_def last_opt_def)
  then show ?thesis by (simp add: parse_options_def parse_options_loop_takeWhile readable_options_def)
qed

text \<open>
  The length of the payload: the length of the IP packet by its header, less where the payload
  starts, when the packet was captured up to there and is that long; the captured length otherwise.
\<close>

definition payload_length :: "nat \<Rightarrow> bytes \<Rightarrow> tcp_slice \<Rightarrow> nat" where
  "payload_length ip_len ip tcp =
     (let payload_start = ts_start tcp + 4 * int (unat (ts_data_offset tcp))
      in if 0 \<le> ts_start tcp \<and> payload_start \<le> int (length ip) \<and> payload_start \<le> int ip_len
         then nat (int ip_len - payload_start) else min (ts_payload_len tcp) (2 ^ 32 - 1))"

lemma unat_u32_of: "unat (u32_of n) = min n (2 ^ 32 - 1)"
  by (auto simp: u32_of_def unat_of_nat)

lemma payload_length_offset:
  "payload_length ip_len ip tcp =
     (if 0 \<le> ts_start tcp \<and> nat (ts_start tcp) + unat (ts_data_offset tcp) * 4 \<le> min (length ip) ip_len
      then ip_len - (nat (ts_start tcp) + unat (ts_data_offset tcp) * 4) else min (ts_payload_len tcp) (2 ^ 32 - 1))"
proof (cases "ts_start tcp < 0")
  case True
  then show ?thesis by (simp add: payload_length_def)
next
  case False
  then obtain off where off: "ts_start tcp = int off" by (metis nat_int_comparison(3) not_le zero_le_imp_eq_int linorder_not_less)
  define n where "n = unat (ts_data_offset tcp)"
  show ?thesis unfolding payload_length_def off n_def [symmetric] Let_def by (auto simp: min_le_iff_disj)
qed

lemma derive_payload_len_spec:
  "unat (derive_payload_len ip (NetIpv4 v4) tcp) = payload_length (unat (v4_total_len v4)) ip tcp"
  "unat (derive_payload_len ip (NetIpv6 v6) tcp) = payload_length (40 + unat (v6_payload_length v6)) ip tcp"
proof -
  have "unat (v4_total_len v4) < 65536" "unat (v6_payload_length v6) < 65536"
    using unsigned_less [of "v4_total_len v4"] unsigned_less [of "v6_payload_length v6"] by simp_all
  then show "unat (derive_payload_len ip (NetIpv4 v4) tcp) = payload_length (unat (v4_total_len v4)) ip tcp"
    "unat (derive_payload_len ip (NetIpv6 v6) tcp) = payload_length (40 + unat (v6_payload_length v6)) ip tcp"
    by (simp_all add: derive_payload_len_def subslice_offset_def IPV6_HEADER_LEN_def Let_def unat_u32_of payload_length_offset)
qed

lemma build_flags_low: "take_bit 9 (build_flags tcp) = build_flags tcp"
proof (rule bit_word_eqI)
  fix n
  have "bit (build_flags tcp) n \<Longrightarrow> n < 9"
    unfolding build_flags_def bit_foldl_or flag_powers list.set by (auto simp only: bit_exp_iff prod.case bit_0_eq bot_apply bot_bool_def)
  then show "bit (take_bit 9 (build_flags tcp)) n = bit (build_flags tcp) n" by (auto simp: bit_take_bit_iff)
qed

lemma build_flags_unique:
  "f = build_flags tcp \<longleftrightarrow> take_bit 9 f = f
     \<and> [fl_fin f, fl_syn f, fl_rst f, fl_psh f, fl_ack f, fl_urg f, fl_ece f, fl_cwr f, fl_ns f]
       = [ts_fin tcp, ts_syn tcp, ts_rst tcp, ts_psh tcp, ts_ack tcp, ts_urg tcp, ts_ece tcp, ts_cwr tcp, ts_ns tcp]"
    (is "_ \<longleftrightarrow> _ \<and> ?bits")
proof
  assume low: "take_bit 9 f = f \<and> ?bits"
  have same: "bit f 0 = bit (build_flags tcp) 0" "bit f 1 = bit (build_flags tcp) 1" "bit f 2 = bit (build_flags tcp) 2"
    "bit f 3 = bit (build_flags tcp) 3" "bit f 4 = bit (build_flags tcp) 4" "bit f 5 = bit (build_flags tcp) 5"
    "bit f 6 = bit (build_flags tcp) 6" "bit f 7 = bit (build_flags tcp) 7" "bit f 8 = bit (build_flags tcp) 8"
    using low build_flags_bits [of tcp] unfolding flag_bits list.inject by simp_all
  have "bit f n = bit (build_flags tcp) n" if "n < 9" for n
  proof -
    from that have "n \<in> {0, 1, 2, 3, 4, 5, 6, 7, 8}" by auto
    then show ?thesis using same by (elim insertE emptyE) (simp_all only:)
  qed
  then have "take_bit 9 f = take_bit 9 (build_flags tcp)" by (intro bit_word_eqI) (auto simp: bit_take_bit_iff)
  then show "f = build_flags tcp" using low build_flags_low by simp
qed (simp add: build_flags_bits build_flags_low)

lemma decode_segment_fields:
  "seg = decode_segment ts s d ip net tcp \<longleftrightarrow>
     src_ip (seg_flow seg) = s \<and> dst_ip (seg_flow seg) = d \<and> unat (payload_len seg) = unat (derive_payload_len ip net tcp)
     \<and> src_port (seg_flow seg) = ts_source_port tcp \<and> dst_port (seg_flow seg) = ts_destination_port tcp
     \<and> seg_ts seg = ts \<and> seg_seq seg = ts_sequence_number tcp \<and> seg_ack seg = ts_acknowledgment_number tcp
     \<and> seg_window seg = ts_window_size tcp
     \<and> [fl_fin (seg_flags seg), fl_syn (seg_flags seg), fl_rst (seg_flags seg), fl_psh (seg_flags seg),
         fl_ack (seg_flags seg), fl_urg (seg_flags seg), fl_ece (seg_flags seg), fl_cwr (seg_flags seg), fl_ns (seg_flags seg)]
       = [ts_fin tcp, ts_syn tcp, ts_rst tcp, ts_psh tcp, ts_ack tcp, ts_urg tcp, ts_ece tcp, ts_cwr tcp, ts_ns tcp]
     \<and> take_bit 9 (seg_flags seg) = seg_flags seg
     \<and> mss (seg_options seg) = last_opt [v. MaximumSegmentSize v \<leftarrow> readable_options tcp]
     \<and> window_scale (seg_options seg) = last_opt [v. WindowScale v \<leftarrow> readable_options tcp]
     \<and> timestamp (seg_options seg) = last_opt [(v, e). Timestamp v e \<leftarrow> readable_options tcp]
     \<and> sack_permitted (seg_options seg) = (SelectiveAcknowledgementPermitted \<in> set (readable_options tcp))
     \<and> sack_blocks (seg_options seg)
       = concat [first # [blk. Some blk \<leftarrow> rest]. SelectiveAcknowledgement first rest \<leftarrow> readable_options tcp]"
proof -
  have "seg = decode_segment ts s d ip net tcp \<longleftrightarrow>
      src_ip (seg_flow seg) = s \<and> dst_ip (seg_flow seg) = d \<and> unat (payload_len seg) = unat (derive_payload_len ip net tcp)
      \<and> src_port (seg_flow seg) = ts_source_port tcp \<and> dst_port (seg_flow seg) = ts_destination_port tcp
      \<and> seg_ts seg = ts \<and> seg_seq seg = ts_sequence_number tcp \<and> seg_ack seg = ts_acknowledgment_number tcp
      \<and> seg_window seg = ts_window_size tcp \<and> seg_flags seg = build_flags tcp \<and> seg_options seg = options_of (readable_options tcp)"
    by (cases seg; cases "seg_flow seg") (auto simp: decode_segment_def parse_options_spec dest: iffD2 [OF word_unat_eq_iff])
  moreover have "seg_options seg = options_of es \<longleftrightarrow>
     mss (seg_options seg) = last_opt [v. MaximumSegmentSize v \<leftarrow> es]
     \<and> window_scale (seg_options seg) = last_opt [v. WindowScale v \<leftarrow> es]
     \<and> timestamp (seg_options seg) = last_opt [(v, e). Timestamp v e \<leftarrow> es]
     \<and> sack_permitted (seg_options seg) = (SelectiveAcknowledgementPermitted \<in> set es)
     \<and> sack_blocks (seg_options seg) = concat [first # [blk. Some blk \<leftarrow> rest]. SelectiveAcknowledgement first rest \<leftarrow> es]" for es
    by (cases "seg_options seg") (simp add: options_of_def conj_commute conj_left_commute)
  ultimately show ?thesis unfolding build_flags_unique by blast
qed

lemma decode_ip_addresses:
  "decode_ip parse_packet ts ip truncated sliced = Decoded seg \<longleftrightarrow>
     (\<exists>tcp. sl_transport sliced = Some (Tcp tcp)
        \<and> ((\<exists>v4. sl_net sliced = Some (NetIpv4 v4) \<and> v4_fragmented v4 = False
              \<and> seg = decode_segment ts (V4 (v4_source_addr v4)) (V4 (v4_destination_addr v4)) ip (NetIpv4 v4) tcp)
          \<or> (\<exists>v6. sl_net sliced = Some (NetIpv6 v6) \<and> v6_fragmented v6 = False
              \<and> seg = decode_segment ts (V6 (v6_source_addr v6)) (V6 (v6_destination_addr v6)) ip (NetIpv6 v6) tcp)))"
proof (cases "sl_net sliced")
  case (Some net)
  then show ?thesis unfolding decode_ip_Decoded by (cases net) (auto simp: net_addresses_def)
qed (simp add: decode_ip_Decoded)

text \<open>
  Claim C31: whatever the header parser returns, a frame decodes to a segment exactly when its link
  header is stripped and the packet is an unfragmented IPv4 or IPv6 packet with a TCP header, and
  the segment is exactly the one of the headers: the source and destination addresses and ports, the
  sequence and acknowledgement number, the window and the time; each of the nine flags is set exactly
  when the header has it and no other bit is; of the options before the first malformed one the last
  maximum segment size, window scale and timestamp, whether SACK is permitted, and all SACK
  blocks in order; the payload length is that of the wire, by the length field of the IP header, or
  the captured one where the headers are inconsistent.
\<close>

theorem decode_frame_segment:
  "decode_frame from_ip parse_packet link ts frame wire_len = Decoded seg \<longleftrightarrow>
     (\<exists>ip sliced tcp. strip_link link frame = Ip ip \<and> from_ip ip = Inr sliced \<and> sl_transport sliced = Some (Tcp tcp)
        \<and> ((\<exists>v4. sl_net sliced = Some (NetIpv4 v4) \<and> v4_fragmented v4 = False
              \<and> src_ip (seg_flow seg) = V4 (v4_source_addr v4) \<and> dst_ip (seg_flow seg) = V4 (v4_destination_addr v4)
              \<and> unat (payload_len seg) = payload_length (unat (v4_total_len v4)) ip tcp)
           \<or> (\<exists>v6. sl_net sliced = Some (NetIpv6 v6) \<and> v6_fragmented v6 = False
              \<and> src_ip (seg_flow seg) = V6 (v6_source_addr v6) \<and> dst_ip (seg_flow seg) = V6 (v6_destination_addr v6)
              \<and> unat (payload_len seg) = payload_length (40 + unat (v6_payload_length v6)) ip tcp))
        \<and> src_port (seg_flow seg) = ts_source_port tcp \<and> dst_port (seg_flow seg) = ts_destination_port tcp
        \<and> seg_ts seg = ts \<and> seg_seq seg = ts_sequence_number tcp \<and> seg_ack seg = ts_acknowledgment_number tcp
        \<and> seg_window seg = ts_window_size tcp
        \<and> [fl_fin (seg_flags seg), fl_syn (seg_flags seg), fl_rst (seg_flags seg), fl_psh (seg_flags seg),
            fl_ack (seg_flags seg), fl_urg (seg_flags seg), fl_ece (seg_flags seg), fl_cwr (seg_flags seg), fl_ns (seg_flags seg)]
          = [ts_fin tcp, ts_syn tcp, ts_rst tcp, ts_psh tcp, ts_ack tcp, ts_urg tcp, ts_ece tcp, ts_cwr tcp, ts_ns tcp]
        \<and> take_bit 9 (seg_flags seg) = seg_flags seg
        \<and> mss (seg_options seg) = last_opt [v. MaximumSegmentSize v \<leftarrow> readable_options tcp]
        \<and> window_scale (seg_options seg) = last_opt [v. WindowScale v \<leftarrow> readable_options tcp]
        \<and> timestamp (seg_options seg) = last_opt [(v, e). Timestamp v e \<leftarrow> readable_options tcp]
        \<and> sack_permitted (seg_options seg) = (SelectiveAcknowledgementPermitted \<in> set (readable_options tcp))
        \<and> sack_blocks (seg_options seg)
          = concat [first # [blk. Some blk \<leftarrow> rest]. SelectiveAcknowledgement first rest \<leftarrow> readable_options tcp])"
  (is "_ \<longleftrightarrow> (\<exists>ip sliced tcp. ?stripped ip \<and> ?sliced ip sliced \<and> ?tcp sliced tcp \<and> ?net ip sliced tcp \<and> ?header tcp)")
proof -
  define header where "header = (\<lambda>tcp. ?header tcp)"
  have fields: "seg = decode_segment ts s d ip net tcp \<longleftrightarrow>
      src_ip (seg_flow seg) = s \<and> dst_ip (seg_flow seg) = d \<and> unat (payload_len seg) = unat (derive_payload_len ip net tcp)
      \<and> header tcp" for s d ip net tcp
    unfolding header_def by (rule decode_segment_fields)
  have "decode_frame from_ip parse_packet link ts frame wire_len = Decoded seg \<longleftrightarrow>
     (\<exists>ip sliced. strip_link link frame = Ip ip \<and> from_ip ip = Inr sliced
        \<and> decode_ip parse_packet ts ip (length frame < unat wire_len) sliced = Decoded seg)"
    by (auto simp: decode_frame_def Let_def split: stripped.splits sum.splits header_slice_error.splits)
  then have "decode_frame from_ip parse_packet link ts frame wire_len = Decoded seg \<longleftrightarrow>
     (\<exists>ip sliced tcp. ?stripped ip \<and> ?sliced ip sliced \<and> ?tcp sliced tcp \<and> ?net ip sliced tcp \<and> header tcp)"
    unfolding decode_ip_addresses fields derive_payload_len_spec by auto
  then show ?thesis unfolding header_def .
qed

section \<open>Streaming\<close>

definition push :: "'x list \<Rightarrow> 'x \<Rightarrow> 'x list" where
  "push xs x = xs @ [x]"

lemma foldl_push: "foldl push xs ys = xs @ ys"
  by (induction ys arbitrary: xs) (simp_all add: push_def)

definition folded :: "('a \<Rightarrow> item \<Rightarrow> 'a) \<Rightarrow> ('b \<Rightarrow> name_observation \<Rightarrow> 'b) \<Rightarrow> 'a \<Rightarrow> 'b
    \<Rightarrow> replay_state \<times> item list \<times> name_observation list \<Rightarrow> replay_state \<times> 'a \<times> 'b" where
  "folded sink nsink a b = (\<lambda>(st, xs, ys). (st, foldl sink a xs, foldl nsink b ys))"

lemma process_packet_folded:
  "process_packet decode path sink nsink (folded sink nsink a b sxy) abs_ns origlen data
     = map_sum id (folded sink nsink a b) (process_packet decode path push push sxy abs_ns origlen data)"
proof -
  obtain st xs ys where s: "sxy = (st, xs, ys)" by (cases sxy)
  show ?thesis
    by (cases "rs_link_type st")
      (auto simp: s folded_def process_packet_def Let_def push_def foldl_push split: decode_outcome.splits)
qed

lemma handle_block_folded:
  "handle_block decode path sink nsink (folded sink nsink a b sxy) block
     = map_sum id (folded sink nsink a b) (handle_block decode path push push sxy block)"
proof -
  obtain st xs ys where s: "sxy = (st, xs, ys)" by (cases sxy)
  have f: "folded sink nsink a b (st, xs, ys) = (st, foldl sink a xs, foldl nsink b ys)" by (simp add: folded_def)
  note pp = process_packet_folded [of decode path sink nsink a b "(st, xs, ys)", unfolded f]
  show ?thesis
  proof (cases block)
    case (InterfaceDescription lt res)
    then show ?thesis
      by (auto simp: s folded_def and_then_def ok_or_def split: sum.splits option.splits)
  qed (auto simp: s f pp Let_def and_then_def folded_def split: sum.splits)
qed

lemma read_loop_folded:
  "read_loop decode path sink nsink (folded sink nsink a b sxy) outs
     = map_option (map_sum id (folded sink nsink a b)) (read_loop decode path push push sxy outs)"
proof (induction decode path "push :: item list \<Rightarrow> item \<Rightarrow> item list"
    "push :: name_observation list \<Rightarrow> name_observation \<Rightarrow> name_observation list" sxy outs rule: read_loop.induct)
  case (2 decode path sab block outs)
  then show ?case by (cases "handle_block decode path push push sab block") (simp_all add: handle_block_folded)
qed simp_all

lemma parse_file_push:
  "parse_file decode path file =
     map_option (map_sum id (\<lambda>((link, skipped), items, names).
         \<lparr>rp_items = items, rp_skipped = skipped, rp_link_type = link, rp_names = names\<rparr>))
       (parse_file_visit_named decode path file push push [] [])"
  by (simp add: parse_file_def push_def [abs_def])

lemma visit_named_folded:
  "parse_file_visit_named decode path file sink nsink a b =
     map_option (map_sum id (\<lambda>(r, xs, ys). (r, foldl sink a xs, foldl nsink b ys)))
       (parse_file_visit_named decode path file push push [] [])"
proof (cases "file")
  case (Readable outs)
  have "folded sink nsink a b (replay_state_new, [], []) = (replay_state_new, a, b)" by (simp add: folded_def)
  from read_loop_folded [of decode path sink nsink a b "(replay_state_new, [], [])" outs, unfolded this]
  show ?thesis
    by (auto simp: parse_file_visit_named_def Readable option.map_comp folded_def and_then_def ok_or_def comp_def
        split: sum.splits option.splits intro!: option.map_cong0)
qed (simp_all add: parse_file_visit_named_def)

section \<open>Parity of the faucets\<close>

text \<open>A record of a microsecond capture: seconds, microseconds, original length, bytes.\<close>

record pcap_record =
  pr_sec :: u32
  pr_usec :: u32
  pr_origlen :: u32
  pr_data :: bytes

definition as_legacy :: "pcap_record \<Rightarrow> pcap_block" where
  "as_legacy r = Legacy (pr_sec r) (pr_usec r) (pr_origlen r) (pr_data r)"

definition as_packet :: "pcap_record \<Rightarrow> packet" where
  "as_packet r = \<lparr>pk_tv_sec = uint (pr_sec r), pk_tv_usec = uint (pr_usec r), pk_len = pr_origlen r, pk_data = pr_data r\<rparr>"

definition record_ns :: "pcap_record \<Rightarrow> u64" where
  "record_ns r = ucast (pr_sec r) * 1000000000 + ucast (pr_usec r) * 1000"

lemma record_ns_packet:
  "time_field (pk_tv_sec (as_packet r)) * 1000000000 + time_field (pk_tv_usec (as_packet r)) * 1000 = record_ns r"
  by (simp add: time_field_def as_packet_def record_ns_def)

lemma record_ns_legacy:
  "sat_add (sat_mul (ucast (pr_sec r)) 1000000000) (sat_mul (ucast (pr_usec r)) MICRO_TICK_NS) = record_ns r"
proof -
  have s: "unat (pr_sec r) < 2 ^ 32" and u: "unat (pr_usec r) < 2 ^ 32"
    using unsigned_less [of "pr_sec r"] unsigned_less [of "pr_usec r"] by simp_all
  have c: "unat (ucast (pr_sec r) :: u64) = unat (pr_sec r)" "unat (ucast (pr_usec r) :: u64) = unat (pr_usec r)"
    by (simp_all add: unsigned_ucast_eq take_bit_nat_eq_self_iff order_less_trans [OF s] order_less_trans [OF u])
  show ?thesis
    using s u by (simp add: sat_mul_def sat_add_def record_ns_def MICRO_TICK_NS_def c unat_word_ariths)
qed

text \<open>The three loops in step, on one record.\<close>

definition in_step :: "link_type \<Rightarrow> replay_state \<times> item list \<times> name_observation list \<Rightarrow> faucet_state \<Rightarrow> live_state \<Rightarrow> bool" where
  "in_step link sxy fs ls \<longleftrightarrow>
     (case sxy of (st, xs, ys) \<Rightarrow>
        rs_link_type st = Some link \<and> rs_nanos_per_tick st = MICRO_TICK_NS
        \<and> fs_baseline fs = rs_baseline st \<and> fs_skipped fs = rs_skipped st \<and> fs_items fs = xs \<and> fs_names fs = ys
        \<and> lv_baseline ls = rs_baseline st \<and> lv_skipped ls = rs_skipped st
        \<and> List.map_filter (\<lambda>e. case e of LiveItem i \<Rightarrow> Some i | LiveName _ \<Rightarrow> None) (lv_events ls) = xs
        \<and> List.map_filter (\<lambda>e. case e of LiveName n \<Rightarrow> Some n | LiveItem _ \<Rightarrow> None) (lv_events ls) = ys)"

lemma map_filter_append: "List.map_filter f (xs @ ys) = List.map_filter f xs @ List.map_filter f ys"
  by (simp add: List.map_filter_def)

lemma map_filter_names:
  "List.map_filter (\<lambda>e. case e of LiveItem i \<Rightarrow> Some i | LiveName _ \<Rightarrow> None) (map LiveName obs) = []"
  "List.map_filter (\<lambda>e. case e of LiveName n \<Rightarrow> Some n | LiveItem _ \<Rightarrow> None) (map LiveName obs) = obs"
  by (induction obs) simp_all

lemma in_step_record:
  assumes "in_step link sxy fs ls"
  shows "\<exists>sxy'. handle_block decode path push push sxy (as_legacy r) = Inr sxy'
    \<and> in_step link sxy' (libpcap_packet decode link fs (as_packet r)) (live_packet decode link False ls (as_packet r))"
proof -
  obtain st xs ys where s: "sxy = (st, xs, ys)" by (cases sxy)
  define base where "base = (case rs_baseline st of Some x \<Rightarrow> x | None \<Rightarrow> record_ns r)"
  define out where "out = decode link (sat_sub (record_ns r) base) (pr_data r) (pr_origlen r)"
  have d: "pk_data (as_packet r) = pr_data r" "pk_len (as_packet r) = pr_origlen r" by (simp_all add: as_packet_def)
  have a: "handle_block decode path push push sxy (as_legacy r)
      = process_packet decode path push push (st, xs, ys) (record_ns r) (pr_origlen r) (pr_data r)"
    using assms record_ns_legacy [of r] by (simp add: s as_legacy_def in_step_def Let_def)
  have b: "libpcap_packet decode link fs (as_packet r) =
      (case out of Decoded seg \<Rightarrow> fs\<lparr>fs_baseline := Some base, fs_items := xs @ [Segment seg]\<rparr>
         | Names obs \<Rightarrow> fs\<lparr>fs_baseline := Some base, fs_names := ys @ obs\<rparr>
         | Skipped reason \<Rightarrow> fs\<lparr>fs_baseline := Some base, fs_skipped := skip_record (rs_skipped st) reason\<rparr>)"
    unfolding libpcap_packet_def Let_def record_ns_packet d out_def base_def
    using assms by (auto simp: s in_step_def split: decode_outcome.splits)
  have c: "live_packet decode link False ls (as_packet r) =
      (case out of Decoded seg \<Rightarrow> ls\<lparr>lv_baseline := Some base, lv_events := lv_events ls @ [LiveItem (Segment seg)]\<rparr>
         | Names obs \<Rightarrow> ls\<lparr>lv_baseline := Some base, lv_events := lv_events ls @ map LiveName obs\<rparr>
         | Skipped reason \<Rightarrow> ls\<lparr>lv_baseline := Some base, lv_skipped := skip_record (rs_skipped st) reason,
             lv_diagnostic := lv_diagnostic ls + (if reason \<noteq> NonTcp then 1 else 0)\<rparr>)"
    unfolding live_packet_def Let_def if_False record_ns_packet normalize_ts_def prod.case d out_def base_def
    using assms by (auto simp: s in_step_def split: decode_outcome.splits)
  show ?thesis unfolding a b c using assms
    by (auto simp: s in_step_def process_packet_def Let_def push_def foldl_push map_filter_append map_filter_names
        simp flip: base_def out_def split: decode_outcome.splits)
qed

lemma in_step_run:
  assumes "in_step link sxy fs ls"
  shows "\<exists>sxy' fs' ls'. read_loop decode path push push sxy (map (\<lambda>r. Got (as_legacy r)) recs @ [Eof]) = Some (Inr sxy')
    \<and> libpcap_loop decode path link fs (map (\<lambda>r. Packet (as_packet r)) recs @ [NoMorePackets]) = Some (Inr fs')
    \<and> live_run decode link False ls (map (\<lambda>r. (False, LivePacket (as_packet r))) recs @ [(True, out)]) = Some ls'
    \<and> in_step link sxy' fs' ls'"
  using assms
proof (induction recs arbitrary: sxy fs ls)
  case Nil
  then show ?case by simp
next
  case (Cons r recs)
  from in_step_record [OF Cons.prems, of decode path r] obtain sxy1 where
    "handle_block decode path push push sxy (as_legacy r) = Inr sxy1"
    "in_step link sxy1 (libpcap_packet decode link fs (as_packet r)) (live_packet decode link False ls (as_packet r))"
    by blast
  with Cons.IH [OF this(2)] show ?case by simp
qed

text \<open>
  Claim C29: the three faucets agree. For a capture of records with microsecond times, reading the
  file with the replay faucet and with libpcap gives the same items, names, skip counts and link
  type (or the same error for its link type), and capturing the same packets live gives the same
  items and names in order and the same skip counts.
\<close>

theorem faucets_agree:
  assumes "magic \<noteq> NANO_MAGIC"
  shows "parse_file decode path (Readable (Got (LegacyHeader dlt magic) # map (\<lambda>r. Got (as_legacy r)) recs @ [Eof]))
      = parse_file_libpcap decode path (Inr (dlt, map (\<lambda>r. Packet (as_packet r)) recs @ [NoMorePackets]))
    \<and> (\<forall>link. dlt_to_link dlt = Inr link \<longrightarrow>
        (\<exists>p ls. parse_file decode path (Readable (Got (LegacyHeader dlt magic) # map (\<lambda>r. Got (as_legacy r)) recs @ [Eof])) = Some (Inr p)
           \<and> live_run decode link False live_state_new (map (\<lambda>r. (False, LivePacket (as_packet r))) recs @ [(True, out)]) = Some ls
           \<and> rp_items p = List.map_filter (\<lambda>e. case e of LiveItem i \<Rightarrow> Some i | LiveName _ \<Rightarrow> None) (lv_events ls)
           \<and> rp_names p = List.map_filter (\<lambda>e. case e of LiveName n \<Rightarrow> Some n | LiveItem _ \<Rightarrow> None) (lv_events ls)
           \<and> rp_skipped p = lv_skipped ls))"
proof (cases "dlt_to_link dlt")
  case (Inl e)
  then show ?thesis by (simp add: parse_file_push parse_file_visit_named_def parse_file_libpcap_def)
next
  case (Inr link)
  let ?st = "replay_state_new\<lparr>rs_link_type := Some link, rs_nanos_per_tick := MICRO_TICK_NS\<rparr>"
  have "in_step link (?st, [], []) faucet_state_new live_state_new"
    by (simp add: in_step_def replay_state_new_def faucet_state_new_def live_state_new_def List.map_filter_def)
  from in_step_run [OF this, of decode path recs out] obtain st xs ys fs ls where run:
    "read_loop decode path push push (?st, [], []) (map (\<lambda>r. Got (as_legacy r)) recs @ [Eof]) = Some (Inr (st, xs, ys))"
    "libpcap_loop decode path link faucet_state_new (map (\<lambda>r. Packet (as_packet r)) recs @ [NoMorePackets]) = Some (Inr fs)"
    "live_run decode link False live_state_new (map (\<lambda>r. (False, LivePacket (as_packet r))) recs @ [(True, out)]) = Some ls"
    "in_step link (st, xs, ys) fs ls" by auto
  have "parse_file decode path (Readable (Got (LegacyHeader dlt magic) # map (\<lambda>r. Got (as_legacy r)) recs @ [Eof]))
      = Some (Inr \<lparr>rp_items = xs, rp_skipped = rs_skipped st, rp_link_type = link, rp_names = ys\<rparr>)"
    using assms run(1,4) by (simp add: parse_file_push parse_file_visit_named_def Inr in_step_def)
  with run show ?thesis by (simp add: parse_file_libpcap_def Inr in_step_def)
qed

text \<open>
  A header parser for examples: packets from one fixed host to another with a TCP header whose
  flags are the first byte; an empty packet is too short for a header.
\<close>

definition example_tcp :: "u8 \<Rightarrow> tcp_slice" where
  "example_tcp b =
     \<lparr>ts_source_port = 40000, ts_destination_port = 443, ts_sequence_number = 1, ts_acknowledgment_number = 1,
      ts_fin = bit b 0, ts_syn = bit b 1, ts_rst = bit b 2, ts_psh = bit b 3, ts_ack = bit b 4, ts_urg = bit b 5,
      ts_ece = bit b 6, ts_cwr = bit b 7, ts_ns = False, ts_window_size = 64240, ts_data_offset = 5,
      ts_options = [], ts_payload_len = 0, ts_start = 20\<rparr>"

definition example_slicer :: ip_slicer where
  "example_slicer ip =
     (case ip of
        [] \<Rightarrow> Inl HeaderLen
      | b # _ \<Rightarrow> Inr
          \<lparr>sl_net = Some (NetIpv4 \<lparr>v4_source_addr = 0x0A000001, v4_destination_addr = 0x0A000002,
               v4_fragmented = False, v4_total_len = 0\<rparr>),
           sl_transport = Some (Tcp (example_tcp b)), sl_stop_err = None\<rparr>)"

definition example_decoder :: decoder where
  "example_decoder = decode_frame example_slicer (\<lambda>_. None)"

definition example_records :: "pcap_record list" where
  "example_records =
     [\<lparr>pr_sec = 5, pr_usec = 10, pr_origlen = 60, pr_data = [2]\<rparr>,
      \<lparr>pr_sec = 5, pr_usec = 12, pr_origlen = 60, pr_data = []\<rparr>,
      \<lparr>pr_sec = 5, pr_usec = 14, pr_origlen = 60, pr_data = [16]\<rparr>]"

definition example_outcomes :: "read_outcome list" where
  "example_outcomes = Got (LegacyHeader 101 0xA1B2C3D4) # map (\<lambda>r. Got (as_legacy r)) example_records @ [Eof]"

theorem faucets_agree_witness:
  "parse_file example_decoder ''f'' (Readable (Got (LegacyHeader 101 0xA1B2C3D4) # map (\<lambda>r. Got (as_legacy r)) example_records @ [Eof]))
     = parse_file_libpcap example_decoder ''f'' (Inr (101, map (\<lambda>r. Packet (as_packet r)) example_records @ [NoMorePackets]))
   \<and> map_option (map_sum id rp_items) (parse_file example_decoder ''f'' (Readable example_outcomes))
     = Some (Inr [Segment (client_seg 0 1 1 SYN 0), Segment (client_seg 4000 1 1 ACK 0)])"
proof
  have "(0xA1B2C3D4 :: u32) \<noteq> NANO_MAGIC" by (simp add: NANO_MAGIC_def)
  from conjunct1 [OF faucets_agree [OF this, of example_decoder "''f''" 101 example_records]]
  show "parse_file example_decoder ''f'' (Readable (Got (LegacyHeader 101 0xA1B2C3D4) # map (\<lambda>r. Got (as_legacy r)) example_records @ [Eof]))
     = parse_file_libpcap example_decoder ''f'' (Inr (101, map (\<lambda>r. Packet (as_packet r)) example_records @ [NoMorePackets]))" .
  show "map_option (map_sum id rp_items) (parse_file example_decoder ''f'' (Readable example_outcomes))
     = Some (Inr [Segment (client_seg 0 1 1 SYN 0), Segment (client_seg 4000 1 1 ACK 0)])" by code_simp
qed

end
