(* ===== verification/Replay_Meaning.thy ===== *)
theory Replay_Meaning
  imports Ingest_Properties
begin

text \<open>
  What a capture file means, and that the replay faucet (\<^verbatim>\<open>replay.rs\<close>) computes it. The meaning is
  given by position, without a state: what a block contributes is a function of the blocks before
  it. Times are natural numbers of nanoseconds.
\<close>

section \<open>What a capture file means\<close>

text \<open>What the elements of a list contribute in order, each given those before it.\<close>

definition along :: "('x list \<Rightarrow> 'x \<Rightarrow> 'y option) \<Rightarrow> 'x list \<Rightarrow> 'y list" where
  "along f xs = List.map_filter (\<lambda>k. f (take k xs) (xs ! k)) [0..<length xs]"

lemma along_simps [simp]:
  "along f [] = []"
  "along f (xs @ [x]) = along f xs @ (case f xs x of None \<Rightarrow> [] | Some y \<Rightarrow> [y])"
proof -
  have "List.map_filter (\<lambda>k. f (take k (xs @ [x])) ((xs @ [x]) ! k)) [0..<length xs]
      = List.map_filter (\<lambda>k. f (take k xs) (xs ! k)) [0..<length xs]"
    by (auto simp: List.map_filter_def nth_append intro!: map_cong filter_cong)
  then show "along f (xs @ [x]) = along f xs @ (case f xs x of None \<Rightarrow> [] | Some y \<Rightarrow> [y])"
    by (simp add: along_def map_filter_append List.map_filter_simps split: option.split)
qed (simp add: along_def List.map_filter_def)

text \<open>The data link numbers the program knows.\<close>

definition link_numbers :: "(int \<times> link_type) list" where
  "link_numbers = [(0, Null), (1, Ethernet), (12, RawIp), (14, RawIp), (101, RawIp), (113, LinuxSll), (276, LinuxSll2)]"

fun is_header :: "pcap_block \<Rightarrow> bool" where
  "is_header (LegacyHeader _ _) \<longleftrightarrow> True"
| "is_header (InterfaceDescription _ _) \<longleftrightarrow> True"
| "is_header _ \<longleftrightarrow> False"

text \<open>The last header of the file or interface description before a block; its link type and its tick in nanoseconds.\<close>

definition last_header :: "pcap_block list \<Rightarrow> pcap_block option" where
  "last_header bs = (case filter is_header (rev bs) of [] \<Rightarrow> None | h # _ \<Rightarrow> Some h)"

fun header_link :: "pcap_block \<Rightarrow> link_type option" where
  "header_link (LegacyHeader network _) = map_of link_numbers network"
| "header_link (InterfaceDescription linktype _) = map_of link_numbers linktype"
| "header_link _ = None"

fun header_tick :: "pcap_block \<Rightarrow> nat" where
  "header_tick (LegacyHeader _ magic) = (if magic = 0xA1B23C4D then 1 else 1000)"
| "header_tick (InterfaceDescription _ (Some tps)) = 1000000000 div unat tps"
| "header_tick _ = 1000"

definition link_before :: "pcap_block list \<Rightarrow> link_type option" where
  "link_before bs = Option.bind (last_header bs) header_link"

definition tick_before :: "pcap_block list \<Rightarrow> nat" where
  "tick_before bs = (case last_header bs of None \<Rightarrow> 1000 | Some h \<Rightarrow> header_tick h)"

text \<open>
  The time of a packet: seconds and a fraction in ticks, or a count of ticks in two halves, which
  saturates at the largest time; and its distance from the first packet of the file, zero for a
  packet that is earlier.
\<close>

fun packet_time :: "pcap_block list \<Rightarrow> pcap_block \<Rightarrow> nat option" where
  "packet_time before (Legacy sec sub _ _) = Some (unat sec * 1000000000 + unat sub * tick_before before)"
| "packet_time before (EnhancedPacket high low _ _) =
     Some (min ((unat high * 2 ^ 32 + unat low) * tick_before before) (2 ^ 64 - 1))"
| "packet_time before _ = None"

definition since_first :: "pcap_block list \<Rightarrow> pcap_block \<Rightarrow> nat" where
  "since_first before blk = the (packet_time before blk) - hd (along packet_time (before @ [blk]))"

text \<open>A packet is decoded with the link type before it, at its time since the first packet.\<close>

fun block_outcome :: "decoder \<Rightarrow> pcap_block list \<Rightarrow> pcap_block \<Rightarrow> decode_outcome option" where
  "block_outcome decode before (Legacy sec sub len data) =
     map_option (\<lambda>link. decode link (of_nat (since_first before (Legacy sec sub len data))) data len) (link_before before)"
| "block_outcome decode before (EnhancedPacket high low len data) =
     map_option (\<lambda>link. decode link (of_nat (since_first before (EnhancedPacket high low len data))) data len) (link_before before)"
| "block_outcome decode before _ = None"

definition unknown_link :: "int \<Rightarrow> ingest_error option" where
  "unknown_link n =
     (case map_of link_numbers n of Some _ \<Rightarrow> None
      | None \<Rightarrow> Some (UnknownLinkType (if 0 \<le> n \<and> n \<le> 65535 then of_int n else 65535)))"

text \<open>
  The error of a block: an unknown link type, an interface of another link type than before, an
  interface whose resolution is unreadable or not a divisor of a second in nanoseconds, a packet
  before any interface.
\<close>

fun block_error :: "string \<Rightarrow> pcap_block list \<Rightarrow> pcap_block \<Rightarrow> ingest_error option" where
  "block_error path before (LegacyHeader n _) = unknown_link n"
| "block_error path before (InterfaceDescription n res) =
     (if unknown_link n \<noteq> None then unknown_link n
      else if last_header before \<noteq> None \<and> link_before before \<noteq> map_of link_numbers n then Some MixedLinkTypes
      else case res of
          None \<Rightarrow> Some (ContainerError path ''unreadable interface timestamp resolution'')
        | Some tps \<Rightarrow>
            (if unat tps dvd 1000000000 then None
             else Some (ContainerError path (''unsupported timestamp resolution ('' @ show_dec (unat tps)
                  @ '' ticks/s); M1 supports nanosecond or coarser''))))"
| "block_error path before OtherBlock = None"
| "block_error path before _ =
     (if last_header before = None then Some (ContainerError path ''packet before any interface description'') else None)"

text \<open>The items, the names and the skip counters of the decoded packets.\<close>

definition outcome_items :: "decode_outcome list \<Rightarrow> item list" where
  "outcome_items outs = [Segment seg. Decoded seg \<leftarrow> outs]"

definition outcome_names :: "decode_outcome list \<Rightarrow> name_observation list" where
  "outcome_names outs = [n. Names obs \<leftarrow> outs, n \<leftarrow> obs]"

definition outcome_skips :: "decode_outcome list \<Rightarrow> skip_counts" where
  "outcome_skips outs =
     (let tally = (\<lambda>reason. of_nat (count_list outs (Skipped reason)))
      in \<lparr>sc_non_tcp = tally NonTcp, sc_malformed = tally Malformed, sc_unsupported_link_type = tally UnsupportedLinkType,
          sc_ipv6_fragment = tally Ipv6Fragment, sc_unsupported_ext_chain = tally UnsupportedExtChain,
          sc_truncated = tally Truncated\<rparr>)"

section \<open>The replay faucet, block by block\<close>

lemma outcome_snoc [simp]:
  "outcome_items (outs @ [out]) = outcome_items outs @ (case out of Decoded seg \<Rightarrow> [Segment seg] | _ \<Rightarrow> [])"
  "outcome_names (outs @ [out]) = outcome_names outs @ (case out of Names obs \<Rightarrow> obs | _ \<Rightarrow> [])"
  "outcome_skips (outs @ [out]) = (case out of Skipped reason \<Rightarrow> skip_record (outcome_skips outs) reason | _ \<Rightarrow> outcome_skips outs)"
    apply (simp add: outcome_items_def split: decode_outcome.split)
   apply (simp add: outcome_names_def split: decode_outcome.split)
  apply (cases out)
    apply (simp_all add: outcome_skips_def Let_def)
  subgoal for r by (cases r) simp_all
  done

lemma last_header_snoc [simp]: "last_header (bs @ [blk]) = (if is_header blk then Some blk else last_header bs)"
  by (simp add: last_header_def)

lemma dlt_to_link_numbers:
  "dlt_to_link n = (case map_of link_numbers n of Some link \<Rightarrow> Inr link
     | None \<Rightarrow> Inl (UnknownLinkType (if 0 \<le> n \<and> n \<le> 65535 then of_int n else 65535)))"
proof (cases "0 \<le> n \<and> n < 65536")
  case True
  then have e: "(of_int n :: u16) = of_int m \<longleftrightarrow> n = m" if "0 \<le> m" "m < 65536" for m
    using that by (simp add: word_of_int_eq_iff take_bit_int_eq_self)
  show ?thesis using True e [of 0] e [of 1] e [of 12] e [of 14] e [of 101] e [of 113] e [of 276]
    by (auto simp: dlt_to_link_def from_dlt_def link_numbers_def ok_or_def)
next
  case False
  then show ?thesis by (auto simp: dlt_to_link_def link_numbers_def)
qed

lemma tick_before_le: "tick_before bs \<le> 1000000000"
proof -
  have "header_tick h \<le> 1000000000" for h by (induction h rule: header_tick.induct) simp_all
  then show ?thesis by (simp add: tick_before_def split: option.split)
qed

lemma word_of_unat: "unat w = n \<Longrightarrow> w = of_nat n"
  by auto

lemma u32_lt: "unat (w :: u32) < 4294967296"
  using unsigned_less [of w] by simp

lemma nanos_per_tick_dvd:
  "nanos_per_tick tps = (if unat tps dvd 1000000000 then Some (of_nat (1000000000 div unat tps)) else None)"
proof -
  have "unat (1000000000 mod tps) = 1000000000 mod unat tps" "unat (1000000000 div tps) = 1000000000 div unat tps"
    by (simp_all add: unat_mod unat_div)
  then have "1000000000 mod tps = 0 \<longleftrightarrow> unat tps dvd 1000000000" "1000000000 div tps = of_nat (1000000000 div unat tps)"
    by (metis dvd_eq_mod_eq_0 unsigned_0 unat_eq_zero, metis word_of_unat)
  then show ?thesis by (auto simp: nanos_per_tick_def)
qed

lemma unat_ucast_u32: "unat (ucast (w :: u32) :: u64) = unat w"
  using u32_lt [of w] by (simp add: unsigned_ucast_eq take_bit_nat_eq_self_iff)

lemma sub_ticks: "unat (w :: u32) * tick_before bs \<le> 4294967296 * 1000000000"
  using u32_lt [of w] tick_before_le [of bs] by (intro mult_le_mono) simp_all

lemma packet_time_less: "packet_time bs blk = Some t \<Longrightarrow> t < 2 ^ 64"
proof (induction bs blk rule: packet_time.induct)
  case (1 bs sec sub len data)
  then show ?case using u32_lt [of sec] sub_ticks [of sub bs] by simp
qed auto

lemma legacy_ns:
  assumes "unat npt = tick_before bs"
  shows "unat (sat_add (sat_mul (ucast (sec :: u32)) 1000000000) (sat_mul (ucast (sub :: u32)) npt))
    = the (packet_time bs (Legacy sec sub len data))"
  using u32_lt [of sec] sub_ticks [of sub bs]
  by (simp add: assms unat_sat_add unat_sat_mul unat_ucast_u32)

lemma unat_ticks: "unat (push_bit 32 (ucast (high :: u32)) OR ucast (low :: u32) :: u64) = unat high * 2 ^ 32 + unat low"
proof -
  have "(push_bit 32 (ucast high) OR ucast low :: u64) = push_bit 32 (ucast high) + ucast low"
    by (rule disjunctive_add_eq_or [symmetric]) (auto simp: bit_eq_iff bit_and_iff bit_push_bit_iff bit_ucast_iff dest: bit_imp_le_length [of low])
  then show ?thesis using u32_lt [of high] u32_lt [of low]
    by (simp add: unat_word_ariths unat_ucast_u32 push_bit_eq_mult)
qed

lemma enhanced_ns:
  assumes "unat npt = tick_before bs"
  shows "unat (sat_mul (push_bit 32 (ucast (high :: u32)) OR ucast (low :: u32)) npt)
    = the (packet_time bs (EnhancedPacket high low len data))"
  by (simp add: assms unat_sat_mul unat_ticks)

lemma along_packet_time_less: "t \<in> set (along packet_time bs) \<Longrightarrow> t < 2 ^ 64"
  by (induction bs rule: rev_induct) (auto split: option.splits dest!: packet_time_less [OF sym])

lemma header_known: "along (block_error path) bs = [] \<Longrightarrow> last_header bs = None \<longleftrightarrow> link_before bs = None"
proof (induction bs rule: rev_induct)
  case (snoc blk bs)
  then show ?case
    by (cases blk) (auto simp: link_before_def unknown_link_def split: option.splits if_splits)
qed (simp add: last_header_def link_before_def)

text \<open>The state of the faucet and of sinks that collect, after the given blocks without an error.\<close>

definition replay_after :: "decoder \<Rightarrow> pcap_block list \<Rightarrow> replay_state \<times> item list \<times> name_observation list" where
  "replay_after decode bs =
     (let outs = along (block_outcome decode) bs
      in (\<lparr>rs_link_type = link_before bs,
           rs_baseline = (case along packet_time bs of [] \<Rightarrow> None | t # _ \<Rightarrow> Some (of_nat t)),
           rs_nanos_per_tick = of_nat (tick_before bs), rs_skipped = outcome_skips outs\<rparr>,
          outcome_items outs, outcome_names outs))"

lemmas after_defs = link_before_def tick_before_def NANO_MAGIC_def MICRO_TICK_NS_def

lemma process_packet_after:
  assumes t: "packet_time bs blk = Some (unat ns)" and "\<not> is_header blk"
    and "block_outcome decode bs blk = map_option (\<lambda>link. decode link (of_nat (since_first bs blk)) data len) (link_before bs)"
  shows "process_packet decode path push push (replay_after decode bs) ns len data =
    (if link_before bs = None then Inl (ContainerError path ''packet before any interface description'')
     else Inr (replay_after decode (bs @ [blk])))"
proof -
  define base where "base = (case along packet_time bs of [] \<Rightarrow> unat ns | t # _ \<Rightarrow> t)"
  have "base < 2 ^ 64"
    using along_packet_time_less [of _ bs] unsigned_less [of ns] by (auto simp: base_def split: list.split)
  then have u: "unat (of_nat base :: u64) = base" by (simp add: unat_of_nat)
  have first: "since_first bs blk = unat ns - base"
    by (auto simp: since_first_def base_def t hd_append split: list.split)
  have sub: "sat_sub ns (of_nat base) = of_nat (since_first bs blk)"
    by (rule word_of_unat) (simp add: unat_sat_sub u first)
  have b: "(case rs_baseline (fst (replay_after decode bs)) of Some x \<Rightarrow> x | None \<Rightarrow> ns) = of_nat base"
    by (simp add: replay_after_def Let_def base_def split: list.split)
  have keeps: "link_before (bs @ [blk]) = link_before bs" "tick_before (bs @ [blk]) = tick_before bs"
    using assms(2) by (simp_all add: link_before_def tick_before_def)
  have "(case along packet_time (bs @ [blk]) of [] \<Rightarrow> None | t # _ \<Rightarrow> Some (of_nat t)) = Some (of_nat base :: u64)"
    by (simp add: base_def t split: list.split)
  then show ?thesis
    using sub b keeps
    by (cases "link_before bs")
      (auto simp: process_packet_def replay_after_def Let_def assms(3) push_def foldl_push split: decode_outcome.split)
qed

lemma handle_block_after:
  assumes "along (block_error path) bs = []"
  shows "handle_block decode path push push (replay_after decode bs) blk =
    (case block_error path bs blk of Some e \<Rightarrow> Inl e | None \<Rightarrow> Inr (replay_after decode (bs @ [blk])))"
proof -
  obtain st xs ys where s: "replay_after decode bs = (st, xs, ys)" by (cases "replay_after decode bs")
  have st: "rs_link_type st = link_before bs" "rs_nanos_per_tick st = of_nat (tick_before bs)"
    using s by (auto simp: replay_after_def Let_def)
  have tick: "unat (rs_nanos_per_tick st) = tick_before bs"
    using tick_before_le [of bs] by (simp add: st unat_of_nat)
  have hdr: "last_header bs = None \<longleftrightarrow> link_before bs = None" by (rule header_known [OF assms])
  show ?thesis
  proof (cases blk)
    case (Legacy sec sub len data)
    have "packet_time bs blk = Some (unat (sat_add (sat_mul (ucast sec) 1000000000) (sat_mul (ucast sub) (rs_nanos_per_tick st))))"
      using legacy_ns [OF tick, of sec sub len data] by (simp add: Legacy)
    from process_packet_after [OF this, of decode data len path] show ?thesis
      by (simp add: Legacy hdr s Let_def)
  next
    case (EnhancedPacket high low len data)
    have "packet_time bs blk = Some (unat (sat_mul (push_bit 32 (ucast high) OR ucast low) (rs_nanos_per_tick st)))"
      using enhanced_ns [OF tick, of high low len data] by (simp add: EnhancedPacket)
    from process_packet_after [OF this, of decode data len path] show ?thesis
      by (simp add: EnhancedPacket hdr s Let_def)
  next
    case (LegacyHeader n magic)
    then show ?thesis
      by (simp add: replay_after_def Let_def dlt_to_link_numbers unknown_link_def after_defs split: option.split)
  next
    case (InterfaceDescription n res)
    then show ?thesis
      using hdr by (auto simp: replay_after_def Let_def dlt_to_link_numbers unknown_link_def after_defs nanos_per_tick_dvd
          ok_or_def split: option.split)
  next
    case OtherBlock
    then show ?thesis by (simp add: replay_after_def Let_def link_before_def tick_before_def)
  qed
qed

lemma replay_after_Nil: "replay_after decode [] = (replay_state_new, [], [])"
  by (simp add: replay_after_def replay_state_new_def Let_def after_defs last_header_def outcome_skips_def
      outcome_items_def outcome_names_def skip_counts_default_def)

lemma read_loop_complete:
  "read_loop decode path sink nsink sab outs = read_loop decode path sink nsink sab (filter (\<lambda>out. out \<noteq> Incomplete None) outs)"
  by (induction decode path sink nsink sab outs rule: read_loop.induct) (auto split: sum.split)

text \<open>How reading ends.\<close>

definition read_end :: "string \<Rightarrow> read_outcome \<Rightarrow> 'x \<Rightarrow> (ingest_error + 'x) option" where
  "read_end path final x =
     (case final of Eof \<Rightarrow> Some (Inr x) | ReadError d \<Rightarrow> Some (Inl (ContainerError path d))
      | Incomplete (Some d) \<Rightarrow> Some (Inl (ContainerError path d)) | _ \<Rightarrow> None)"

lemma hd_along_append: "along f xs = e # es \<Longrightarrow> \<exists>es'. along f (xs @ ys) = e # es'"
proof (induction ys rule: rev_induct)
  case (snoc y ys)
  then obtain es' where "along f (xs @ ys) = e # es'" by blast
  then show ?case using along_simps(2) [of f "xs @ ys" y] by simp
qed simp

lemma read_loop_after:
  assumes "along (block_error path) pre = []" and "read_end path final () \<noteq> None"
  shows "read_loop decode path push push (replay_after decode pre) (map Got bs @ final # rest) =
    (case along (block_error path) (pre @ bs) of e # _ \<Rightarrow> Some (Inl e) | [] \<Rightarrow> read_end path final (replay_after decode (pre @ bs)))"
  using assms(1)
proof (induction bs arbitrary: pre)
  case Nil
  then show ?case using assms(2) by (auto simp: read_end_def split: read_outcome.splits option.splits)
next
  case (Cons blk bs)
  note step = handle_block_after [OF Cons.prems, of decode blk]
  show ?case
  proof (cases "block_error path pre blk")
    case None
    have "(pre @ [blk]) @ bs = pre @ blk # bs" by simp
    from Cons.IH [of "pre @ [blk]", unfolded this] show ?thesis using None Cons.prems step by simp
  next
    case (Some e)
    then have "along (block_error path) (pre @ [blk]) = [e]" using Cons.prems by simp
    from hd_along_append [OF this, of bs] show ?thesis using step Some by auto
  qed
qed

section \<open>The replay faucet computes the meaning\<close>

text \<open>
  Claim C30: the replay faucet parses any capture file, read in any number of refills. Once the
  reader reports the end or an error after the blocks \<open>bs\<close>, parsing returns: the error of the
  first erroneous block (an unknown link type, mixed link types, a resolution that cannot be
  represented, a packet before any interface); else the reader's error; else, of a file with no
  interface, an error; else the link type, the skip counters of all packets, and the sinks
  after exactly the segments and the names of all packets in order, each packet decoded with
  the link type in force and at its time since the first packet, in ticks of the last header or
  interface description before it.
\<close>

theorem replay_file_meaning:
  assumes "filter (\<lambda>out. out \<noteq> Incomplete None) outs = map Got bs @ final # rest"
    and "final = Eof \<or> final = ReadError d \<or> final = Incomplete (Some d)"
  shows "parse_file_visit_named decode path (Readable outs) sink nsink a b = Some
    (case along (block_error path) bs of
       e # _ \<Rightarrow> Inl e
     | [] \<Rightarrow>
         (if final \<noteq> Eof then Inl (ContainerError path d)
          else case link_before bs of
              None \<Rightarrow> Inl (ContainerError path ''no interface or packets in capture'')
            | Some link \<Rightarrow>
                (let outcomes = along (block_outcome decode) bs
                 in Inr ((link, outcome_skips outcomes), foldl sink a (outcome_items outcomes), foldl nsink b (outcome_names outcomes)))))"
proof -
  have "read_end path final () \<noteq> None" using assms(2) by (auto simp: read_end_def)
  then have "read_loop decode path push push (replay_state_new, [], []) outs =
      (case along (block_error path) bs of e # _ \<Rightarrow> Some (Inl e) | [] \<Rightarrow> read_end path final (replay_after decode bs))"
    using read_loop_after [of path "[]" final decode bs rest, unfolded append_Nil]
    by (simp add: read_loop_complete [of _ _ _ _ _ outs] assms(1) replay_after_Nil)
  then show ?thesis
    unfolding visit_named_folded [of decode path "Readable outs" sink nsink a b] using assms(2)
    by (auto simp: parse_file_visit_named_def read_end_def replay_after_def Let_def ok_or_def split: list.split option.split)
qed

text \<open>Two interfaces of one link type in microseconds; the second packet is empty.\<close>

definition example_blocks :: "pcap_block list" where
  "example_blocks =
     [OtherBlock, InterfaceDescription 101 (Some 1000000), EnhancedPacket 0 5000000 60 [2],
      InterfaceDescription 12 (Some 1000000), EnhancedPacket 0 5000004 60 [], EnhancedPacket 0 5000009 60 [16]]"

theorem replay_file_meaning_witness:
  "parse_file_visit_named example_decoder ''f''
      (Readable (Incomplete None # map Got example_blocks @ [Eof])) push push [] []
     = Some (Inr ((RawIp, skip_counts_default\<lparr>sc_truncated := 1\<rparr>),
         [Segment (client_seg 0 1 1 SYN 0), Segment (client_seg 9000 1 1 ACK 0)], []))
   \<and> parse_file_visit_named example_decoder ''f''
      (Readable (map Got (example_blocks @ [InterfaceDescription 1 (Some 1000000)]) @ [Eof])) push push [] []
     = Some (Inl MixedLinkTypes)"
proof
  have f: "filter (\<lambda>out. out \<noteq> Incomplete None) (map Got bs) = map Got bs" for bs by (induction bs) simp_all
  have p: "filter (\<lambda>out. out \<noteq> Incomplete None) (Incomplete None # map Got example_blocks @ [Eof]) = map Got example_blocks @ Eof # []"
    "filter (\<lambda>out. out \<noteq> Incomplete None) (map Got (example_blocks @ [InterfaceDescription 1 (Some 1000000)]) @ [Eof])
       = map Got (example_blocks @ [InterfaceDescription 1 (Some 1000000)]) @ Eof # []"
    by (simp_all add: f)
  have v: "along (block_error ''f'') example_blocks = []" "link_before example_blocks = Some RawIp"
    "along (block_outcome example_decoder) example_blocks
       = [Decoded (client_seg 0 1 1 SYN 0), Skipped Truncated, Decoded (client_seg 9000 1 1 ACK 0)]"
    by code_simp+
  show "parse_file_visit_named example_decoder ''f''
      (Readable (Incomplete None # map Got example_blocks @ [Eof])) push push [] []
     = Some (Inr ((RawIp, skip_counts_default\<lparr>sc_truncated := 1\<rparr>),
         [Segment (client_seg 0 1 1 SYN 0), Segment (client_seg 9000 1 1 ACK 0)], []))"
    using replay_file_meaning [OF p(1), of "[]" example_decoder "''f''" push push "[]" "[]"] v
    by (simp add: outcome_items_def outcome_names_def outcome_skips_def skip_counts_default_def push_def)
  have "block_error ''f'' example_blocks (InterfaceDescription 1 (Some 1000000)) = Some MixedLinkTypes" by code_simp
  then show "parse_file_visit_named example_decoder ''f''
      (Readable (map Got (example_blocks @ [InterfaceDescription 1 (Some 1000000)]) @ [Eof])) push push [] []
     = Some (Inl MixedLinkTypes)"
    using replay_file_meaning [OF p(2), of "[]" example_decoder "''f''" push push "[]" "[]"] v(1) by simp
qed

end
