(* ===== verification/Plot.thy ===== *)
theory Plot
  imports Timeline "HOL-Library.Signed_Division"
begin

text \<open>
  The plot projections of the detail pane (\<^verbatim>\<open>detail.rs\<close>, \<^verbatim>\<open>inflight.rs\<close>, \<^verbatim>\<open>rtt.rs\<close> and
  \<^verbatim>\<open>throughput.rs\<close> of \<^verbatim>\<open>crates/tcpvisr-tui/src\<close>): samples, a cursor and a rectangle of cells to a
  grid of marks. Cell coordinates (\<^verbatim>\<open>u16\<close>) are natural numbers: they are only decremented when
  at least the minimum size, and bounded by the size. Glyphs are code points. Every access to
  the grid is checked, an index outside it is a panic, as is a time span the wrong way round.
\<close>

type_synonym glyph = nat

section \<open>Grids\<close>

definition grid_get :: "'a list \<Rightarrow> usize \<Rightarrow> panic + 'a" where
  "grid_get grid i = (if i < length grid then Inr (grid ! i) else Inl IndexOutOfBounds)"

definition grid_set :: "'a list \<Rightarrow> usize \<Rightarrow> 'a \<Rightarrow> panic + 'a list" where
  "grid_set grid i x = (if i < length grid then Inr (grid[i := x]) else Inl IndexOutOfBounds)"

text \<open>The closure \<^verbatim>\<open>idx\<close> of every projection.\<close>

definition cell_idx :: "nat \<Rightarrow> nat \<Rightarrow> nat \<Rightarrow> usize" where
  "cell_idx width col row = row * width + col"

text \<open>The loop that draws the cursor into the empty cells of its column.\<close>

definition draw_cursor :: "nat \<Rightarrow> nat \<Rightarrow> nat \<Rightarrow> (nat \<Rightarrow> 'm) \<Rightarrow> 'm option list \<Rightarrow> panic + 'm option list" where
  "draw_cursor width height cursor_col mk grid =
     try_fold (\<lambda>g row.
       let i = cell_idx width cursor_col row
       in and_then (grid_get g i)
            (\<lambda>cell. if cell = None then grid_set g i (Some (mk row)) else Inr g))
       grid [0..<height]"

text \<open>The loops that collect the marks, row by row.\<close>

definition cells :: "nat \<Rightarrow> nat \<Rightarrow> (nat \<times> nat) list" where
  "cells width height = List.product [0..<height] [0..<width]"

definition collect_marks :: "nat \<Rightarrow> nat \<Rightarrow> (nat \<Rightarrow> nat \<Rightarrow> 'm \<Rightarrow> 'k) \<Rightarrow> 'm option list \<Rightarrow> panic + 'k list" where
  "collect_marks width height f grid =
     try_fold (\<lambda>marks (row, col).
       and_then (grid_get grid (cell_idx width col row))
         (\<lambda>cell. case cell of None \<Rightarrow> Inr marks | Some m \<Rightarrow> Inr (marks @ [f col row m])))
       [] (cells width height)"

section \<open>Time/sequence plot (\<^verbatim>\<open>detail.rs\<close>)\<close>

definition MIN_W :: nat where "MIN_W = 8"
definition MIN_H :: nat where "MIN_H = 3"

definition DATA_GLYPH :: glyph where "DATA_GLYPH = 0x23"
definition OOO_GLYPH :: glyph where "OOO_GLYPH = 0x6F"
definition RETRANS_GLYPH :: glyph where "RETRANS_GLYPH = 0xB7"
definition SACK_GLYPH :: glyph where "SACK_GLYPH = 0x254E"
definition CURSOR_GLYPH :: glyph where "CURSOR_GLYPH = 0x250A"

record mark =
  mk_col :: nat
  mk_row :: nat
  mk_glyph :: glyph

record seq_plot =
  sp_width :: nat
  sp_height :: nat
  sp_max_rel :: i64
  sp_x_span :: "nanos \<times> nanos"
  sp_cursor_col :: nat
  sp_marks :: "mark list"

fun kind_glyph :: "seq_kind \<Rightarrow> nat \<times> glyph" where
  "kind_glyph (Data True oo) = (3, RETRANS_GLYPH)"
| "kind_glyph Sack = (2, SACK_GLYPH)"
| "kind_glyph (Data False True) = (1, OOO_GLYPH)"
| "kind_glyph (Data False False) = (0, DATA_GLYPH)"

text \<open>\<^verbatim>\<open>u16::try_from(c).unwrap_or(n - 1).min(n - 1)\<close>.\<close>

definition clamp_cell :: "nat \<Rightarrow> nat \<Rightarrow> nat" where
  "clamp_cell c n = min (if c < 65536 then c else n - 1) (n - 1)"

definition col_of :: "nanos \<Rightarrow> nanos \<Rightarrow> nanos \<Rightarrow> nat \<Rightarrow> nat" where
  "col_of t t0 span_t width =
     (if span_t = 0 then 0
      else clamp_cell (unat (sat_sub t t0) * (width - 1) div unat span_t) width)"

definition row_of :: "i64 \<Rightarrow> i64 \<Rightarrow> nat \<Rightarrow> nat" where
  "row_of y max_rel height =
     (if max_rel \<le> 0 then 0
      else let r = (y * int (height - 1)) sdiv max_rel
           in min (if 0 \<le> r \<and> r < 65536 then nat r else height - 1) (height - 1))"

text \<open>The body of the loop over the revealed samples.\<close>

definition seq_put :: "(seq_sample \<Rightarrow> nat) \<Rightarrow> (nat \<times> glyph) option list \<Rightarrow> seq_sample
    \<Rightarrow> panic + (nat \<times> glyph) option list" where
  "seq_put at grid s =
     (let (prio, g) = kind_glyph (sq_kind s)
      in and_then (grid_get grid (at s))
           (\<lambda>cell. case cell of
              Some (p, _) \<Rightarrow> (if prio \<le> p then Inr grid else grid_set grid (at s) (Some (prio, g)))
            | None \<Rightarrow> grid_set grid (at s) (Some (prio, g))))"

definition int_min_or_zero :: "int list \<Rightarrow> int" where
  "int_min_or_zero xs = (case xs of [] \<Rightarrow> 0 | y # ys \<Rightarrow> fold min ys y)"

definition int_max_or_zero :: "int list \<Rightarrow> int" where
  "int_max_or_zero xs = (case xs of [] \<Rightarrow> 0 | y # ys \<Rightarrow> fold max ys y)"

definition seq_base :: "seq_sample list \<Rightarrow> sample_dir \<Rightarrow> i64" where
  "seq_base series focus = int_min_or_zero (map sq_rel (filter (\<lambda>s. sq_dir s = focus) series))"

definition seq_max_rel :: "seq_sample list \<Rightarrow> sample_dir \<Rightarrow> i64" where
  "seq_max_rel series focus =
     int_max_or_zero (map (\<lambda>s. (sq_rel s - seq_base series focus) + uint (sq_len s))
       (filter (\<lambda>s. sq_dir s = focus) series))"

text \<open>The cell a sample falls into.\<close>

definition seq_cell :: "seq_sample list \<Rightarrow> sample_dir \<Rightarrow> nanos \<times> nanos \<Rightarrow> nat \<Rightarrow> nat \<Rightarrow> seq_sample \<Rightarrow> nat \<times> nat" where
  "seq_cell series focus xsp width height s =
     (col_of (sq_t s) (fst xsp) (sat_sub (snd xsp) (fst xsp)) width,
      row_of (sq_rel s - seq_base series focus) (seq_max_rel series focus) height)"

definition seq_project :: "seq_sample list \<Rightarrow> sample_dir \<Rightarrow> nanos \<times> nanos \<Rightarrow> nanos \<Rightarrow> nat \<Rightarrow> nat
    \<Rightarrow> panic + seq_plot option" where
  "seq_project series focus xsp cursor width height =
     (if width < MIN_W \<or> height < MIN_H then Inr None
      else
        let t0 = fst xsp; t1 = snd xsp; span_t = sat_sub t1 t0;
            at = (\<lambda>s. case seq_cell series focus xsp width height s of (col, row) \<Rightarrow> cell_idx width col row);
            grid0 = replicate (width * height) None;
            revealed = filter (\<lambda>s. sq_dir s = focus \<and> sq_t s \<le> cursor) series
        in and_then (try_fold (seq_put at) grid0 revealed)
          (\<lambda>grid1. and_then (clamp t0 t1 cursor)
          (\<lambda>ct. let cursor_col = col_of ct t0 span_t width
                in and_then (draw_cursor width height cursor_col (\<lambda>row. (0, CURSOR_GLYPH)) grid1)
          (\<lambda>grid2. and_then (collect_marks width height
                     (\<lambda>col row m. \<lparr>mk_col = col, mk_row = row, mk_glyph = snd m\<rparr>) grid2)
          (\<lambda>marks. Inr (Some \<lparr>sp_width = width, sp_height = height, sp_max_rel = seq_max_rel series focus,
             sp_x_span = xsp, sp_cursor_col = cursor_col, sp_marks = marks\<rparr>))))))"

section \<open>Peak plots (\<^verbatim>\<open>inflight.rs\<close>, \<^verbatim>\<open>rtt.rs\<close>, \<^verbatim>\<open>throughput.rs\<close>)\<close>

text \<open>The three files carry the same geometry, with the value axis named after the quantity.\<close>

datatype series_tag = Wire | Cwnd | Raw | Smoothed | Kernel | Throughput | Goodput

record smark =
  sm_col :: nat
  sm_row :: nat
  sm_glyph :: glyph
  sm_series :: series_tag

record geom =
  g_focus :: sample_dir
  g_t0 :: nanos
  g_span_t :: nanos
  g_max :: u64
  g_width :: nat
  g_height :: nat
  g_cursor :: nanos

definition geom_col :: "geom \<Rightarrow> nanos \<Rightarrow> nat" where
  "geom_col g t =
     (if g_span_t g = 0 then 0
      else clamp_cell (unat (sat_sub t (g_t0 g)) * (g_width g - 1) div unat (g_span_t g)) (g_width g))"

definition geom_row :: "geom \<Rightarrow> u64 \<Rightarrow> nat" where
  "geom_row g v =
     (if g_max g = 0 then 0
      else clamp_cell (unat v * (g_height g - 1) div unat (g_max g)) (g_height g))"

definition geom_idx :: "geom \<Rightarrow> nat \<Rightarrow> nat \<Rightarrow> usize" where
  "geom_idx g col row = row * g_width g + col"

text \<open>
  \<^verbatim>\<open>place\<close>: the peak row per column over the revealed samples, then one mark per column that
  has a peak. The sample type enters through the functions that read it.
\<close>

definition peak_put :: "geom \<Rightarrow> ('s \<Rightarrow> nanos) \<Rightarrow> ('s \<Rightarrow> u64) \<Rightarrow> nat option list \<Rightarrow> 's \<Rightarrow> panic + nat option list" where
  "peak_put g time val peak s =
     (let col = geom_col g (time s); row = geom_row g (val s)
      in and_then (grid_get peak col)
           (\<lambda>e. if (case e of None \<Rightarrow> True | Some r \<Rightarrow> r < row) then grid_set peak col (Some row) else Inr peak))"

definition mark_put :: "geom \<Rightarrow> series_tag \<Rightarrow> glyph \<Rightarrow> smark option list \<Rightarrow> nat \<times> nat option
    \<Rightarrow> panic + smark option list" where
  "mark_put g tag gl grid cr =
     (case cr of
        (c, None) \<Rightarrow> Inr grid
      | (c, Some row) \<Rightarrow>
          (let col = (if c < 65536 then c else g_width g - 1)
           in grid_set grid (geom_idx g col row)
                (Some \<lparr>sm_col = col, sm_row = row, sm_glyph = gl, sm_series = tag\<rparr>)))"

definition place :: "geom \<Rightarrow> ('s \<Rightarrow> nanos) \<Rightarrow> ('s \<Rightarrow> sample_dir) \<Rightarrow> 's list \<Rightarrow> series_tag \<Rightarrow> glyph \<Rightarrow> ('s \<Rightarrow> u64)
    \<Rightarrow> smark option list \<Rightarrow> panic + smark option list" where
  "place g time dir samples tag gl val grid =
     and_then
       (try_fold (peak_put g time val) (replicate (g_width g) None)
          (filter (\<lambda>s. dir s = g_focus g \<and> time s \<le> g_cursor g) samples))
       (\<lambda>peak. try_fold (mark_put g tag gl) grid (enumerate 0 peak))"

record peak_plot =
  pp_width :: nat
  pp_height :: nat
  pp_max :: u64
  pp_x_span :: "nanos \<times> nanos"
  pp_cursor_col :: nat
  pp_marks :: "smark list"

definition u64_max_or_zero :: "u64 list \<Rightarrow> u64" where
  "u64_max_or_zero xs = (case xs of [] \<Rightarrow> 0 | y # ys \<Rightarrow> fold max ys y)"

text \<open>The part of the three projections after the series are placed.\<close>

definition finish_plot :: "geom \<Rightarrow> nanos \<times> nanos \<Rightarrow> series_tag \<Rightarrow> smark option list \<Rightarrow> panic + peak_plot option" where
  "finish_plot g xsp tag grid1 =
     and_then (clamp (fst xsp) (snd xsp) (g_cursor g))
       (\<lambda>ct. let cursor_col = geom_col g ct
             in and_then (draw_cursor (g_width g) (g_height g) cursor_col
                  (\<lambda>row. \<lparr>sm_col = cursor_col, sm_row = row, sm_glyph = CURSOR_GLYPH, sm_series = tag\<rparr>) grid1)
       (\<lambda>grid2. and_then (collect_marks (g_width g) (g_height g) (\<lambda>col row m. m) grid2)
       (\<lambda>marks. Inr (Some \<lparr>pp_width = g_width g, pp_height = g_height g, pp_max = g_max g,
          pp_x_span = xsp, pp_cursor_col = cursor_col, pp_marks = marks\<rparr>))))"

definition make_geom :: "sample_dir \<Rightarrow> nanos \<times> nanos \<Rightarrow> u64 \<Rightarrow> nanos \<Rightarrow> nat \<Rightarrow> nat \<Rightarrow> geom" where
  "make_geom focus xsp mx cursor width height =
     \<lparr>g_focus = focus, g_t0 = fst xsp, g_span_t = sat_sub (snd xsp) (fst xsp), g_max = mx,
      g_width = width, g_height = height, g_cursor = cursor\<rparr>"

definition WIRE_GLYPH :: glyph where "WIRE_GLYPH = 0x23"
definition CWND_GLYPH :: glyph where "CWND_GLYPH = 0x2B"

definition inflight_place :: "geom \<Rightarrow> inflight_sample list \<Rightarrow> series_tag \<Rightarrow> glyph \<Rightarrow> smark option list
    \<Rightarrow> panic + smark option list" where
  [simp]: "inflight_place g samples tag gl grid = place g if_t if_dir samples tag gl if_bytes grid"

definition inflight_project :: "inflight_sample list \<Rightarrow> inflight_sample list \<Rightarrow> sample_dir \<Rightarrow> nanos \<times> nanos
    \<Rightarrow> nanos \<Rightarrow> nat \<Rightarrow> nat \<Rightarrow> panic + peak_plot option" where
  "inflight_project wire overlay focus xsp cursor width height =
     (if width < MIN_W \<or> height < MIN_H then Inr None
      else
        let max_bytes = u64_max_or_zero (map if_bytes (filter (\<lambda>s. if_dir s = focus) (wire @ overlay)));
            g = make_geom focus xsp max_bytes cursor width height;
            grid0 = replicate (width * height) None
        in and_then (inflight_place g wire Wire WIRE_GLYPH grid0)
           (\<lambda>grid1. and_then (inflight_place g overlay Cwnd CWND_GLYPH grid1)
           (\<lambda>grid2. finish_plot g xsp Wire grid2)))"

definition RAW_GLYPH :: glyph where "RAW_GLYPH = 0x2E"
definition SMOOTHED_GLYPH :: glyph where "SMOOTHED_GLYPH = 0x23"
definition KERNEL_GLYPH :: glyph where "KERNEL_GLYPH = 0x2B"

definition rtt_project :: "rtt_sample list \<Rightarrow> rtt_sample list \<Rightarrow> sample_dir \<Rightarrow> nanos \<times> nanos
    \<Rightarrow> nanos \<Rightarrow> nat \<Rightarrow> nat \<Rightarrow> panic + peak_plot option" where
  "rtt_project wire overlay focus xsp cursor width height =
     (if width < MIN_W \<or> height < MIN_H then Inr None
      else
        let max_rtt = u64_max_or_zero
              (concat (map (\<lambda>s. [rt_rtt s, rt_srtt s]) (filter (\<lambda>s. rt_dir s = focus) wire))
               @ map rt_srtt (filter (\<lambda>s. rt_dir s = focus) overlay));
            g = make_geom focus xsp max_rtt cursor width height;
            grid0 = replicate (width * height) None
        in and_then (place g rt_t rt_dir wire Raw RAW_GLYPH rt_rtt grid0)
           (\<lambda>grid1. and_then (place g rt_t rt_dir wire Smoothed SMOOTHED_GLYPH rt_srtt grid1)
           (\<lambda>grid2. and_then (place g rt_t rt_dir overlay Kernel KERNEL_GLYPH rt_srtt grid2)
           (\<lambda>grid3. finish_plot g xsp Raw grid3))))"

definition THROUGHPUT_GLYPH :: glyph where "THROUGHPUT_GLYPH = 0x2E"
definition GOODPUT_GLYPH :: glyph where "GOODPUT_GLYPH = 0x23"

definition throughput_place :: "geom \<Rightarrow> throughput_sample list \<Rightarrow> series_tag \<Rightarrow> glyph \<Rightarrow> (throughput_sample \<Rightarrow> u64)
    \<Rightarrow> smark option list \<Rightarrow> panic + smark option list" where
  [simp]: "throughput_place g samples tag gl val grid = place g tp_t tp_dir samples tag gl val grid"

definition throughput_project :: "throughput_sample list \<Rightarrow> sample_dir \<Rightarrow> nanos \<times> nanos
    \<Rightarrow> nanos \<Rightarrow> nat \<Rightarrow> nat \<Rightarrow> panic + peak_plot option" where
  "throughput_project wire focus xsp cursor width height =
     (if width < MIN_W \<or> height < MIN_H then Inr None
      else
        let max_rate = u64_max_or_zero
              (concat (map (\<lambda>s. [tp_throughput_bps s, tp_goodput_bps s]) (filter (\<lambda>s. tp_dir s = focus) wire)));
            g = make_geom focus xsp max_rate cursor width height;
            grid0 = replicate (width * height) None
        in and_then (throughput_place g wire Throughput THROUGHPUT_GLYPH tp_throughput_bps grid0)
           (\<lambda>grid1. and_then (throughput_place g wire Goodput GOODPUT_GLYPH tp_goodput_bps grid1)
           (\<lambda>grid2. finish_plot g xsp Throughput grid2)))"

end
