(* ===== verification/Transport.thy ===== *)
theory Transport
  imports Timeline
begin

text \<open>
  The playback transport (\<^verbatim>\<open>crates/tcpvisr-tui/src/transport.rs\<close>): cursor, speed ladder and play
  state over a time domain. Setting the cursor or the domain clamps, and \<^verbatim>\<open>clamp\<close> panics when
  the domain is the wrong way round; a speed index outside the ladder panics too. The lemmas
  show that neither happens and that the cursor never leaves the domain.
\<close>

section \<open>State\<close>

text \<open>Speeds are shown to one decimal; \<open>SPEEDS\<close> holds them in tenths.\<close>

definition SPEEDS :: "nat list" where
  "SPEEDS = [1, 5, 10, 20, 50, 100]"

definition RATIOS :: "(nat \<times> nat) list" where
  "RATIOS = [(1, 10), (1, 2), (1, 1), (2, 1), (5, 1), (10, 1)]"

definition DEFAULT_SPEED_IDX :: usize where
  "DEFAULT_SPEED_IDX = 2"

record transport =
  tp_start :: nanos
  tp_end :: nanos
  tp_cursor :: nanos
  speed_idx :: usize
  playing :: bool

definition transport_new :: "nanos \<Rightarrow> nanos \<Rightarrow> transport" where
  "transport_new start end' =
     \<lparr>tp_start = start, tp_end = end', tp_cursor = start, speed_idx = DEFAULT_SPEED_IDX, playing = False\<rparr>"

section \<open>Operations\<close>

definition speed :: "transport \<Rightarrow> panic + nat" where
  "speed tp = (if speed_idx tp < length SPEEDS then Inr (SPEEDS ! speed_idx tp) else Inl IndexOutOfBounds)"

definition tp_bounds :: "transport \<Rightarrow> nanos \<times> nanos" where
  "tp_bounds tp = (tp_start tp, tp_end tp)"

definition toggle_play :: "transport \<Rightarrow> transport" where
  "toggle_play tp =
     (if playing tp then tp\<lparr>playing := False\<rparr>
      else let tp1 = (if tp_end tp \<le> tp_cursor tp then tp\<lparr>tp_cursor := tp_start tp\<rparr> else tp)
           in tp1\<lparr>playing := True\<rparr>)"

definition faster :: "transport \<Rightarrow> transport" where
  "faster tp = tp\<lparr>speed_idx := min (speed_idx tp + 1) (length SPEEDS - 1)\<rparr>"

definition slower :: "transport \<Rightarrow> transport" where
  "slower tp = tp\<lparr>speed_idx := speed_idx tp - 1\<rparr>"

definition set_cursor :: "transport \<Rightarrow> nanos \<Rightarrow> panic + transport" where
  "set_cursor tp t =
     and_then (clamp (tp_start tp) (tp_end tp) t) (\<lambda>c. Inr (tp\<lparr>tp_cursor := c\<rparr>))"

definition seek :: "transport \<Rightarrow> bool \<Rightarrow> panic + transport" where
  "seek tp forward =
     (let step = max (sat_sub (tp_end tp) (tp_start tp) div 50) 1;
          next' = (if forward then sat_add (tp_cursor tp) step else sat_sub (tp_cursor tp) step)
      in set_cursor tp next')"

definition set_domain :: "transport \<Rightarrow> nanos \<Rightarrow> nanos \<Rightarrow> panic + transport" where
  "set_domain tp start end' =
     and_then (clamp start end' (tp_cursor tp))
       (\<lambda>c. Inr (tp\<lparr>tp_start := start, tp_end := end', tp_cursor := c\<rparr>))"

definition tick :: "transport \<Rightarrow> nanos \<Rightarrow> panic + transport" where
  "tick tp dt =
     (if \<not> playing tp then Inr tp
      else if length RATIOS \<le> speed_idx tp then Inl IndexOutOfBounds
      else let (num, den) = RATIOS ! speed_idx tp;
               prod = unat dt * num div den;
               adv = u64_of prod;
               tp1 = tp\<lparr>tp_cursor := min (sat_add (tp_cursor tp) adv) (tp_end tp)\<rparr>
           in Inr (if tp_end tp1 \<le> tp_cursor tp1 then tp1\<lparr>playing := False\<rparr> else tp1))"

section \<open>A transport driven by commands\<close>

datatype command =
    TogglePlay | Faster | Slower | Seek bool | SetCursor nanos | SetDomain nanos nanos | Advance nanos

fun transport_step :: "transport \<Rightarrow> command \<Rightarrow> panic + transport" where
  "transport_step tp TogglePlay = Inr (toggle_play tp)"
| "transport_step tp Faster = Inr (faster tp)"
| "transport_step tp Slower = Inr (slower tp)"
| "transport_step tp (Seek f) = seek tp f"
| "transport_step tp (SetCursor t) = set_cursor tp t"
| "transport_step tp (SetDomain a b) = set_domain tp a b"
| "transport_step tp (Advance dt) = tick tp dt"

text \<open>The commands the application gives: a domain is an interval.\<close>

fun command_ok :: "command \<Rightarrow> bool" where
  "command_ok (SetDomain a b) \<longleftrightarrow> a \<le> b"
| "command_ok c \<longleftrightarrow> True"

definition transport_ok :: "transport \<Rightarrow> bool" where
  "transport_ok tp \<longleftrightarrow>
     tp_start tp \<le> tp_cursor tp \<and> tp_cursor tp \<le> tp_end tp \<and> speed_idx tp < length RATIOS"

lemma ladder_lengths [simp]: "length SPEEDS = 6" "length RATIOS = 6"
  by (simp_all add: SPEEDS_def RATIOS_def)

lemma set_cursor_ok:
  assumes "tp_start tp \<le> tp_end tp"
  shows "set_cursor tp t = Inr (tp\<lparr>tp_cursor := max (tp_start tp) (min (tp_end tp) t)\<rparr>)"
  using assms by (simp add: set_cursor_def clamp_ok)

lemma transport_step_ok:
  assumes "transport_ok tp" and "command_ok c"
  shows "\<exists>tp'. transport_step tp c = Inr tp' \<and> transport_ok tp'"
proof (cases c)
  case (Advance dt)
  have "tp_cursor tp \<le> sat_add (tp_cursor tp) a" for a
    using unat_lt_u64 [of "tp_cursor tp"] by (simp add: word_le_nat_alt unat_sat_add)
  with assms Advance show ?thesis
    by (auto simp: tick_def transport_ok_def Let_def case_prod_beta min_def intro: order_trans)
next
  case (SetDomain a b)
  with assms show ?thesis by (simp add: set_domain_def clamp_ok transport_ok_def)
qed (use assms in \<open>auto simp: toggle_play_def faster_def slower_def seek_def set_cursor_ok transport_ok_def
      Let_def intro: order_trans\<close>)

text \<open>The transport is a machine of commands that never fails.\<close>

definition guarded_step :: "transport \<Rightarrow> command \<Rightarrow> panic + transport" where
  "guarded_step tp c = (if command_ok c then transport_step tp c else Inr tp)"

interpretation transport_machine: machine guarded_step "\<lambda>k. transport_ok" n for n
proof unfold_locales
  show "\<exists>s'. guarded_step s i = Inr s' \<and> transport_ok s'" if "transport_ok s" for k s i
    using transport_step_ok [OF that] that by (auto simp: guarded_step_def)
qed

lemma guarded_run: "list_all command_ok cs \<Longrightarrow> try_fold guarded_step tp cs = try_fold transport_step tp cs"
proof (induction cs arbitrary: tp)
  case Nil
  then show ?case by simp
next
  case (Cons c cs)
  then show ?case by (cases "transport_step tp c") (simp_all add: guarded_step_def)
qed

section \<open>What the transport promises\<close>

text \<open>
  Claim C35: a transport created over an interval and driven by any sequence of commands whose
  domains are intervals never panics, and its cursor is always inside its domain.
\<close>

theorem cursor_stays_in_domain:
  assumes "start \<le> end'" and "list_all command_ok cs"
  shows "\<exists>tp. try_fold transport_step (transport_new start end') cs = Inr tp
    \<and> tp_start tp \<le> tp_cursor tp \<and> tp_cursor tp \<le> tp_end tp \<and> speed tp \<noteq> Inl IndexOutOfBounds"
proof -
  have "transport_ok (transport_new start end')"
    using assms(1) by (simp add: transport_ok_def transport_new_def DEFAULT_SPEED_IDX_def)
  from transport_machine.run_ok [OF this, of 0 cs "length cs"] show ?thesis
    by (auto simp: guarded_run [OF assms(2)] transport_ok_def speed_def)
qed

theorem cursor_stays_in_domain_witness:
  "map_sum id tp_cursor (try_fold transport_step (transport_new 100 200)
     [TogglePlay, Faster, Advance 30, SetDomain 180 300, Seek False]) = Inr 180
   \<and> (\<exists>tp. try_fold transport_step (transport_new 100 200)
     [TogglePlay, Faster, Advance 30, SetDomain 180 300, Seek False] = Inr tp \<and> tp_start tp \<le> tp_cursor tp)"
proof
  show "map_sum id tp_cursor (try_fold transport_step (transport_new 100 200)
     [TogglePlay, Faster, Advance 30, SetDomain 180 300, Seek False]) = Inr 180" by code_simp
  show "\<exists>tp. try_fold transport_step (transport_new 100 200)
     [TogglePlay, Faster, Advance 30, SetDomain 180 300, Seek False] = Inr tp \<and> tp_start tp \<le> tp_cursor tp"
    using cursor_stays_in_domain [of 100 200 "[TogglePlay, Faster, Advance 30, SetDomain 180 300, Seek False]"]
    by auto
qed

lemma ladder_exact: "i < 6 \<Longrightarrow> SPEEDS ! i * snd (RATIOS ! i) = 10 * fst (RATIOS ! i)"
  by (simp add: less_Suc_eq numeral_eq_Suc SPEEDS_def RATIOS_def) auto

lemma tick_spec:
  assumes "transport_ok tp" and "playing tp"
  shows "\<exists>tp'. tick tp dt = Inr tp'
    \<and> unat (tp_cursor tp') = min (unat (tp_cursor tp) + unat dt * (SPEEDS ! speed_idx tp) div 10) (unat (tp_end tp))
    \<and> playing tp' = (tp_cursor tp' < tp_end tp')"
proof -
  define i where "i = speed_idx tp"
  have i: "i < 6" using assms(1) by (simp add: transport_ok_def i_def)
  obtain num den where r: "RATIOS ! i = (num, den)" by (cases "RATIOS ! i")
  have den: "0 < den" using i r by (auto simp: RATIOS_def less_Suc_eq numeral_eq_Suc)
  have "SPEEDS ! i * den = 10 * num" using ladder_exact [OF i] r by simp
  then have "10 * (unat dt * num) = (unat dt * SPEEDS ! i) * den" by (simp add: mult.left_commute)
  then have scaled: "(10 * (unat dt * num)) div (10 * den) = (unat dt * SPEEDS ! i * den) div (10 * den)"
    by (rule arg_cong)
  have p: "unat dt * num div den = unat dt * SPEEDS ! i div 10"
    using scaled unfolding div_mult_mult1 [of "10 :: nat", OF zero_neq_numeral [symmetric]]
    by (subst (asm) div_mult_mult2) (use den in simp_all)
  define cur where "cur = min (sat_add (tp_cursor tp) (u64_of (unat dt * num div den))) (tp_end tp)"
  have cur: "unat cur = min (unat (tp_cursor tp) + unat dt * SPEEDS ! i div 10) (unat (tp_end tp))"
    using unat_lt_u64 [of "tp_end tp"] unfolding p [symmetric]
    by (simp add: cur_def min_def word_le_nat_alt unat_sat_add unat_u64_of)
  have "tick tp dt = Inr (if tp_end tp \<le> cur then tp\<lparr>tp_cursor := cur, playing := False\<rparr> else tp\<lparr>tp_cursor := cur\<rparr>)"
    using assms(2) i r by (simp add: tick_def i_def [symmetric] cur_def Let_def)
  with cur assms(2) show ?thesis by (auto simp: i_def not_le)
qed

text \<open>
  While playing, a tick moves the cursor forward by exactly the elapsed time at the shown
  speed, rounded down to a nanosecond, but not past the end, and playback stops exactly when
  the end is reached.
\<close>

theorem tick_advances_at_speed:
  assumes "transport_ok tp" and "playing tp"
  shows "\<exists>tp'. tick tp dt = Inr tp'
    \<and> unat (tp_cursor tp') = min (unat (tp_cursor tp) + unat dt * (SPEEDS ! speed_idx tp) div 10) (unat (tp_end tp))
    \<and> playing tp' = (tp_cursor tp' < tp_end tp')"
  using tick_spec [OF assms] by blast

theorem tick_advances_at_speed_witness:
  "\<exists>tp'. tick ((transport_new 100 200)\<lparr>playing := True, speed_idx := 1\<rparr>) 31 = Inr tp'
     \<and> unat (tp_cursor tp') = 115"
proof -
  let ?tp = "(transport_new 100 200)\<lparr>playing := True, speed_idx := 1\<rparr>"
  have "transport_ok ?tp" "playing ?tp" by (simp_all add: transport_ok_def transport_new_def)
  from tick_advances_at_speed [OF this, of 31] show ?thesis
    by (auto simp: transport_new_def SPEEDS_def)
qed

section \<open>Playback reaches the end\<close>

lemma SPEEDS_pos: "i < 6 \<Longrightarrow> 1 \<le> SPEEDS ! i"
  by (auto simp: SPEEDS_def less_Suc_eq numeral_eq_Suc)

lemma tick_progress:
  assumes "transport_ok tp" and "playing tp" and "10 \<le> unat dt"
  shows "\<exists>tp'. tick tp dt = Inr tp' \<and> transport_ok tp' \<and> tp_end tp' = tp_end tp
    \<and> unat (tp_end tp) - unat (tp_cursor tp') \<le> unat (tp_end tp) - unat (tp_cursor tp) - 1
    \<and> playing tp' = (tp_cursor tp' < tp_end tp)"
proof -
  obtain tp' where tp': "tick tp dt = Inr tp'"
      "unat (tp_cursor tp') = min (unat (tp_cursor tp) + unat dt * (SPEEDS ! speed_idx tp) div 10) (unat (tp_end tp))"
      "playing tp' = (tp_cursor tp' < tp_end tp')"
    using tick_spec [OF assms(1,2)] by blast
  have "transport_ok tp'" using transport_step_ok [OF assms(1), of "Advance dt"] tp'(1) by auto
  moreover have "tp_end tp' = tp_end tp"
    using tp'(1) by (auto simp: tick_def Let_def split: if_splits prod.splits)
  moreover have "1 \<le> unat dt * (SPEEDS ! speed_idx tp) div 10"
  proof -
    have "1 \<le> SPEEDS ! speed_idx tp" using assms(1) SPEEDS_pos by (simp add: transport_ok_def)
    with assms(3) have "10 * 1 \<le> unat dt * SPEEDS ! speed_idx tp" by (intro mult_le_mono)
    then show ?thesis by simp
  qed
  ultimately show ?thesis using tp' by (intro exI [of _ tp']) simp
qed

lemma tick_paused: "\<not> playing tp \<Longrightarrow> tick tp dt = Inr tp"
  by (simp add: tick_def)

lemma ticks_paused: "\<not> playing tp \<Longrightarrow> try_fold tick tp dts = Inr tp"
  by (induction dts) (simp_all add: tick_paused)

lemma ticks_reach_end:
  assumes "transport_ok tp" and "playing tp" and "list_all (\<lambda>dt. 10 \<le> unat dt) dts"
    and "unat (tp_end tp) - unat (tp_cursor tp) \<le> length dts" and "dts \<noteq> []"
  shows "\<exists>tp'. try_fold tick tp dts = Inr tp' \<and> tp_cursor tp' = tp_end tp \<and> \<not> playing tp'"
  using assms
proof (induction dts arbitrary: tp)
  case Nil
  then show ?case by simp
next
  case (Cons dt dts)
  have "10 \<le> unat dt" using Cons.prems(3) by simp
  from tick_progress [OF Cons.prems(1,2) this] obtain tp' where tp': "tick tp dt = Inr tp'" "transport_ok tp'"
      "tp_end tp' = tp_end tp"
      "unat (tp_end tp) - unat (tp_cursor tp') \<le> unat (tp_end tp) - unat (tp_cursor tp) - 1"
      "playing tp' = (tp_cursor tp' < tp_end tp)" by blast
  show ?case
  proof (cases "playing tp'")
    case True
    then have "0 < unat (tp_end tp) - unat (tp_cursor tp')" using tp'(5) by (simp add: word_less_nat_alt)
    then have "dts \<noteq> []" using tp'(4) Cons.prems(4) by auto
    moreover have "unat (tp_end tp') - unat (tp_cursor tp') \<le> length dts" using tp'(3,4) Cons.prems(4) by simp
    ultimately show ?thesis using Cons.IH [OF tp'(2) True] Cons.prems(3) tp'(1,3) by simp
  next
    case False
    with tp' have "tp_cursor tp' = tp_end tp" by (auto simp: transport_ok_def)
    with False tp'(1) show ?thesis by (simp add: ticks_paused)
  qed
qed

text \<open>
  Claim C39: playback ends. From any sound playing state, ticks of at least ten nanoseconds each, at
  whatever speed is set, bring the cursor to the end of the domain and pause there, after at
  most as many ticks as there are nanoseconds left.
\<close>

theorem playback_reaches_end:
  assumes "transport_ok tp" and "playing tp" and "10 \<le> unat dt"
    and "unat (tp_end tp) - unat (tp_cursor tp) \<le> n" and "0 < n"
  shows "\<exists>tp'. try_fold tick tp (replicate n dt) = Inr tp' \<and> tp_cursor tp' = tp_end tp \<and> \<not> playing tp'"
  using ticks_reach_end [OF assms(1,2), of "replicate n dt"] assms(3-5) by (simp add: list_all_iff)

theorem playback_reaches_end_witness:
  "\<exists>tp'. try_fold tick ((transport_new 100 104)\<lparr>playing := True, speed_idx := 0\<rparr>) (replicate 4 10) = Inr tp'
     \<and> tp_cursor tp' = 104 \<and> \<not> playing tp'"
proof -
  let ?tp = "(transport_new 100 104)\<lparr>playing := True, speed_idx := 0\<rparr>"
  have "transport_ok ?tp" "playing ?tp" "10 \<le> unat (10 :: nanos)" "unat (tp_end ?tp) - unat (tp_cursor ?tp) \<le> 4" "0 < (4 :: nat)"
    by (simp_all add: transport_ok_def transport_new_def)
  from playback_reaches_end [OF this] show ?thesis by (simp add: transport_new_def)
qed

end
