(* ===== verification/App.thy ===== *)
theory App
  imports Transport Names
begin

text \<open>
  The interactive state of the master list (\<^verbatim>\<open>app.rs\<close>, \<^verbatim>\<open>service.rs\<close> and \<^verbatim>\<open>keys.rs\<close> of
  \<^verbatim>\<open>crates/tcpvisr-tui/src\<close>): which rows are visible at the cursor, in which order, which one is
  selected, and how keys and live snapshots change that. Searchable text is a list of code
  points. Lower-casing (\<^verbatim>\<open>str::to_lowercase\<close>, the Unicode tables) is the parameter \<open>lc\<close>. The hash
  map of the row data is an association list with distinct keys; its order is not observable.
  An operation that clamps the cursor or indexes the rows returns a panic or the new state.
\<close>

section \<open>Services (\<^verbatim>\<open>service.rs\<close>)\<close>

definition service_name :: "u16 \<Rightarrow> string option" where
  "service_name port =
     map_of
       [(20, ''ftp''), (21, ''ftp''), (22, ''ssh''), (23, ''telnet''), (25, ''smtp''),
        (53, ''domain''), (67, ''dhcp''), (68, ''dhcp''), (80, ''http''), (110, ''pop3''),
        (123, ''ntp''), (143, ''imap''), (179, ''bgp''), (389, ''ldap''), (443, ''https''),
        (445, ''microsoft-ds''), (465, ''smtps''), (587, ''submission''), (631, ''ipp''),
        (993, ''imaps''), (995, ''pop3s''), (3306, ''mysql''), (3389, ''rdp''),
        (5432, ''postgresql''), (6379, ''redis''), (8080, ''http-alt''), (8443, ''https-alt'')]
       port"

section \<open>State (\<^verbatim>\<open>app.rs\<close>)\<close>

type_synonym code_point = nat
type_synonym ustring = "code_point list"
type_synonym lowercase = "ustring \<Rightarrow> ustring"

definition utext :: "string \<Rightarrow> ustring" where
  "utext s = map of_char s"

record focus_conn =
  fc_origin :: endpoint
  fc_responder :: endpoint
  fc_x_span :: "nanos \<times> nanos"
  fc_focus_dir :: sample_dir
  fc_series :: "seq_sample list"
  fc_inflight :: "inflight_sample list"
  fc_rtt :: "rtt_sample list"
  fc_throughput :: "throughput_sample list"
  fc_responder_host :: "host_name option"

datatype detail_view = TimeSequence | InFlight | Rtt | ThroughputView

record conn_row =
  row_id :: conn_id
  row_peer :: endpoint
  row_host :: "host_name option"
  row_service :: "string option"
  row_state :: conn_state
  row_origin_inferred :: bool
  row_bytes_up :: u64
  row_bytes_down :: u64

record conn_meta =
  meta_peer :: endpoint
  meta_host :: "host_name option"
  meta_service :: "string option"
  meta_origin_inferred :: bool
  search_prefix :: ustring

datatype sort_field = ByPeer | ByState | ByBytesUp | ByBytesDown

datatype sort_dir = Asc | Desc

datatype mode = Nav | Filter

datatype outcome = Continue | Quit

record live_status =
  ls_dropped :: u64
  ls_approximate :: bool
  ls_skipped :: u64

definition live_status_default :: live_status where
  "live_status_default = \<lparr>ls_dropped = 0, ls_approximate = False, ls_skipped = 0\<rparr>"

record app =
  app_timeline :: timeline
  app_transport :: transport
  metas :: "(conn_id \<times> conn_meta) list"
  app_sort_field :: sort_field
  app_sort_dir :: sort_dir
  app_mode :: mode
  query :: ustring
  selected :: "conn_id option"
  app_title :: ustring
  detail_open :: bool
  app_detail_view :: detail_view
  is_live :: bool
  follow :: bool
  app_live_status :: live_status
  app_names :: name_table

section \<open>Order and filter of the rows\<close>

datatype step = StepUp | StepDown

fun natural_dir :: "sort_field \<Rightarrow> sort_dir" where
  "natural_dir ByPeer = Asc"
| "natural_dir ByState = Asc"
| "natural_dir ByBytesUp = Desc"
| "natural_dir ByBytesDown = Desc"

text \<open>The iterator over the haystack is advanced past each match.\<close>

fun is_subsequence :: "ustring \<Rightarrow> ustring \<Rightarrow> bool" where
  "is_subsequence [] hay = True"
| "is_subsequence (nc # ns) hay =
     (case dropWhile (\<lambda>hc. hc \<noteq> nc) hay of
        [] \<Rightarrow> False
      | _ # hay' \<Rightarrow> is_subsequence ns hay')"

fun tui_rank :: "conn_state \<Rightarrow> nat" where
  "tui_rank SynSent = 0"
| "tui_rank SynReceived = 1"
| "tui_rank Established = 2"
| "tui_rank FinWait = 3"
| "tui_rank Closed = 4"
| "tui_rank Reset = 5"

text \<open>\<^verbatim>\<open>std::cmp::Ordering\<close> with \<^verbatim>\<open>cmp\<close>, \<^verbatim>\<open>reverse\<close> and \<^verbatim>\<open>then_with\<close>.\<close>

datatype ordering = Less | Equal | Greater

definition cmp :: "'a::linorder \<Rightarrow> 'a \<Rightarrow> ordering" where
  "cmp a b = (if a < b then Less else if a = b then Equal else Greater)"

fun reverse :: "ordering \<Rightarrow> ordering" where
  "reverse Less = Greater"
| "reverse Equal = Equal"
| "reverse Greater = Less"

fun then_with :: "ordering \<Rightarrow> ordering \<Rightarrow> ordering" where
  "then_with Equal o' = o'"
| "then_with r o' = r"

definition order :: "sort_field \<Rightarrow> sort_dir \<Rightarrow> conn_row \<Rightarrow> conn_row \<Rightarrow> ordering" where
  "order field dir a b =
     (let base = (case field of
            ByPeer \<Rightarrow> cmp (row_peer a) (row_peer b)
          | ByState \<Rightarrow> cmp (tui_rank (row_state a)) (tui_rank (row_state b))
          | ByBytesUp \<Rightarrow> cmp (row_bytes_up a) (row_bytes_up b)
          | ByBytesDown \<Rightarrow> cmp (row_bytes_down a) (row_bytes_down b));
          base' = (if dir = Desc then reverse base else base)
      in then_with (then_with base' (cmp (id_pair (row_id a)) (id_pair (row_id b))))
           (cmp (id_instance (row_id a)) (id_instance (row_id b))))"

text \<open>\<^verbatim>\<open>slice::sort_by\<close>: stable.\<close>

fun insert_by :: "('a \<Rightarrow> 'a \<Rightarrow> ordering) \<Rightarrow> 'a \<Rightarrow> 'a list \<Rightarrow> 'a list" where
  "insert_by c x [] = [x]"
| "insert_by c x (y # ys) = (if c x y = Greater then y # insert_by c x ys else x # y # ys)"

definition sort_by :: "('a \<Rightarrow> 'a \<Rightarrow> ordering) \<Rightarrow> 'a list \<Rightarrow> 'a list" where
  "sort_by c xs = foldr (insert_by c) xs []"

text \<open>\<^verbatim>\<open>format!("{:?}", state)\<close>.\<close>

fun state_debug :: "conn_state \<Rightarrow> string" where
  "state_debug SynSent = ''SynSent''"
| "state_debug SynReceived = ''SynReceived''"
| "state_debug Established = ''Established''"
| "state_debug FinWait = ''FinWait''"
| "state_debug Closed = ''Closed''"
| "state_debug Reset = ''Reset''"

definition row :: "lowercase \<Rightarrow> app \<Rightarrow> as_of \<Rightarrow> ustring \<Rightarrow> conn_row option" where
  "row lc self a q =
     (case map_of (metas self) (ao_id a) of
        None \<Rightarrow> None
      | Some m \<Rightarrow>
          (let search = search_prefix m @ utext '' '' @ lc (utext (state_debug (ao_state a)))
           in if \<not> is_subsequence q search then None
              else Some \<lparr>row_id = ao_id a, row_peer = meta_peer m, row_host = meta_host m,
                     row_service = meta_service m, row_state = ao_state a,
                     row_origin_inferred = meta_origin_inferred m,
                     row_bytes_up = ao_bytes_o2r a, row_bytes_down = ao_bytes_r2o a\<rparr>))"

definition visible :: "lowercase \<Rightarrow> app \<Rightarrow> conn_row list" where
  "visible lc self =
     (let t = tp_cursor (app_transport self);
          q = lc (query self);
          rows = List.map_filter (\<lambda>a. row lc self a q) (resolve_at (app_timeline self) t)
      in sort_by (order (app_sort_field self) (app_sort_dir self)) rows)"

section \<open>Selection\<close>

definition reconcile_selection :: "lowercase \<Rightarrow> app \<Rightarrow> app" where
  "reconcile_selection lc self =
     (let vis = visible lc self;
          still_visible = (case selected self of None \<Rightarrow> False | Some i \<Rightarrow> list_ex (\<lambda>r. row_id r = i) vis)
      in if still_visible then self
         else self\<lparr>selected := (case vis of [] \<Rightarrow> None | r # _ \<Rightarrow> Some (row_id r))\<rparr>)"

text \<open>\<^verbatim>\<open>Iterator::position\<close>.\<close>

fun position :: "('a \<Rightarrow> bool) \<Rightarrow> 'a list \<Rightarrow> usize option" where
  "position p [] = None"
| "position p (x # xs) = (if p x then Some 0 else map_option Suc (position p xs))"

definition move_by :: "lowercase \<Rightarrow> app \<Rightarrow> step \<Rightarrow> panic + app" where
  "move_by lc self stp =
     (let vis = visible lc self
      in if length vis = 0 then Inr (self\<lparr>selected := None\<rparr>)
         else
           let lst = length vis - 1;
               cur = (case Option.bind (selected self) (\<lambda>i. position (\<lambda>r. row_id r = i) vis) of
                        None \<Rightarrow> 0 | Some k \<Rightarrow> k);
               nxt = (case stp of StepUp \<Rightarrow> cur - 1 | StepDown \<Rightarrow> min (cur + 1) lst)
           in if nxt < length vis then Inr (self\<lparr>selected := Some (row_id (vis ! nxt))\<rparr>)
              else Inl IndexOutOfBounds)"

definition move_up :: "lowercase \<Rightarrow> app \<Rightarrow> panic + app" where
  "move_up lc self = move_by lc self StepUp"

definition move_down :: "lowercase \<Rightarrow> app \<Rightarrow> panic + app" where
  "move_down lc self = move_by lc self StepDown"

section \<open>Construction and live snapshots\<close>

definition meta_for :: "lowercase \<Rightarrow> name_table \<Rightarrow> connection \<Rightarrow> conn_meta" where
  "meta_for lc names c =
     (let service = service_name (ep_port (conn_responder c));
          host = nt_resolve names (ep_ip (conn_responder c));
          host_text = (case host of None \<Rightarrow> '''' | Some h \<Rightarrow> host_str h);
          prefix = lc (utext (endpoint_fmt (conn_origin c) @ '' '' @ endpoint_fmt (conn_responder c) @ '' ''
            @ host_text @ '' '' @ (case service of None \<Rightarrow> '''' | Some s \<Rightarrow> s)))
      in \<lparr>meta_peer = conn_responder c, meta_host = host, meta_service = service,
          meta_origin_inferred = conn_origin_inferred c, search_prefix = prefix\<rparr>)"

definition new_with_names :: "lowercase \<Rightarrow> timeline \<Rightarrow> name_table \<Rightarrow> ustring \<Rightarrow> app" where
  "new_with_names lc tml names title =
     (let ms = fold (\<lambda>c. AList.update (conn_id c) (meta_for lc names c)) (connections tml) [];
          (start, end') = bounds tml;
          self = \<lparr>app_timeline = tml, app_transport = transport_new start end', metas = ms,
             app_sort_field = ByPeer, app_sort_dir = Asc, app_mode = Nav, query = [], selected = None,
             app_title = title, detail_open = False, app_detail_view = TimeSequence, is_live = False,
             follow = False, app_live_status = live_status_default, app_names = names\<rparr>
      in self\<lparr>selected := (case visible lc self of [] \<Rightarrow> None | r # _ \<Rightarrow> Some (row_id r))\<rparr>)"

definition app_new :: "lowercase \<Rightarrow> timeline \<Rightarrow> ustring \<Rightarrow> app" where
  "app_new lc tml title = new_with_names lc tml name_table_default title"

definition new_live :: "lowercase \<Rightarrow> name_table \<Rightarrow> ustring \<Rightarrow> app" where
  "new_live lc names title = (new_with_names lc (timeline_new []) names title)\<lparr>is_live := True, follow := True\<rparr>"

definition on_transport :: "app \<Rightarrow> (transport \<Rightarrow> panic + transport) \<Rightarrow> panic + app" where
  "on_transport self f = and_then (f (app_transport self)) (\<lambda>tp. Inr (self\<lparr>app_transport := tp\<rparr>))"

definition retarget_metas :: "lowercase \<Rightarrow> name_table \<Rightarrow> timeline \<Rightarrow> (conn_id \<times> conn_meta) list
    \<Rightarrow> (conn_id \<times> conn_meta) list" where
  "retarget_metas lc names tml ms =
     (let present = map conn_id (connections tml);
          kept = filter (\<lambda>(i, _). i \<in> set present) ms;
          fresh = filter (\<lambda>c. map_of kept (conn_id c) = None) (connections tml)
      in fold (\<lambda>c. AList.update (conn_id c) (meta_for lc names c)) fresh kept)"

definition retarget :: "lowercase \<Rightarrow> app \<Rightarrow> timeline \<Rightarrow> nanos \<Rightarrow> nanos \<Rightarrow> live_status \<Rightarrow> panic + app" where
  "retarget lc self tml horizon now status =
     (let self1 = self\<lparr>metas := retarget_metas lc (app_names self) tml (metas self),
                       app_timeline := tml, app_live_status := status\<rparr>
      in and_then (on_transport self1 (\<lambda>tp. set_domain tp horizon now))
           (\<lambda>self2. and_then (if follow self2 then on_transport self2 (\<lambda>tp. set_cursor tp now) else Inr self2)
           (\<lambda>self3. Inr (reconcile_selection lc self3))))"

definition observe_name :: "app \<Rightarrow> name_observation \<Rightarrow> app" where
  "observe_name self obs = self\<lparr>app_names := nt_observe (app_names self) obs\<rparr>"

section \<open>Detail pane\<close>

definition open_detail :: "app \<Rightarrow> app" where
  "open_detail self = (if selected self \<noteq> None then self\<lparr>detail_open := True\<rparr> else self)"

definition close_detail :: "app \<Rightarrow> app" where
  "close_detail self = self\<lparr>detail_open := False\<rparr>"

definition app_focus :: "app \<Rightarrow> focus_conn option" where
  "app_focus self =
     Option.bind (selected self) (\<lambda>i.
     Option.bind (List.find (\<lambda>c. conn_id c = i) (connections (app_timeline self))) (\<lambda>c.
     Option.bind (x_span (app_timeline self) i) (\<lambda>xsp.
       Some \<lparr>fc_origin = conn_origin c, fc_responder = conn_responder c, fc_x_span = xsp,
         fc_focus_dir = (if conn_bytes_r2o c \<le> conn_bytes_o2r c then OriginToResponder else ResponderToOrigin),
         fc_series = seq_series (app_timeline self) i,
         fc_inflight = inflight_series (app_timeline self) i,
         fc_rtt = rtt_series (app_timeline self) i,
         fc_throughput = throughput_series (app_timeline self) i,
         fc_responder_host = Option.bind (map_of (metas self) i) meta_host\<rparr>)))"

fun next_view :: "detail_view \<Rightarrow> detail_view" where
  "next_view TimeSequence = InFlight"
| "next_view InFlight = Rtt"
| "next_view Rtt = ThroughputView"
| "next_view ThroughputView = TimeSequence"

definition cycle_detail_view :: "app \<Rightarrow> app" where
  "cycle_detail_view self = self\<lparr>app_detail_view := next_view (app_detail_view self)\<rparr>"

section \<open>Transport commands\<close>

definition app_toggle_play :: "lowercase \<Rightarrow> app \<Rightarrow> app" where
  "app_toggle_play lc self = reconcile_selection lc (self\<lparr>app_transport := toggle_play (app_transport self)\<rparr>)"

definition app_seek :: "lowercase \<Rightarrow> app \<Rightarrow> bool \<Rightarrow> panic + app" where
  "app_seek lc self forward =
     and_then (on_transport self (\<lambda>tp. seek tp forward)) (\<lambda>self1. Inr (reconcile_selection lc self1))"

definition app_faster :: "app \<Rightarrow> app" where
  "app_faster self = self\<lparr>app_transport := faster (app_transport self)\<rparr>"

definition app_slower :: "app \<Rightarrow> app" where
  "app_slower self = self\<lparr>app_transport := slower (app_transport self)\<rparr>"

definition step_forward :: "lowercase \<Rightarrow> app \<Rightarrow> panic + app" where
  "step_forward lc self =
     (case next_event (app_timeline self) (tp_cursor (app_transport self)) of
        None \<Rightarrow> Inr self
      | Some t \<Rightarrow> and_then (on_transport self (\<lambda>tp. set_cursor tp t)) (\<lambda>self1. Inr (reconcile_selection lc self1)))"

definition step_back :: "lowercase \<Rightarrow> app \<Rightarrow> panic + app" where
  "step_back lc self =
     (case prev_event (app_timeline self) (tp_cursor (app_transport self)) of
        None \<Rightarrow> Inr self
      | Some t \<Rightarrow> and_then (on_transport self (\<lambda>tp. set_cursor tp t)) (\<lambda>self1. Inr (reconcile_selection lc self1)))"

definition app_tick :: "lowercase \<Rightarrow> app \<Rightarrow> nanos \<Rightarrow> panic + app" where
  "app_tick lc self dt =
     and_then (on_transport self (\<lambda>tp. tick tp dt))
       (\<lambda>self1. Inr (if tp_cursor (app_transport self1) \<noteq> tp_cursor (app_transport self)
                     then reconcile_selection lc self1 else self1))"

definition toggle_follow :: "app \<Rightarrow> panic + app" where
  "toggle_follow self =
     (let self1 = self\<lparr>follow := \<not> follow self\<rparr>
      in if follow self1 then on_transport self1 (\<lambda>tp. set_cursor tp (snd (tp_bounds tp))) else Inr self1)"

definition freeze_if_live :: "app \<Rightarrow> app" where
  "freeze_if_live self = (if is_live self then self\<lparr>follow := False\<rparr> else self)"

section \<open>Sorting and filtering commands\<close>

fun next_field :: "sort_field \<Rightarrow> sort_field" where
  "next_field ByPeer = ByState"
| "next_field ByState = ByBytesUp"
| "next_field ByBytesUp = ByBytesDown"
| "next_field ByBytesDown = ByPeer"

definition cycle_sort :: "app \<Rightarrow> app" where
  "cycle_sort self =
     (let f = next_field (app_sort_field self) in self\<lparr>app_sort_field := f, app_sort_dir := natural_dir f\<rparr>)"

definition toggle_dir :: "app \<Rightarrow> app" where
  "toggle_dir self = self\<lparr>app_sort_dir := (case app_sort_dir self of Asc \<Rightarrow> Desc | Desc \<Rightarrow> Asc)\<rparr>"

definition enter_filter :: "app \<Rightarrow> app" where
  "enter_filter self = self\<lparr>app_mode := Filter\<rparr>"

definition push_filter :: "lowercase \<Rightarrow> app \<Rightarrow> code_point \<Rightarrow> app" where
  "push_filter lc self c = reconcile_selection lc (self\<lparr>query := query self @ [c]\<rparr>)"

definition pop_filter :: "lowercase \<Rightarrow> app \<Rightarrow> app" where
  "pop_filter lc self = reconcile_selection lc (self\<lparr>query := butlast (query self)\<rparr>)"

definition confirm_filter :: "app \<Rightarrow> app" where
  "confirm_filter self = self\<lparr>app_mode := Nav\<rparr>"

definition cancel_filter :: "lowercase \<Rightarrow> app \<Rightarrow> app" where
  "cancel_filter lc self = reconcile_selection lc (self\<lparr>query := [], app_mode := Nav\<rparr>)"

definition set_title :: "app \<Rightarrow> ustring \<Rightarrow> app" where
  "set_title self title = self\<lparr>app_title := title\<rparr>"

definition is_capture_empty :: "app \<Rightarrow> bool" where
  "is_capture_empty self \<longleftrightarrow> metas self = []"

section \<open>Keys (\<^verbatim>\<open>keys.rs\<close>)\<close>

text \<open>The key codes the handlers tell apart; \<open>OtherKey\<close> stands for the rest of \<^verbatim>\<open>KeyCode\<close>.\<close>

datatype key_code =
    CharKey code_point | DownKey | UpKey | LeftKey | RightKey | EnterKey | EscKey | TabKey | BackspaceKey | OtherKey

record key_event =
  ke_code :: key_code
  ke_control :: bool

definition ch :: "char \<Rightarrow> key_code" where
  "ch c = CharKey (of_char c)"

definition handle_nav :: "lowercase \<Rightarrow> app \<Rightarrow> key_code \<Rightarrow> panic + app \<times> outcome" where
  "handle_nav lc self code =
     (if code = ch (CHR ''q'') then Inr (self, Quit)
      else and_then
        (if code = ch (CHR ''s'') then Inr (cycle_sort self)
         else if code = ch (CHR ''S'') then Inr (toggle_dir self)
         else if code = ch (CHR ''/'') then Inr (enter_filter self)
         else if code = ch (CHR ''j'') \<or> code = DownKey then move_down lc self
         else if code = ch (CHR ''k'') \<or> code = UpKey then move_up lc self
         else if code = ch (CHR '' '') then (if is_live self then toggle_follow self else Inr (app_toggle_play lc self))
         else if code = LeftKey then app_seek lc (freeze_if_live self) False
         else if code = RightKey then app_seek lc (freeze_if_live self) True
         else if code = ch (CHR ''+'') \<or> code = ch (CHR ''='') then Inr (app_faster self)
         else if code = ch (CHR ''-'') \<or> code = ch (CHR ''_'') then Inr (app_slower self)
         else if code = ch (CHR ''.'') then step_forward lc (freeze_if_live self)
         else if code = ch (CHR '','') then step_back lc (freeze_if_live self)
         else if code = EnterKey then Inr (open_detail self)
         else if code = EscKey then Inr (close_detail self)
         else if code = TabKey then Inr (cycle_detail_view self)
         else Inr self)
        (\<lambda>self1. Inr (self1, Continue)))"

definition handle_filter :: "lowercase \<Rightarrow> app \<Rightarrow> key_code \<Rightarrow> app" where
  "handle_filter lc self code =
     (case code of
        EnterKey \<Rightarrow> confirm_filter self
      | EscKey \<Rightarrow> cancel_filter lc self
      | BackspaceKey \<Rightarrow> pop_filter lc self
      | CharKey c \<Rightarrow> push_filter lc self c
      | _ \<Rightarrow> self)"

definition handle_key :: "lowercase \<Rightarrow> app \<Rightarrow> key_event \<Rightarrow> panic + app \<times> outcome" where
  "handle_key lc self key =
     (if ke_control key \<and> ke_code key = ch (CHR ''c'') then Inr (self, Quit)
      else case app_mode self of
        Nav \<Rightarrow> handle_nav lc self (ke_code key)
      | Filter \<Rightarrow> Inr (handle_filter lc self (ke_code key), Continue))"

section \<open>Event loops (\<^verbatim>\<open>run.rs\<close>)\<close>

text \<open>
  A frame of a loop is the key press read in it, if any (other terminal events change nothing),
  and what the loop does after it: the elapsed time in replay, a call of \<open>next_frame\<close> with the
  data that arrived in live mode. The loops run over the frames the terminal delivers and stop
  when a key quits.
\<close>

fun event_loop :: "lowercase \<Rightarrow> app \<Rightarrow> (key_event option \<times> nanos) list \<Rightarrow> panic + app" where
  "event_loop lc self [] = Inr self"
| "event_loop lc self ((key, dt) # frames) =
     and_then (case key of None \<Rightarrow> Inr (self, Continue) | Some k \<Rightarrow> handle_key lc self k)
       (\<lambda>(self1, oc). if oc = Quit then Inr self1
          else and_then (app_tick lc self1 dt) (\<lambda>self2. event_loop lc self2 frames))"

fun live_loop :: "lowercase \<Rightarrow> ('s \<Rightarrow> app \<Rightarrow> 'f \<Rightarrow> panic + 's \<times> app) \<Rightarrow> 's \<Rightarrow> app
    \<Rightarrow> (key_event option \<times> 'f) list \<Rightarrow> panic + 's \<times> app" where
  "live_loop lc next_frame s self [] = Inr (s, self)"
| "live_loop lc next_frame s self ((key, arrived) # frames) =
     and_then (case key of None \<Rightarrow> Inr (self, Continue) | Some k \<Rightarrow> handle_key lc self k)
       (\<lambda>(self1, oc). if oc = Quit then Inr (s, self1)
          else and_then (next_frame s self1 arrived) (\<lambda>(s', self2). live_loop lc next_frame s' self2 frames))"

end
