(* ===== verification/Render.thy ===== *)
theory Render
  imports Plot App
begin

text \<open>
  The rendering of a frame (\<^verbatim>\<open>crates/tcpvisr-tui/src/render.rs\<close>). A frame is the list of calls
  the code makes on the terminal library, in order: strings written into the buffer, and
  widgets handed over with their area. The library itself splits areas and computes the inside
  of a bordered block; it is the parameter \<open>tk\<close>. Screen coordinates are \<^verbatim>\<open>u16\<close>: they are natural
  numbers here, and every addition and subtraction on them is checked, a result outside the
  type being a panic. Text is a list of code points.
\<close>

section \<open>The terminal library, as far as the code calls it\<close>

record rect =
  rc_x :: nat
  rc_y :: nat
  rc_width :: nat
  rc_height :: nat

datatype color = Red | Yellow | Cyan | Green | ResetColor

datatype constraint = MinC nat | LengthC nat | PercentageC nat

datatype layout_direction = Vertical | Horizontal

datatype alignment = LeftAligned | RightAligned

datatype modifier = Bold | Reversed

record block =
  bk_title :: ustring
  bk_right_title :: "ustring option"

type_synonym table_cell = "alignment \<times> ustring"

record table =
  tb_header :: "table_cell list"
  tb_header_style :: modifier
  tb_rows :: "table_cell list list"
  tb_widths :: "constraint list"
  tb_highlight_style :: modifier
  tb_highlight_symbol :: ustring

datatype draw =
    SetString nat nat ustring "color option"
  | RenderBlock block rect
  | RenderParagraph ustring "block option" rect
  | RenderTable table block rect "usize option"

text \<open>\<^verbatim>\<open>Layout::areas\<close> for two constraints, and \<^verbatim>\<open>Block::inner\<close>.\<close>

record toolkit =
  tk_split :: "layout_direction \<Rightarrow> constraint \<times> constraint \<Rightarrow> rect \<Rightarrow> rect \<times> rect"
  tk_inner :: "block \<Rightarrow> rect \<Rightarrow> rect"

text \<open>Checked \<^verbatim>\<open>u16\<close> arithmetic.\<close>

definition add16 :: "nat \<Rightarrow> nat \<Rightarrow> panic + nat" where
  "add16 a b = (if a + b < 65536 then Inr (a + b) else Inl ArithmeticOverflow)"

definition sub16 :: "nat \<Rightarrow> nat \<Rightarrow> panic + nat" where
  "sub16 a b = (if b \<le> a then Inr (a - b) else Inl ArithmeticOverflow)"

fun try_map :: "('a \<Rightarrow> 'e + 'b) \<Rightarrow> 'a list \<Rightarrow> 'e + 'b list" where
  "try_map f [] = Inr []"
| "try_map f (x # xs) = and_then (f x) (\<lambda>y. and_then (try_map f xs) (\<lambda>ys. Inr (y # ys)))"

text \<open>Two drawing steps, one after the other.\<close>

definition then_draw :: "panic + draw list \<Rightarrow> panic + draw list \<Rightarrow> panic + draw list" where
  "then_draw a b = and_then a (\<lambda>xs. and_then b (\<lambda>ys. Inr (xs @ ys)))"

section \<open>Numbers and times as labels\<close>

text \<open>\<^verbatim>\<open>i64::to_string\<close>.\<close>

definition show_int :: "int \<Rightarrow> string" where
  "show_int n = (if n < 0 then CHR ''-'' # show_dec (nat (- n)) else show_dec (nat n))"

definition pad_label :: "ustring \<Rightarrow> ustring" where
  "pad_label s = replicate (7 - length s) 0x20 @ s"

definition fmt_seconds :: "nanos \<Rightarrow> string" where
  "fmt_seconds t =
     (let ms = unat t div 1000000
      in show_dec (ms div 1000) @ ''.'' @ pad_zero 3 (show_dec (ms mod 1000)))"

definition SEQ_UNITS :: "(i64 \<times> char) list" where
  "SEQ_UNITS = [(1000000000000, CHR ''T''), (1000000000, CHR ''G''), (1000000, CHR ''M''), (1000, CHR ''K'')]"

definition fmt_seq :: "i64 \<Rightarrow> string" where
  "fmt_seq n =
     (if n < 100000 then show_int n
      else case List.find (\<lambda>(d, suffix). d \<le> n) SEQ_UNITS of
        Some (d, suffix) \<Rightarrow> show_int (n div d) @ ''.'' @ show_int (n mod d * 10 div d) @ [suffix]
      | None \<Rightarrow> show_int n)"

definition RTT_UNITS :: "(nat \<times> ustring) list" where
  "RTT_UNITS = [(1000000000, utext ''s''), (1000000, utext ''ms''), (1000, [0xB5, 0x73])]"

definition fmt_rtt :: "nanos \<Rightarrow> ustring" where
  "fmt_rtt t =
     (let n = unat t
      in case List.find (\<lambda>(d, u). d \<le> n) RTT_UNITS of
           Some (d, u) \<Rightarrow> utext (show_dec (n div d) @ ''.'' @ pad_zero 3 (show_dec (n mod d * 1000 div d))) @ u
         | None \<Rightarrow> utext (show_dec n @ ''ns''))"

definition RATE_UNITS :: "(nat \<times> string) list" where
  "RATE_UNITS = [(1000000000, ''Gbps''), (1000000, ''Mbps''), (1000, ''kbps'')]"

definition rate_unit :: "u64 \<Rightarrow> string \<times> nat" where
  "rate_unit max_rate =
     (case List.find (\<lambda>(d, u). d \<le> unat max_rate) RATE_UNITS of
        Some (d, u) \<Rightarrow> (u, d)
      | None \<Rightarrow> (''bps'', 1))"

definition fmt_rate_scaled :: "u64 \<Rightarrow> nat \<Rightarrow> string" where
  "fmt_rate_scaled bps d =
     (if d \<le> 1 then show_dec (unat bps)
      else show_dec (unat bps div d) @ ''.'' @ pad_zero 3 (show_dec (unat bps mod d * 1000 div d)))"

fun sort_label :: "sort_field \<Rightarrow> string" where
  "sort_label ByPeer = ''peer''"
| "sort_label ByState = ''state''"
| "sort_label ByBytesUp = ''up''"
| "sort_label ByBytesDown = ''down''"

definition peer_label :: "endpoint \<Rightarrow> host_name option \<Rightarrow> string" where
  "peer_label peer host =
     (case host of
        Some name \<Rightarrow> host_str name @ '':'' @ show_dec (unat (ep_port peer))
      | None \<Rightarrow> endpoint_fmt peer)"

section \<open>Header, master list and footer\<close>

text \<open>\<^verbatim>\<open>{:.1}\<close> of a speed held in tenths.\<close>

definition fmt_tenths :: "nat \<Rightarrow> string" where
  "fmt_tenths v = show_dec (v div 10) @ ''.'' @ show_dec (v mod 10)"

definition app_cursor :: "app \<Rightarrow> nanos" where
  "app_cursor self = tp_cursor (app_transport self)"

definition transport_status :: "app \<Rightarrow> panic + ustring" where
  "transport_status self =
     (if is_live self then
        let state = (if follow self then 0x25B6 # utext '' LIVE'' else 0x23F8 # utext '' FROZEN'');
            ls = app_live_status self;
            drops = (if 0 < ls_dropped ls
                     then ''  dropped '' @ show_dec (unat (ls_dropped ls)) @ '' (metrics approximate)'' else '''');
            skips = (if 0 < ls_skipped ls then ''  skipped '' @ show_dec (unat (ls_skipped ls)) else '''')
        in Inr (utext ''[ '' @ state @ utext (''  t='' @ fmt_seconds (app_cursor self) @ ''s'' @ drops @ skips @ '' ]''))
      else
        let gl = (if playing (app_transport self) then 0x25B6 else 0x23F8);
            end' = snd (tp_bounds (app_transport self))
        in and_then (speed (app_transport self)) (\<lambda>sp.
             Inr (utext ''[ '' @ gl # utext ('' '' @ fmt_tenths sp @ ''x  t='' @ fmt_seconds (app_cursor self)
               @ ''s / '' @ fmt_seconds end' @ ''s ]''))))"

definition table_header :: "table_cell list" where
  "table_header =
     [(LeftAligned, utext ''PEER''), (LeftAligned, utext ''SERVICE''), (LeftAligned, utext ''STATE''),
      (RightAligned, 0x2191 # utext ''BYTES''), (RightAligned, 0x2193 # utext ''BYTES'')]"

definition table_widths :: "constraint list" where
  "table_widths = [MinC 20, LengthC 12, LengthC 14, LengthC 10, LengthC 10]"

definition row_cells :: "conn_row \<Rightarrow> table_cell list" where
  "row_cells r =
     (let state = (if row_origin_inferred r then state_debug (row_state r) @ ''~'' else state_debug (row_state r))
      in [(LeftAligned, utext (peer_label (row_peer r) (row_host r))),
          (LeftAligned, utext (case row_service r of None \<Rightarrow> '''' | Some s \<Rightarrow> s)),
          (LeftAligned, utext state),
          (RightAligned, utext (show_dec (unat (row_bytes_up r)))),
          (RightAligned, utext (show_dec (unat (row_bytes_down r))))])"

definition selected_index :: "app \<Rightarrow> conn_row list \<Rightarrow> usize option" where
  "selected_index self rows = Option.bind (selected self) (\<lambda>i. position (\<lambda>r. row_id r = i) rows)"

definition empty_message :: "app \<Rightarrow> string" where
  "empty_message self =
     (if is_capture_empty self then ''no connections in capture''
      else ''no connections active at t='' @ fmt_seconds (app_cursor self) @ ''s'')"

definition render_main :: "lowercase \<Rightarrow> app \<Rightarrow> rect \<Rightarrow> panic + draw list" where
  "render_main lc self area =
     and_then (transport_status self) (\<lambda>status.
       let block = \<lparr>bk_title = app_title self, bk_right_title = Some status\<rparr>;
           rows = visible lc self
       in Inr (if rows = [] then [RenderParagraph (utext (empty_message self)) (Some block) area]
               else [RenderTable
                 \<lparr>tb_header = table_header, tb_header_style = Bold, tb_rows = map row_cells rows,
                  tb_widths = table_widths, tb_highlight_style = Reversed, tb_highlight_symbol = [0x25B8]\<rparr>
                 block area (selected_index self rows)]))"

definition footer_text :: "app \<Rightarrow> ustring" where
  "footer_text self =
     (case app_mode self of
        Filter \<Rightarrow> utext ''/'' @ query self
      | Nav \<Rightarrow>
          (let arrow = (case app_sort_dir self of Asc \<Rightarrow> 0x25B2 | Desc \<Rightarrow> 0x25BC);
               transport = (if is_live self
                 then utext ''space follow/freeze  '' @ [0x2190, 0x2192] @ utext '' seek  ,/. step''
                 else utext ''space play/pause  '' @ [0x2190, 0x2192] @ utext '' seek  +/- speed  ,/. step'')
           in transport @ utext ''  '' @ [0x23CE] @ utext '' open  esc close  '' @ [0x21E5]
              @ utext ('' view  / filter  s sort:'' @ sort_label (app_sort_field self)) @ [arrow] @ utext ''  q quit''))"

definition render_footer :: "app \<Rightarrow> rect \<Rightarrow> draw list" where
  "render_footer self area = [RenderParagraph (footer_text self) None area]"

section \<open>The detail pane\<close>

definition GUTTER :: nat where "GUTTER = 8"

definition widen_message :: ustring where
  "widen_message = utext ''widen terminal to view graph''"

text \<open>The row of a legend.\<close>

definition legend_row :: "rect \<Rightarrow> rect" where
  "legend_row inner = \<lparr>rc_x = rc_x inner, rc_y = rc_y inner, rc_width = rc_width inner, rc_height = 1\<rparr>"

definition draw_legend :: "rect \<Rightarrow> draw list" where
  "draw_legend inner =
     [RenderParagraph (utext ''Time/Sequence   '' @ [RETRANS_GLYPH] @ utext '' retrans  '' @ [SACK_GLYPH] @ utext '' sack'')
        None (legend_row inner)]"

definition draw_inflight_legend :: "rect \<Rightarrow> draw list" where
  "draw_inflight_legend inner =
     [RenderParagraph (utext ''In-flight   '' @ [WIRE_GLYPH] @ utext '' wire'') None (legend_row inner)]"

definition draw_rtt_legend :: "rect \<Rightarrow> draw list" where
  "draw_rtt_legend inner =
     [RenderParagraph (utext ''RTT   '' @ [RAW_GLYPH] @ utext '' raw  '' @ [SMOOTHED_GLYPH] @ utext '' smoothed'')
        None (legend_row inner)]"

definition draw_throughput_legend :: "rect \<Rightarrow> string \<Rightarrow> draw list" where
  "draw_throughput_legend inner unit =
     [RenderParagraph (utext (''Throughput ['' @ unit @ '']  '') @ [THROUGHPUT_GLYPH] @ utext '' total  ''
        @ [GOODPUT_GLYPH] @ utext '' goodput'') None (legend_row inner)]"

text \<open>
  The loop every plot is drawn with: the marks' columns are offset by the gutter, their rows
  (counted from the bottom) turned into screen lines below the legend.
\<close>

definition draw_marks :: "rect \<Rightarrow> nat \<Rightarrow> nat \<Rightarrow> ('m \<Rightarrow> (nat \<times> nat) \<times> glyph \<times> color) \<Rightarrow> 'm list \<Rightarrow> panic + draw list" where
  "draw_marks inner gutter height f marks =
     and_then (add16 (rc_x inner) gutter) (\<lambda>x0.
     and_then (add16 (rc_y inner) 1) (\<lambda>y_top.
       try_map (\<lambda>m. case f m of ((col, rw), g, c) \<Rightarrow>
         and_then (sub16 height 1) (\<lambda>h1.
         and_then (sub16 h1 rw) (\<lambda>screen_row.
         and_then (add16 x0 col) (\<lambda>x.
         and_then (add16 y_top screen_row) (\<lambda>y. Inr (SetString x y [g] (Some c))))))) marks))"

definition seq_color :: "glyph \<Rightarrow> color" where
  "seq_color g = (if g = RETRANS_GLYPH then Red else if g = SACK_GLYPH then Yellow else ResetColor)"

definition draw_plot :: "rect \<Rightarrow> nat \<Rightarrow> seq_plot \<Rightarrow> panic + draw list" where
  "draw_plot inner gutter p =
     draw_marks inner gutter (sp_height p)
       (\<lambda>m. ((mk_col m, mk_row m), mk_glyph m, seq_color (mk_glyph m))) (sp_marks p)"

definition inflight_color :: "series_tag \<Rightarrow> color" where
  "inflight_color s = (if s = Cwnd then Cyan else ResetColor)"

definition draw_inflight_plot :: "rect \<Rightarrow> nat \<Rightarrow> peak_plot \<Rightarrow> panic + draw list" where
  "draw_inflight_plot inner gutter p =
     draw_marks inner gutter (pp_height p)
       (\<lambda>m. ((sm_col m, sm_row m), sm_glyph m, inflight_color (sm_series m))) (pp_marks p)"

definition rtt_color :: "series_tag \<Rightarrow> color" where
  "rtt_color s = (if s = Kernel then Cyan else if s = Smoothed then Green else ResetColor)"

definition draw_rtt_plot :: "rect \<Rightarrow> nat \<Rightarrow> peak_plot \<Rightarrow> panic + draw list" where
  "draw_rtt_plot inner gutter p =
     draw_marks inner gutter (pp_height p)
       (\<lambda>m. ((sm_col m, sm_row m), sm_glyph m, rtt_color (sm_series m))) (pp_marks p)"

definition throughput_color :: "series_tag \<Rightarrow> color" where
  "throughput_color s = (if s = Goodput then Green else ResetColor)"

definition draw_throughput_plot :: "rect \<Rightarrow> nat \<Rightarrow> peak_plot \<Rightarrow> panic + draw list" where
  "draw_throughput_plot inner gutter p =
     draw_marks inner gutter (pp_height p)
       (\<lambda>m. ((sm_col m, sm_row m), sm_glyph m, throughput_color (sm_series m))) (pp_marks p)"

text \<open>
  The labels of the axes: the value labels at the top and the bottom of the gutter, the start
  and the end of the span on the last row. The position of the end label saturates.
\<close>

definition end_label_x :: "rect \<Rightarrow> string \<Rightarrow> nat" where
  "end_label_x inner label =
     min (rc_x inner + rc_width inner) 65535 - (if length label < 65536 then length label else 0)"

definition draw_labels :: "rect \<Rightarrow> nat \<Rightarrow> nat \<Rightarrow> nanos \<times> nanos \<Rightarrow> ustring \<Rightarrow> ustring \<Rightarrow> panic + draw list" where
  "draw_labels inner gutter height xsp upper lower =
     and_then (add16 (rc_y inner) 1) (\<lambda>y_top.
     and_then (add16 y_top height) (\<lambda>below.
     and_then (sub16 below 1) (\<lambda>y_bottom.
     and_then (add16 (rc_y inner) (rc_height inner)) (\<lambda>under.
     and_then (sub16 under 1) (\<lambda>label_row.
     and_then (add16 (rc_x inner) gutter) (\<lambda>x0.
       let end_label = fmt_seconds (snd xsp) @ ''s''
       in Inr [SetString (rc_x inner) y_top (pad_label upper) None,
               SetString (rc_x inner) y_bottom (pad_label lower) None,
               SetString x0 label_row (utext (fmt_seconds (fst xsp) @ ''s'')) None,
               SetString (end_label_x inner end_label) label_row (utext end_label) None]))))))"

definition draw_axes :: "rect \<Rightarrow> nat \<Rightarrow> seq_plot \<Rightarrow> panic + draw list" where
  "draw_axes inner gutter p =
     draw_labels inner gutter (sp_height p) (sp_x_span p) (utext (fmt_seq (sp_max_rel p))) (utext ''0'')"

text \<open>\<^verbatim>\<open>i64::try_from(max_bytes).unwrap_or(i64::MAX)\<close>.\<close>

definition i64_of :: "u64 \<Rightarrow> i64" where
  "i64_of n = (if uint n < 2 ^ 63 then uint n else 2 ^ 63 - 1)"

definition draw_inflight_axes :: "rect \<Rightarrow> nat \<Rightarrow> peak_plot \<Rightarrow> panic + draw list" where
  "draw_inflight_axes inner gutter p =
     draw_labels inner gutter (pp_height p) (pp_x_span p) (utext (fmt_seq (i64_of (pp_max p)))) (utext ''0'')"

definition draw_rtt_axes :: "rect \<Rightarrow> nat \<Rightarrow> peak_plot \<Rightarrow> panic + draw list" where
  "draw_rtt_axes inner gutter p =
     draw_labels inner gutter (pp_height p) (pp_x_span p) (fmt_rtt (pp_max p)) (fmt_rtt 0)"

definition draw_throughput_axes :: "rect \<Rightarrow> nat \<Rightarrow> peak_plot \<Rightarrow> nat \<Rightarrow> panic + draw list" where
  "draw_throughput_axes inner gutter p d =
     draw_labels inner gutter (pp_height p) (pp_x_span p)
       (utext (fmt_rate_scaled (pp_max p) d)) (utext (fmt_rate_scaled 0 d))"

text \<open>
  A body computes the plot area, projects, and draws legend, plot and axes, or asks for a wider
  terminal.
\<close>

definition plot_area :: "rect \<Rightarrow> (nat \<Rightarrow> nat \<Rightarrow> panic + 'p option) \<Rightarrow> ('p \<Rightarrow> panic + draw list) \<Rightarrow> panic + draw list" where
  "plot_area inner project draw_it =
     and_then (sub16 (rc_width inner) GUTTER) (\<lambda>plot_w.
     and_then (sub16 (rc_height inner) 2) (\<lambda>plot_h.
     and_then (project plot_w plot_h) (\<lambda>r.
       case r of
         None \<Rightarrow> Inr [RenderParagraph widen_message None inner]
       | Some p \<Rightarrow> draw_it p)))"

definition render_seq_body :: "app \<Rightarrow> rect \<Rightarrow> focus_conn \<Rightarrow> panic + draw list" where
  "render_seq_body self inner fc =
     plot_area inner (seq_project (fc_series fc) (fc_focus_dir fc) (fc_x_span fc) (app_cursor self))
       (\<lambda>p. then_draw (Inr (draw_legend inner)) (then_draw (draw_plot inner GUTTER p) (draw_axes inner GUTTER p)))"

definition render_inflight_body :: "app \<Rightarrow> rect \<Rightarrow> focus_conn \<Rightarrow> panic + draw list" where
  "render_inflight_body self inner fc =
     plot_area inner (inflight_project (fc_inflight fc) [] (fc_focus_dir fc) (fc_x_span fc) (app_cursor self))
       (\<lambda>p. then_draw (Inr (draw_inflight_legend inner))
         (then_draw (draw_inflight_plot inner GUTTER p) (draw_inflight_axes inner GUTTER p)))"

definition render_rtt_body :: "app \<Rightarrow> rect \<Rightarrow> focus_conn \<Rightarrow> panic + draw list" where
  "render_rtt_body self inner fc =
     plot_area inner (rtt_project (fc_rtt fc) [] (fc_focus_dir fc) (fc_x_span fc) (app_cursor self))
       (\<lambda>p. then_draw (Inr (draw_rtt_legend inner))
         (then_draw (draw_rtt_plot inner GUTTER p) (draw_rtt_axes inner GUTTER p)))"

definition render_throughput_body :: "app \<Rightarrow> rect \<Rightarrow> focus_conn \<Rightarrow> panic + draw list" where
  "render_throughput_body self inner fc =
     plot_area inner (throughput_project (fc_throughput fc) (fc_focus_dir fc) (fc_x_span fc) (app_cursor self))
       (\<lambda>p. let (unit, d) = rate_unit (pp_max p)
            in then_draw (Inr (draw_throughput_legend inner unit))
                 (then_draw (draw_throughput_plot inner GUTTER p) (draw_throughput_axes inner GUTTER p d)))"

definition render_detail :: "toolkit \<Rightarrow> app \<Rightarrow> rect \<Rightarrow> panic + draw list" where
  "render_detail tk self area =
     (case app_focus self of
        None \<Rightarrow> Inr [RenderParagraph (utext ''no connection selected'')
                       (Some \<lparr>bk_title = utext ''DETAIL'', bk_right_title = None\<rparr>) area]
      | Some fc \<Rightarrow>
          (let title = utext (''DETAIL '' @ endpoint_fmt (fc_origin fc) @ '' '') @ [0x2192]
                 @ utext ('' '' @ peer_label (fc_responder fc) (fc_responder_host fc));
               block = \<lparr>bk_title = title, bk_right_title = None\<rparr>;
               inner = tk_inner tk block area
           in then_draw (Inr [RenderBlock block area])
                (if rc_height inner < 3 \<or> rc_width inner \<le> GUTTER
                 then Inr [RenderParagraph widen_message None inner]
                 else case app_detail_view self of
                   TimeSequence \<Rightarrow> render_seq_body self inner fc
                 | InFlight \<Rightarrow> render_inflight_body self inner fc
                 | Rtt \<Rightarrow> render_rtt_body self inner fc
                 | ThroughputView \<Rightarrow> render_throughput_body self inner fc)))"

section \<open>A frame\<close>

definition render :: "toolkit \<Rightarrow> lowercase \<Rightarrow> app \<Rightarrow> rect \<Rightarrow> panic + draw list" where
  "render tk lc self area =
     (let (main, footer) = tk_split tk Vertical (MinC 1, LengthC 1) area
      in then_draw
           (if detail_open self then
              let (left, right) = tk_split tk Horizontal (PercentageC 50, PercentageC 50) main
              in then_draw (render_main lc self left) (render_detail tk self right)
            else render_main lc self main)
           (Inr (render_footer self footer)))"

end
