(* ===== verification/Plot_Properties.thy ===== *)
theory Plot_Properties
  imports Plot
begin

text \<open>
  What the plot projections show. A grid is read as a map from cells; the loops over the samples,
  the cursor column and the marks are characterised once, on any grid, and each projection is a
  composition of them. The contract the detail pane relies on is the locale \<open>plot_contract\<close>,
  interpreted for the four projections.
\<close>

section \<open>Grids\<close>

definition in_grid :: "nat \<Rightarrow> nat \<Rightarrow> nat \<times> nat \<Rightarrow> bool" where
  "in_grid w h cr \<longleftrightarrow> fst cr < w \<and> snd cr < h"

lemma cell_idx_less: "col < w \<Longrightarrow> row < h \<Longrightarrow> cell_idx w col row < w * h"
proof -
  assume "col < w" "row < h"
  then have "row * w + col < Suc row * w" by simp
  also have "\<dots> \<le> h * w" using \<open>row < h\<close> by (intro mult_le_mono1) simp
  finally show ?thesis by (simp add: cell_idx_def mult.commute)
qed

lemma cell_idx_inject:
  assumes "c < w" "c' < w"
  shows "cell_idx w c r = cell_idx w c' r' \<longleftrightarrow> c = c' \<and> r = r'"
proof
  assume "cell_idx w c r = cell_idx w c' r'"
  then have e: "r * w + c = r' * w + c'" by (simp add: cell_idx_def)
  have "(r * w + c) div w = r" "(r' * w + c') div w = r'" using assms by simp_all
  with e have "r = r'" by metis
  with e show "c = c' \<and> r = r'" by simp
qed simp

text \<open>The grid as a map from cells.\<close>

definition cell :: "nat \<Rightarrow> 'm option list \<Rightarrow> nat \<Rightarrow> nat \<Rightarrow> 'm option" where
  "cell w grid col row = grid ! cell_idx w col row"

lemma cell_update:
  assumes "c < w" "c' < w" "r < h" "length grid = w * h"
  shows "cell w (grid[cell_idx w c r := x]) c' r' = (if c' = c \<and> r' = r then x else cell w grid c' r')"
  using assms cell_idx_less [of c w r h] cell_idx_inject [of c' w c r' r]
  by (auto simp: cell_def nth_list_update)

lemma grid_get_ok: "length grid = w * h \<Longrightarrow> c < w \<Longrightarrow> r < h \<Longrightarrow> grid_get grid (cell_idx w c r) = Inr (cell w grid c r)"
  by (simp add: grid_get_def cell_def cell_idx_less)

lemma grid_set_ok:
  "length grid = w * h \<Longrightarrow> c < w \<Longrightarrow> r < h \<Longrightarrow> grid_set grid (cell_idx w c r) x = Inr (grid[cell_idx w c r := x])"
  by (simp add: grid_set_def cell_idx_less)

text \<open>Drawing the cursor fills the empty cells of its column and touches nothing else.\<close>

lemma draw_cursor_ok:
  assumes "length grid = w * h" and cc: "cc < w"
  shows "\<exists>g. draw_cursor w h cc mk grid = Inr g \<and> length g = w * h
    \<and> (\<forall>c<w. \<forall>r<h. cell w g c r =
        (if c = cc \<and> cell w grid c r = None then Some (mk r) else cell w grid c r))"
proof -
  let ?step = "\<lambda>g row. let i = cell_idx w cc row
       in and_then (grid_get g i) (\<lambda>cell. if cell = None then grid_set g i (Some (mk row)) else Inr g)"
  have "n \<le> h \<Longrightarrow> \<exists>g. try_fold ?step grid [0..<n] = Inr g \<and> length g = w * h
    \<and> (\<forall>c<w. \<forall>r<h. cell w g c r =
        (if c = cc \<and> r < n \<and> cell w grid c r = None then Some (mk r) else cell w grid c r))" for n
  proof (induction n)
    case 0
    then show ?case using assms(1) by simp
  next
    case (Suc n)
    then obtain g where g: "try_fold ?step grid [0..<n] = Inr g" "length g = w * h"
      "\<forall>c<w. \<forall>r<h. cell w g c r = (if c = cc \<and> r < n \<and> cell w grid c r = None then Some (mk r) else cell w grid c r)"
      by auto
    have n: "n < h" using Suc.prems by simp
    have here: "cell w g cc n = cell w grid cc n" using g(3) cc n by simp
    have get: "grid_get g (cell_idx w cc n) = Inr (cell w grid cc n)"
      using grid_get_ok [OF g(2) cc n] here by simp
    show ?case
    proof (cases "cell w grid cc n")
      case None
      then have "try_fold ?step grid [0..<Suc n] = Inr (g[cell_idx w cc n := Some (mk n)])"
        using get grid_set_ok [OF g(2) cc n] by (simp add: try_fold_append g(1))
      then show ?thesis using g None cc n by (auto simp: cell_update [where h = h] less_Suc_eq)
    next
      case (Some m)
      then have "try_fold ?step grid [0..<Suc n] = Inr g" using get by (simp add: try_fold_append g(1))
      then show ?thesis using g Some cc n by (auto simp: less_Suc_eq)
    qed
  qed
  from this [of h] show ?thesis by (auto simp: draw_cursor_def)
qed

text \<open>Collecting reads every cell once, in row order.\<close>

lemma collect_marks_ok:
  assumes "length grid = w * h"
  shows "collect_marks w h f grid =
    Inr (List.map_filter (\<lambda>(row, col). map_option (f col row) (cell w grid col row)) (cells w h))"
proof -
  let ?step = "\<lambda>marks (row, col). and_then (grid_get grid (cell_idx w col row))
         (\<lambda>cell. case cell of None \<Rightarrow> Inr marks | Some m \<Rightarrow> Inr (marks @ [f col row m]))"
  have "\<forall>(row, col)\<in>set cs. row < h \<and> col < w \<Longrightarrow>
      try_fold ?step acc cs = Inr (acc @ List.map_filter (\<lambda>(row, col). map_option (f col row) (cell w grid col row)) cs)"
    for acc cs
  proof (induction cs arbitrary: acc)
    case Nil
    then show ?case by simp
  next
    case (Cons rc cs)
    obtain r c where rc: "rc = (r, c)" by (cases rc)
    then show ?case using Cons grid_get_ok [OF assms, of c r]
      by (cases "cell w grid c r") auto
  qed
  from this [of "cells w h" "[]"] show ?thesis by (auto simp: collect_marks_def cells_def)
qed

lemma clamp_cell_less: "0 < n \<Longrightarrow> clamp_cell c n < n"
  by (auto simp: clamp_cell_def)

lemma col_of_less: "0 < w \<Longrightarrow> col_of t t0 s w < w"
  by (simp add: col_of_def clamp_cell_less)

lemma row_of_less: "0 < h \<Longrightarrow> row_of y m h < h"
  by (auto simp: row_of_def Let_def)

lemma geom_col_less: "0 < g_width g \<Longrightarrow> geom_col g t < g_width g"
  by (simp add: geom_col_def clamp_cell_less)

lemma geom_row_less: "0 < g_height g \<Longrightarrow> geom_row g v < g_height g"
  by (simp add: geom_row_def clamp_cell_less)

section \<open>The time/sequence plot\<close>

text \<open>What a cell must show: the most salient kind among the samples that fall into it.\<close>

definition shows_salient :: "(seq_sample \<Rightarrow> nat \<times> nat) \<Rightarrow> seq_sample list \<Rightarrow> nat \<times> nat \<Rightarrow> (nat \<times> glyph) option \<Rightarrow> bool" where
  "shows_salient cellf ss cr x \<longleftrightarrow>
     (case x of
        None \<Rightarrow> \<forall>s\<in>set ss. cellf s \<noteq> cr
      | Some pg \<Rightarrow>
          (\<exists>s\<in>set ss. cellf s = cr \<and> kind_glyph (sq_kind s) = pg)
          \<and> (\<forall>s\<in>set ss. cellf s = cr \<longrightarrow> fst (kind_glyph (sq_kind s)) \<le> fst pg))"

lemma shows_salient_other:
  "cellf s \<noteq> cr \<Longrightarrow> shows_salient cellf (ss @ [s]) cr x = shows_salient cellf ss cr x"
  by (auto simp: shows_salient_def split: option.splits)

lemma seq_put_fold:
  assumes "\<forall>s\<in>set ss. in_grid w h (cellf s)"
  shows "\<exists>g. try_fold (seq_put (\<lambda>s. cell_idx w (fst (cellf s)) (snd (cellf s)))) (replicate (w * h) None) ss = Inr g
    \<and> length g = w * h \<and> (\<forall>c<w. \<forall>r<h. shows_salient cellf ss (c, r) (cell w g c r))"
  using assms
proof (induction ss rule: rev_induct)
  case Nil
  then show ?case by (auto simp: shows_salient_def cell_def cell_idx_less)
next
  case (snoc s ss)
  let ?at = "\<lambda>s. cell_idx w (fst (cellf s)) (snd (cellf s))"
  obtain g where g: "try_fold (seq_put ?at) (replicate (w * h) None) ss = Inr g" "length g = w * h"
      "\<forall>c<w. \<forall>r<h. shows_salient cellf ss (c, r) (cell w g c r)"
    using snoc by auto
  obtain c r where cr: "cellf s = (c, r)" by (cases "cellf s")
  then have lt: "c < w" "r < h" using snoc.prems by (simp_all add: in_grid_def)
  obtain prio gl where k: "kind_glyph (sq_kind s) = (prio, gl)" by (cases "kind_glyph (sq_kind s)")
  have here: "shows_salient cellf ss (c, r) (cell w g c r)" using g(3) lt by blast
  have get: "grid_get g (?at s) = Inr (cell w g c r)" using grid_get_ok [OF g(2) lt] cr by simp
  have set: "grid_set g (?at s) (Some (prio, gl)) = Inr (g[cell_idx w c r := Some (prio, gl)])"
    using grid_set_ok [OF g(2) lt] cr by simp
  define g' where "g' = (if \<exists>p q. cell w g c r = Some (p, q) \<and> prio \<le> p then g
    else g[cell_idx w c r := Some (prio, gl)])"
  have put: "seq_put ?at g s = Inr g'"
    using get set by (auto simp: seq_put_def k g'_def split: option.splits)
  have "cell w g' c' r' = (if c' = c \<and> r' = r then cell w g' c r else cell w g c' r')"
    if "c' < w" "r' < h" for c' r'
    using cell_update [OF lt(1) that(1) lt(2) g(2)] by (auto simp: g'_def)
  moreover have "shows_salient cellf (ss @ [s]) (c, r) (cell w g' c r)"
  proof (cases "\<exists>p q. cell w g c r = Some (p, q) \<and> prio \<le> p")
    case True
    then show ?thesis using here by (auto simp: g'_def shows_salient_def cr k)
  next
    case False
    then have "g' = g[cell_idx w c r := Some (prio, gl)]" unfolding g'_def by (rule if_not_P)
    then have "cell w g' c r = Some (prio, gl)" using cell_update [OF lt(1,1,2) g(2)] by simp
    with False here show ?thesis
      by (force simp: shows_salient_def cr k split: option.splits)
  qed
  ultimately have "\<forall>c<w. \<forall>r<h. shows_salient cellf (ss @ [s]) (c, r) (cell w g' c r)"
    using g(3) by (metis (no_types, lifting) Pair_inject cr shows_salient_other)
  moreover have "length g' = w * h" using g(2) by (simp add: g'_def)
  ultimately show ?case using put by (auto simp: try_fold_append g(1))
qed

section \<open>Peak plots\<close>

text \<open>The highest row among the samples of a column.\<close>

definition peak_of :: "('s \<Rightarrow> nat) \<Rightarrow> ('s \<Rightarrow> nat) \<Rightarrow> 's list \<Rightarrow> nat \<Rightarrow> nat option" where
  "peak_of colf rowf ss c =
     (let rows = map rowf (filter (\<lambda>s. colf s = c) ss) in if rows = [] then None else Some (Max (set rows)))"

lemma peak_of_snoc:
  "peak_of colf rowf (ss @ [s]) c =
     (if colf s \<noteq> c then peak_of colf rowf ss c
      else Some (case peak_of colf rowf ss c of None \<Rightarrow> rowf s | Some r \<Rightarrow> max r (rowf s)))"
proof -
  have "Max (insert x (set xs)) = (if xs = [] then x else max (Max (set xs)) x)" for x :: nat and xs
    by (simp add: max.commute)
  then show ?thesis by (auto simp: peak_of_def Let_def filter_empty_conv simp flip: set_map)
qed

lemma peak_put_fold:
  assumes "0 < g_width g"
  shows "\<exists>p. try_fold (peak_put g time val) (replicate (g_width g) None) ss = Inr p
    \<and> length p = g_width g
    \<and> (\<forall>c<g_width g. p ! c = peak_of (\<lambda>s. geom_col g (time s)) (\<lambda>s. geom_row g (val s)) ss c)"
proof (induction ss rule: rev_induct)
  case Nil
  then show ?case by (simp add: peak_of_def)
next
  case (snoc s ss)
  let ?col = "\<lambda>s. geom_col g (time s)" and ?row = "\<lambda>s. geom_row g (val s)"
  obtain p where p: "try_fold (peak_put g time val) (replicate (g_width g) None) ss = Inr p"
      "length p = g_width g" "\<forall>c<g_width g. p ! c = peak_of ?col ?row ss c"
    using snoc by blast
  have lt: "?col s < length p" using p(2) geom_col_less [OF assms] by simp
  define p' where "p' = p[?col s := Some (case p ! ?col s of None \<Rightarrow> ?row s | Some r \<Rightarrow> max r (?row s))]"
  have "peak_put g time val p s = Inr p'"
  proof (cases "p ! ?col s")
    case None
    then show ?thesis using lt by (simp add: peak_put_def grid_get_def grid_set_def p'_def Let_def)
  next
    case (Some r)
    then have "p = p[?col s := Some r]" using lt by (metis list_update_id)
    with Some lt show ?thesis
      by (auto simp: peak_put_def grid_get_def grid_set_def p'_def Let_def max_def)
  qed
  moreover have "length p' = g_width g" by (simp add: p'_def p(2))
  moreover have "\<forall>c<g_width g. p' ! c = peak_of ?col ?row (ss @ [s]) c"
    using p(2,3) lt unfolding p'_def peak_of_snoc by (auto simp: nth_list_update)
  ultimately show ?case by (auto simp: try_fold_append p(1))
qed

lemma geom_idx_cell: "geom_idx g c r = cell_idx (g_width g) c r"
  by (simp add: geom_idx_def cell_idx_def)

text \<open>One mark per column with a peak, at the peak, and nothing else is touched.\<close>

lemma mark_put_fold:
  assumes "length grid = w * h" and "g_width g = w" and "w \<le> 65536" and "length p \<le> w"
    and "\<forall>c<length p. \<forall>r. p ! c = Some r \<longrightarrow> r < h"
  shows "\<exists>g'. try_fold (mark_put g tag gl) grid (enumerate 0 p) = Inr g' \<and> length g' = w * h
    \<and> (\<forall>c<w. \<forall>r<h. cell w g' c r =
        (if c < length p \<and> p ! c = Some r
         then Some \<lparr>sm_col = c, sm_row = r, sm_glyph = gl, sm_series = tag\<rparr> else cell w grid c r))"
  using assms(4,5)
proof (induction p rule: rev_induct)
  case Nil
  then show ?case using assms(1) by simp
next
  case (snoc x p)
  have "\<forall>c<length p. \<forall>r. p ! c = Some r \<longrightarrow> r < h"
    using snoc.prems(2) by (metis length_append_singleton less_SucI nth_append)
  with snoc obtain g1 where g1: "try_fold (mark_put g tag gl) grid (enumerate 0 p) = Inr g1" "length g1 = w * h"
      "\<forall>c<w. \<forall>r<h. cell w g1 c r =
        (if c < length p \<and> p ! c = Some r
         then Some \<lparr>sm_col = c, sm_row = r, sm_glyph = gl, sm_series = tag\<rparr> else cell w grid c r)"
    by auto
  have c: "length p < w" using snoc.prems(1) by simp
  show ?case
  proof (cases x)
    case None
    then have "try_fold (mark_put g tag gl) grid (enumerate 0 (p @ [x])) = Inr g1"
      by (simp add: enumerate_append_eq try_fold_append g1(1) mark_put_def)
    then show ?thesis using g1 None by (auto simp: nth_append less_Suc_eq)
  next
    case (Some r)
    have r: "r < h" using snoc.prems(2) Some by (metis length_append_singleton lessI nth_append_length)
    let ?m = "\<lparr>sm_col = length p, sm_row = r, sm_glyph = gl, sm_series = tag\<rparr>"
    have "length p < 65536" using c assms(3) by simp
    then have "try_fold (mark_put g tag gl) grid (enumerate 0 (p @ [x])) = Inr (g1[cell_idx w (length p) r := Some ?m])"
      using grid_set_ok [OF g1(2) c r]
      by (simp add: enumerate_append_eq try_fold_append g1(1) mark_put_def Some geom_idx_cell assms(2) Let_def)
    moreover have "cell w (g1[cell_idx w (length p) r := Some ?m]) c' r' =
        (if c' < length (p @ [x]) \<and> (p @ [x]) ! c' = Some r'
         then Some \<lparr>sm_col = c', sm_row = r', sm_glyph = gl, sm_series = tag\<rparr> else cell w grid c' r')"
      if "c' < w" "r' < h" for c' r'
      using cell_update [OF c that(1) r g1(2)] g1(3) that Some by (auto simp: nth_append less_Suc_eq)
    ultimately show ?thesis using g1(2) by auto
  qed
qed

lemma peak_of_less:
  assumes "peak_of colf rowf ss c = Some r" and "\<And>s. rowf s < h"
  shows "r < h"
proof -
  let ?rows = "map rowf (filter (\<lambda>s. colf s = c) ss)"
  have "?rows \<noteq> []" "r = Max (set ?rows)" using assms(1) by (auto simp: peak_of_def Let_def split: if_splits)
  then have "r \<in> set ?rows" by (metis List.finite_set Max_in set_empty)
  then show ?thesis using assms(2) by auto
qed

lemma place_ok:
  assumes "length grid = w * h" and "g_width g = w" and "g_height g = h" and "0 < w" and "0 < h" and "w \<le> 65536"
    and ss: "ss = filter (\<lambda>s. dir s = g_focus g \<and> time s \<le> g_cursor g) samples"
  shows "\<exists>g'. place g time dir samples tag gl val grid = Inr g' \<and> length g' = w * h
    \<and> (\<forall>c<w. \<forall>r<h. cell w g' c r =
        (if peak_of (\<lambda>s. geom_col g (time s)) (\<lambda>s. geom_row g (val s)) ss c = Some r
         then Some \<lparr>sm_col = c, sm_row = r, sm_glyph = gl, sm_series = tag\<rparr> else cell w grid c r))"
proof -
  let ?peak = "peak_of (\<lambda>s. geom_col g (time s)) (\<lambda>s. geom_row g (val s)) ss"
  obtain p where p: "try_fold (peak_put g time val) (replicate (g_width g) None) ss = Inr p"
      "length p = w" "\<forall>c<w. p ! c = ?peak c"
    using peak_put_fold [of g time val ss] assms(2,4) by auto
  have "\<forall>c<length p. \<forall>r. p ! c = Some r \<longrightarrow> r < h"
    using p(2,3) geom_row_less [of g] assms(3,5)
    by (metis (no_types, lifting) peak_of_less)
  from mark_put_fold [OF assms(1,2,6) _ this, of tag gl] p obtain g' where
    "try_fold (mark_put g tag gl) grid (enumerate 0 p) = Inr g'" "length g' = w * h"
    "\<forall>c<w. \<forall>r<h. cell w g' c r =
        (if c < length p \<and> p ! c = Some r
         then Some \<lparr>sm_col = c, sm_row = r, sm_glyph = gl, sm_series = tag\<rparr> else cell w grid c r)" by auto
  then show ?thesis using p by (simp add: place_def ss)
qed

section \<open>Reading a plot\<close>

lemma map_filter_keyed:
  assumes "distinct xs" and "inj_on g (set xs)" and "\<forall>x\<in>set xs. \<forall>k. f x = Some k \<longrightarrow> key k = g x"
  shows "distinct (map key (List.map_filter f xs))
    \<and> (\<forall>x\<in>set xs. find (\<lambda>k. key k = g x) (List.map_filter f xs) = f x)
    \<and> (\<forall>k\<in>set (List.map_filter f xs). \<exists>x\<in>set xs. f x = Some k)"
  using assms
proof (induction xs)
  case Nil
  then show ?case by simp
next
  case (Cons x xs)
  have ih: "distinct (map key (List.map_filter f xs))"
    "\<forall>x\<in>set xs. find (\<lambda>k. key k = g x) (List.map_filter f xs) = f x"
    "\<forall>k\<in>set (List.map_filter f xs). \<exists>x\<in>set xs. f x = Some k"
    using Cons by auto
  have other: "key k \<noteq> g x" if "k \<in> set (List.map_filter f xs)" for k
    using ih(3) that Cons.prems by (metis distinct.simps(2) inj_on_def list.set_intros(1,2))
  then have none: "find (\<lambda>k. key k = g x) (List.map_filter f xs) = None"
    by (auto simp: find_None_iff)
  have "g y \<noteq> g x" if "y \<in> set xs" for y
    using that Cons.prems(1,2) by (metis distinct.simps(2) inj_on_def list.set_intros(1,2))
  then have ne: "g x \<noteq> g y" if "y \<in> set xs" for y using that by metis
  show ?case using ih none other Cons.prems(3)
    by (cases "f x") (auto simp: image_iff dest: ne)
qed

text \<open>
  The marks collected from a grid: at most one per cell, inside the rectangle, and looking a
  cell up gives what the grid holds there.
\<close>

lemma collected_marks:
  assumes "length grid = w * h"
    and "\<forall>c<w. \<forall>r<h. \<forall>m. cell w grid c r = Some m \<longrightarrow> pos (f c r m) = (c, r)"
  shows "\<exists>ms. collect_marks w h f grid = Inr ms \<and> distinct (map pos ms) \<and> list_all (in_grid w h \<circ> pos) ms
    \<and> (\<forall>c<w. \<forall>r<h. find (\<lambda>k. pos k = (c, r)) ms = map_option (f c r) (cell w grid c r))"
proof -
  let ?f = "\<lambda>(row, col). map_option (f col row) (cell w grid col row)"
  let ?ms = "List.map_filter ?f (cells w h)"
  have set: "set (cells w h) = {0..<h} \<times> {0..<w}" by (simp add: cells_def)
  have key: "\<forall>x\<in>set (cells w h). \<forall>k. ?f x = Some k \<longrightarrow> pos k = (snd x, fst x)"
    using assms(2) by (auto simp: set)
  have inj: "inj_on (\<lambda>x. (snd x, fst x)) (set (cells w h))" by (auto intro!: inj_onI)
  have dist: "distinct (cells w h)" by (simp add: cells_def distinct_product)
  note m = map_filter_keyed [OF dist inj key]
  have "list_all (in_grid w h \<circ> pos) ?ms"
    unfolding list_all_iff
  proof
    fix k assume "k \<in> set ?ms"
    with m obtain x where "x \<in> set (cells w h)" "?f x = Some k" by blast
    with key have "pos k = (snd x, fst x)" "fst x < h" "snd x < w" by (auto simp: set)
    then show "(in_grid w h \<circ> pos) k" by (simp add: in_grid_def)
  qed
  moreover have "\<forall>c<w. \<forall>r<h. find (\<lambda>k. pos k = (c, r)) ?ms = map_option (f c r) (cell w grid c r)"
  proof (intro allI impI)
    fix c r assume "c < w" "r < h"
    then have "(r, c) \<in> set (cells w h)" by (simp add: set)
    with m show "find (\<lambda>k. pos k = (c, r)) ?ms = map_option (f c r) (cell w grid c r)" by fastforce
  qed
  ultimately show ?thesis using m collect_marks_ok [OF assms(1)] by blast
qed


section \<open>What the plots show\<close>

text \<open>The glyph a cell must show for the kinds of the samples that fall into it.\<close>

definition salient_glyph :: "seq_kind list \<Rightarrow> glyph option" where
  "salient_glyph kinds =
     (if kinds = [] then None
      else if Data True True \<in> set kinds \<or> Data True False \<in> set kinds then Some RETRANS_GLYPH
      else if Sack \<in> set kinds then Some SACK_GLYPH
      else if Data False True \<in> set kinds then Some OOO_GLYPH
      else Some DATA_GLYPH)"

lemma kind_glyph_cases:
  "kind_glyph k = (3, RETRANS_GLYPH) \<and> (k = Data True True \<or> k = Data True False)
   \<or> kind_glyph k = (2, SACK_GLYPH) \<and> k = Sack
   \<or> kind_glyph k = (1, OOO_GLYPH) \<and> k = Data False True
   \<or> kind_glyph k = (0, DATA_GLYPH) \<and> k = Data False False"
  by (cases k rule: kind_glyph.cases) auto

lemma shows_salient_glyph:
  assumes "shows_salient cellf ss cr x"
  shows "map_option snd x = salient_glyph (map sq_kind (filter (\<lambda>s. cellf s = cr) ss))"
proof (cases x)
  case None
  then have "filter (\<lambda>s. cellf s = cr) ss = []" using assms by (simp add: shows_salient_def filter_empty_conv)
  then show ?thesis using None by (simp add: salient_glyph_def)
next
  case (Some pg)
  define ks where "ks = map sq_kind (filter (\<lambda>s. cellf s = cr) ss)"
  have le: "fst (kind_glyph k) \<le> fst pg" if "k \<in> set ks" for k
    using assms Some that by (auto simp: shows_salient_def ks_def)
  obtain k where k: "k \<in> set ks" "kind_glyph k = pg" using assms Some by (auto simp: shows_salient_def ks_def)
  then have ne: "ks \<noteq> []" by auto
  have "Some (snd pg) = salient_glyph ks"
    using kind_glyph_cases [of k] k ne le [of "Data True True"] le [of "Data True False"] le [of Sack]
      le [of "Data False True"]
    by (elim disjE conjE exE) (auto simp: salient_glyph_def)
  then show ?thesis by (simp add: Some ks_def)
qed

abbreviation mark_pos :: "mark \<Rightarrow> nat \<times> nat" where
  "mark_pos m \<equiv> (mk_col m, mk_row m)"

abbreviation smark_pos :: "smark \<Rightarrow> nat \<times> nat" where
  "smark_pos m \<equiv> (sm_col m, sm_row m)"

definition seq_revealed :: "seq_sample list \<Rightarrow> sample_dir \<Rightarrow> nanos \<Rightarrow> seq_sample list" where
  "seq_revealed series focus cursor = filter (\<lambda>s. sq_dir s = focus \<and> sq_t s \<le> cursor) series"

lemma seq_project_ok:
  assumes "MIN_W \<le> w" and "MIN_H \<le> h" and "fst xsp \<le> snd xsp"
  shows "\<exists>p. seq_project series focus xsp cursor w h = Inr (Some p)
    \<and> sp_cursor_col p < w \<and> distinct (map mark_pos (sp_marks p)) \<and> list_all (in_grid w h \<circ> mark_pos) (sp_marks p)
    \<and> (\<forall>c<w. \<forall>r<h. map_option mk_glyph (find (\<lambda>m. mark_pos m = (c, r)) (sp_marks p)) =
         (case salient_glyph (map sq_kind (filter (\<lambda>s. seq_cell series focus xsp w h s = (c, r)) (seq_revealed series focus cursor))) of
            Some g \<Rightarrow> Some g
          | None \<Rightarrow> if c = sp_cursor_col p then Some CURSOR_GLYPH else None))"
proof -
  let ?cell = "seq_cell series focus xsp w h" and ?ss = "seq_revealed series focus cursor"
  have pos: "0 < w" "0 < h" using assms by (simp_all add: MIN_W_def MIN_H_def)
  have "in_grid w h (?cell s)" for s by (simp add: seq_cell_def in_grid_def col_of_less row_of_less pos)
  then obtain g1 where g1: "try_fold (seq_put (\<lambda>s. cell_idx w (fst (?cell s)) (snd (?cell s)))) (replicate (w * h) None) ?ss = Inr g1"
      "length g1 = w * h" "\<forall>c<w. \<forall>r<h. shows_salient ?cell ?ss (c, r) (cell w g1 c r)"
    using seq_put_fold [of ?ss w h ?cell] by auto
  define ct where "ct = max (fst xsp) (min (snd xsp) cursor)"
  define cc where "cc = col_of ct (fst xsp) (sat_sub (snd xsp) (fst xsp)) w"
  have cc: "cc < w" by (simp add: cc_def col_of_less pos)
  from draw_cursor_ok [OF g1(2) cc, of "\<lambda>row. (0, CURSOR_GLYPH)"] obtain g2 where
    g2: "draw_cursor w h cc (\<lambda>row. (0, CURSOR_GLYPH)) g1 = Inr g2" "length g2 = w * h"
      "\<forall>c<w. \<forall>r<h. cell w g2 c r = (if c = cc \<and> cell w g1 c r = None then Some (0, CURSOR_GLYPH) else cell w g1 c r)"
    by blast
  let ?f = "\<lambda>col row m. \<lparr>mk_col = col, mk_row = row, mk_glyph = snd (m :: nat \<times> glyph)\<rparr>"
  from collected_marks [OF g2(2), of mark_pos ?f] obtain ms where
    ms: "collect_marks w h ?f g2 = Inr ms" "distinct (map mark_pos ms)" "list_all (in_grid w h \<circ> mark_pos) ms"
      "\<forall>c<w. \<forall>r<h. find (\<lambda>k. mark_pos k = (c, r)) ms = map_option (?f c r) (cell w g2 c r)"
    by auto
  let ?p = "\<lparr>sp_width = w, sp_height = h, sp_max_rel = seq_max_rel series focus,
             sp_x_span = xsp, sp_cursor_col = cc, sp_marks = ms\<rparr>"
  have "seq_project series focus xsp cursor w h = Inr (Some ?p)"
    using assms g1(1) g2(1) ms(1)
    by (simp add: seq_project_def Let_def seq_revealed_def clamp_ok case_prod_beta flip: ct_def cc_def)
  moreover have "map_option mk_glyph (find (\<lambda>m. mark_pos m = (c, r)) ms) =
         (case salient_glyph (map sq_kind (filter (\<lambda>s. ?cell s = (c, r)) ?ss)) of
            Some g \<Rightarrow> Some g | None \<Rightarrow> if c = cc then Some CURSOR_GLYPH else None)"
    if "c < w" "r < h" for c r
  proof -
    have sg: "salient_glyph (map sq_kind (filter (\<lambda>s. ?cell s = (c, r)) ?ss)) = map_option snd (cell w g1 c r)"
      using shows_salient_glyph [of ?cell ?ss "(c, r)"] g1(3) that by simp
    have "find (\<lambda>m. mark_pos m = (c, r)) ms = map_option (?f c r) (cell w g2 c r)" using ms(4) that by blast
    then show ?thesis unfolding sg using g2(3) that by (cases "cell w g1 c r") auto
  qed
  ultimately show ?thesis using ms cc by auto
qed


text \<open>
  A peak plot is drawn in layers, later ones over earlier ones. A layer puts one mark in every
  column that has a revealed sample, at the row of the largest value.
\<close>

definition layer_peak :: "geom \<Rightarrow> ('s \<Rightarrow> nanos) \<Rightarrow> ('s \<Rightarrow> sample_dir) \<Rightarrow> ('s \<Rightarrow> u64) \<Rightarrow> 's list \<Rightarrow> nat \<Rightarrow> nat option" where
  "layer_peak g time dir val samples =
     peak_of (\<lambda>s. geom_col g (time s)) (\<lambda>s. geom_row g (val s))
       (filter (\<lambda>s. dir s = g_focus g \<and> time s \<le> g_cursor g) samples)"

definition layered :: "((nat \<Rightarrow> nat option) \<times> series_tag \<times> glyph) list \<Rightarrow> nat \<Rightarrow> nat \<Rightarrow> smark option" where
  "layered layers c r =
     fold (\<lambda>(peak, tag, gl) m. if peak c = Some r
        then Some \<lparr>sm_col = c, sm_row = r, sm_glyph = gl, sm_series = tag\<rparr> else m) layers None"

definition holds_layers :: "nat \<Rightarrow> nat \<Rightarrow> smark option list \<Rightarrow> ((nat \<Rightarrow> nat option) \<times> series_tag \<times> glyph) list \<Rightarrow> bool" where
  "holds_layers w h grid layers \<longleftrightarrow>
     length grid = w * h \<and> (\<forall>c<w. \<forall>r<h. cell w grid c r = layered layers c r)"

lemma holds_layers_empty: "holds_layers w h (replicate (w * h) None) []"
  by (simp add: holds_layers_def layered_def cell_def cell_idx_less)

lemma layered_snoc:
  "layered (layers @ [(peak, tag, gl)]) c r =
     (if peak c = Some r then Some \<lparr>sm_col = c, sm_row = r, sm_glyph = gl, sm_series = tag\<rparr>
      else layered layers c r)"
  by (simp add: layered_def)

lemma layered_pos: "layered layers c r = Some m \<Longrightarrow> smark_pos m = (c, r)"
  by (induction layers rule: rev_induct) (auto simp: layered_snoc layered_def split: if_splits)

lemma place_layer:
  assumes "holds_layers w h grid layers" and "g_width g = w" "g_height g = h" and "0 < w" "0 < h" "w \<le> 65536"
  shows "\<exists>grid'. place g time dir samples tag gl val grid = Inr grid'
    \<and> holds_layers w h grid' (layers @ [(layer_peak g time dir val samples, tag, gl)])"
  using place_ok [OF _ assms(2-) refl, of grid time dir samples tag gl val] assms(1)
  by (auto simp: holds_layers_def layered_snoc layer_peak_def)

text \<open>
  A plot shows layers: its marks are in the rectangle, at most one per cell, and each cell shows
  the topmost layer with its peak there, the cursor line where no layer has one, or nothing.
\<close>

definition plot_shows :: "nat \<Rightarrow> nat \<Rightarrow> series_tag \<Rightarrow> ((nat \<Rightarrow> nat option) \<times> series_tag \<times> glyph) list \<Rightarrow> peak_plot \<Rightarrow> bool" where
  "plot_shows w h tag layers p \<longleftrightarrow>
     pp_cursor_col p < w \<and> distinct (map smark_pos (pp_marks p)) \<and> list_all (in_grid w h \<circ> smark_pos) (pp_marks p)
     \<and> (\<forall>c<w. \<forall>r<h. find (\<lambda>m. smark_pos m = (c, r)) (pp_marks p) =
          (case layered layers c r of
             Some m \<Rightarrow> Some m
           | None \<Rightarrow> if c = pp_cursor_col p
               then Some \<lparr>sm_col = c, sm_row = r, sm_glyph = CURSOR_GLYPH, sm_series = tag\<rparr> else None))"

lemma finish_plot_ok:
  assumes "holds_layers w h grid layers" and "g_width g = w" "g_height g = h" and "0 < w"
    and "fst xsp \<le> snd xsp"
  shows "\<exists>p. finish_plot g xsp tag grid = Inr (Some p) \<and> plot_shows w h tag layers p"
proof -
  define ct where "ct = max (fst xsp) (min (snd xsp) (g_cursor g))"
  define cc where "cc = geom_col g ct"
  have cc: "cc < w" using geom_col_less [of g] assms(2,4) by (simp add: cc_def)
  let ?mk = "\<lambda>row. \<lparr>sm_col = cc, sm_row = row, sm_glyph = CURSOR_GLYPH, sm_series = tag\<rparr>"
  have len: "length grid = w * h" using assms(1) by (simp add: holds_layers_def)
  from draw_cursor_ok [OF len cc, of ?mk] obtain g2 where
    g2: "draw_cursor w h cc ?mk grid = Inr g2" "length g2 = w * h"
      "\<forall>c<w. \<forall>r<h. cell w g2 c r = (if c = cc \<and> cell w grid c r = None then Some (?mk r) else cell w grid c r)"
    by blast
  have at: "cell w g2 c r = (case layered layers c r of Some m \<Rightarrow> Some m | None \<Rightarrow> if c = cc then Some (?mk r) else None)"
    if "c < w" "r < h" for c r
    using g2(3) assms(1) that by (auto simp: holds_layers_def split: option.splits)
  have "\<forall>c<w. \<forall>r<h. \<forall>m. cell w g2 c r = Some m \<longrightarrow> smark_pos m = (c, r)"
    using at by (auto split: option.splits if_splits dest: layered_pos)
  from collected_marks [OF g2(2), of smark_pos "\<lambda>c r m. m"] this obtain ms where
    ms: "collect_marks w h (\<lambda>c r m. m) g2 = Inr ms" "distinct (map smark_pos ms)"
      "list_all (in_grid w h \<circ> smark_pos) ms"
      "\<forall>c<w. \<forall>r<h. find (\<lambda>k. smark_pos k = (c, r)) ms = cell w g2 c r"
    by (auto simp: option.map_ident)
  have "finish_plot g xsp tag grid = Inr (Some \<lparr>pp_width = w, pp_height = h, pp_max = g_max g,
          pp_x_span = xsp, pp_cursor_col = cc, pp_marks = ms\<rparr>)"
    using assms(2,3,5) g2(1) ms(1) by (simp add: finish_plot_def clamp_ok Let_def flip: ct_def cc_def)
  then show ?thesis using ms cc at by (auto simp: plot_shows_def)
qed

lemma make_geom_simps [simp]:
  "g_width (make_geom focus xsp mx cursor w h) = w"
  "g_height (make_geom focus xsp mx cursor w h) = h"
  "g_focus (make_geom focus xsp mx cursor w h) = focus"
  "g_cursor (make_geom focus xsp mx cursor w h) = cursor"
  by (simp_all add: make_geom_def)

text \<open>The rectangles and spans a projection draws for: large enough, \<^verbatim>\<open>u16\<close> wide, not reversed.\<close>

definition drawable :: "nanos \<times> nanos \<Rightarrow> nat \<Rightarrow> nat \<Rightarrow> bool" where
  "drawable xsp w h \<longleftrightarrow> MIN_W \<le> w \<and> MIN_H \<le> h \<and> w < 65536 \<and> fst xsp \<le> snd xsp"

lemma drawable_simps [simp]:
  assumes "drawable xsp w h"
  shows "0 < w" "0 < h" "w \<le> 65536" "fst xsp \<le> snd xsp" "\<not> w < MIN_W" "\<not> h < MIN_H"
  using assms by (auto simp: drawable_def MIN_W_def MIN_H_def)

definition inflight_geom :: "inflight_sample list \<Rightarrow> inflight_sample list \<Rightarrow> sample_dir \<Rightarrow> nanos \<times> nanos \<Rightarrow> nanos \<Rightarrow> nat \<Rightarrow> nat \<Rightarrow> geom" where
  "inflight_geom wire overlay focus xsp =
     make_geom focus xsp (u64_max_or_zero (map if_bytes (filter (\<lambda>s. if_dir s = focus) (wire @ overlay))))"

definition inflight_layers :: "geom \<Rightarrow> inflight_sample list \<Rightarrow> inflight_sample list \<Rightarrow> ((nat \<Rightarrow> nat option) \<times> series_tag \<times> glyph) list" where
  "inflight_layers g wire overlay =
     [(layer_peak g if_t if_dir if_bytes wire, Wire, WIRE_GLYPH),
      (layer_peak g if_t if_dir if_bytes overlay, Cwnd, CWND_GLYPH)]"

lemma inflight_project_ok:
  assumes "drawable xsp w h"
  shows "\<exists>p. inflight_project wire overlay focus xsp cursor w h = Inr (Some p)
    \<and> plot_shows w h Wire (inflight_layers (inflight_geom wire overlay focus xsp cursor w h) wire overlay) p"
proof -
  let ?g = "inflight_geom wire overlay focus xsp cursor w h"
  have g: "g_width ?g = w" "g_height ?g = h" by (simp_all add: inflight_geom_def)
  note d = drawable_simps [OF assms]
  note place = place_layer [OF _ g d(1,2,3), where time = if_t and dir = if_dir and val = if_bytes]
  obtain g1 where g1: "place ?g if_t if_dir wire Wire WIRE_GLYPH if_bytes (replicate (w * h) None) = Inr g1"
      "holds_layers w h g1 ([] @ [(layer_peak ?g if_t if_dir if_bytes wire, Wire, WIRE_GLYPH)])"
    using place [OF holds_layers_empty] by blast
  obtain g2 where g2: "place ?g if_t if_dir overlay Cwnd CWND_GLYPH if_bytes g1 = Inr g2"
      "holds_layers w h g2 (inflight_layers ?g wire overlay)"
    using place [OF g1(2)] by (simp add: inflight_layers_def) blast
  show ?thesis using finish_plot_ok [OF g2(2) g d(1) d(4), of Wire] g1(1) g2(1) d
    by (simp add: inflight_project_def Let_def inflight_geom_def)
qed

definition rtt_geom :: "rtt_sample list \<Rightarrow> rtt_sample list \<Rightarrow> sample_dir \<Rightarrow> nanos \<times> nanos \<Rightarrow> nanos \<Rightarrow> nat \<Rightarrow> nat \<Rightarrow> geom" where
  "rtt_geom wire overlay focus xsp =
     make_geom focus xsp (u64_max_or_zero
       (concat (map (\<lambda>s. [rt_rtt s, rt_srtt s]) (filter (\<lambda>s. rt_dir s = focus) wire))
        @ map rt_srtt (filter (\<lambda>s. rt_dir s = focus) overlay)))"

definition rtt_layers :: "geom \<Rightarrow> rtt_sample list \<Rightarrow> rtt_sample list \<Rightarrow> ((nat \<Rightarrow> nat option) \<times> series_tag \<times> glyph) list" where
  "rtt_layers g wire overlay =
     [(layer_peak g rt_t rt_dir rt_rtt wire, Raw, RAW_GLYPH),
      (layer_peak g rt_t rt_dir rt_srtt wire, Smoothed, SMOOTHED_GLYPH),
      (layer_peak g rt_t rt_dir rt_srtt overlay, Kernel, KERNEL_GLYPH)]"

lemma rtt_project_ok:
  assumes "drawable xsp w h"
  shows "\<exists>p. rtt_project wire overlay focus xsp cursor w h = Inr (Some p)
    \<and> plot_shows w h Raw (rtt_layers (rtt_geom wire overlay focus xsp cursor w h) wire overlay) p"
proof -
  let ?g = "rtt_geom wire overlay focus xsp cursor w h"
  have g: "g_width ?g = w" "g_height ?g = h" by (simp_all add: rtt_geom_def)
  note d = drawable_simps [OF assms]
  note place = place_layer [OF _ g d(1,2,3), where time = rt_t and dir = rt_dir]
  obtain g1 where g1: "place ?g rt_t rt_dir wire Raw RAW_GLYPH rt_rtt (replicate (w * h) None) = Inr g1"
      "holds_layers w h g1 ([] @ [(layer_peak ?g rt_t rt_dir rt_rtt wire, Raw, RAW_GLYPH)])"
    using place [OF holds_layers_empty] by blast
  obtain g2 where g2: "place ?g rt_t rt_dir wire Smoothed SMOOTHED_GLYPH rt_srtt g1 = Inr g2"
      "holds_layers w h g2 (([] @ [(layer_peak ?g rt_t rt_dir rt_rtt wire, Raw, RAW_GLYPH)])
         @ [(layer_peak ?g rt_t rt_dir rt_srtt wire, Smoothed, SMOOTHED_GLYPH)])"
    using place [OF g1(2)] by blast
  obtain g3 where g3: "place ?g rt_t rt_dir overlay Kernel KERNEL_GLYPH rt_srtt g2 = Inr g3"
      "holds_layers w h g3 (rtt_layers ?g wire overlay)"
    using place [OF g2(2)] by (simp add: rtt_layers_def) blast
  show ?thesis using finish_plot_ok [OF g3(2) g d(1) d(4), of Raw] g1(1) g2(1) g3(1) d
    by (simp add: rtt_project_def Let_def rtt_geom_def)
qed

definition throughput_geom :: "throughput_sample list \<Rightarrow> sample_dir \<Rightarrow> nanos \<times> nanos \<Rightarrow> nanos \<Rightarrow> nat \<Rightarrow> nat \<Rightarrow> geom" where
  "throughput_geom wire focus xsp =
     make_geom focus xsp (u64_max_or_zero
       (concat (map (\<lambda>s. [tp_throughput_bps s, tp_goodput_bps s]) (filter (\<lambda>s. tp_dir s = focus) wire))))"

definition throughput_layers :: "geom \<Rightarrow> throughput_sample list \<Rightarrow> ((nat \<Rightarrow> nat option) \<times> series_tag \<times> glyph) list" where
  "throughput_layers g wire =
     [(layer_peak g tp_t tp_dir tp_throughput_bps wire, Throughput, THROUGHPUT_GLYPH),
      (layer_peak g tp_t tp_dir tp_goodput_bps wire, Goodput, GOODPUT_GLYPH)]"

lemma throughput_project_ok:
  assumes "drawable xsp w h"
  shows "\<exists>p. throughput_project wire focus xsp cursor w h = Inr (Some p)
    \<and> plot_shows w h Throughput (throughput_layers (throughput_geom wire focus xsp cursor w h) wire) p"
proof -
  let ?g = "throughput_geom wire focus xsp cursor w h"
  have g: "g_width ?g = w" "g_height ?g = h" by (simp_all add: throughput_geom_def)
  note d = drawable_simps [OF assms]
  note place = place_layer [OF _ g d(1,2,3), where time = tp_t and dir = tp_dir]
  obtain g1 where g1: "place ?g tp_t tp_dir wire Throughput THROUGHPUT_GLYPH tp_throughput_bps (replicate (w * h) None) = Inr g1"
      "holds_layers w h g1 ([] @ [(layer_peak ?g tp_t tp_dir tp_throughput_bps wire, Throughput, THROUGHPUT_GLYPH)])"
    using place [OF holds_layers_empty] by blast
  obtain g2 where g2: "place ?g tp_t tp_dir wire Goodput GOODPUT_GLYPH tp_goodput_bps g1 = Inr g2"
      "holds_layers w h g2 (throughput_layers ?g wire)"
    using place [OF g1(2)] by (simp add: throughput_layers_def) blast
  show ?thesis using finish_plot_ok [OF g2(2) g d(1) d(4), of Throughput] g1(1) g2(1) d
    by (simp add: throughput_project_def Let_def throughput_geom_def)
qed

section \<open>The contract of a plot\<close>

text \<open>
  The detail pane relies on this much of a projection: below the minimum size there is no plot,
  a drawable rectangle gives one, with its marks inside the rectangle, at most one per cell, and
  the column of the cursor filled.
\<close>

definition marks_ok :: "nat \<Rightarrow> nat \<Rightarrow> (nat \<times> nat) list \<Rightarrow> nat \<Rightarrow> bool" where
  "marks_ok w h ps line_col \<longleftrightarrow>
     distinct ps \<and> list_all (in_grid w h) ps \<and> line_col < w \<and> (\<forall>r<h. (line_col, r) \<in> set ps)"

lemma marks_ok_count:
  assumes "marks_ok w h ps line_col"
  shows "h \<le> length ps" and "length ps \<le> w * h"
proof -
  have d: "length ps = card (set ps)" using assms by (simp add: marks_ok_def distinct_card)
  have "set ps \<subseteq> {..<w} \<times> {..<h}" using assms by (auto simp: marks_ok_def list_all_iff in_grid_def)
  from card_mono [OF _ this] show "length ps \<le> w * h" by (simp add: d)
  have "Pair line_col ` {..<h} \<subseteq> set ps" using assms by (auto simp: marks_ok_def)
  from card_mono [OF _ this] show "h \<le> length ps" by (simp add: d card_image inj_on_def)
qed

locale plot_contract =
  fixes project :: "'d \<Rightarrow> sample_dir \<Rightarrow> nanos \<times> nanos \<Rightarrow> nanos \<Rightarrow> nat \<Rightarrow> nat \<Rightarrow> panic + 'p option"
    and positions :: "'p \<Rightarrow> (nat \<times> nat) list"
    and line_col :: "'p \<Rightarrow> nat"
  assumes small: "w < MIN_W \<or> h < MIN_H \<Longrightarrow> project d focus xsp cursor w h = Inr None"
    and drawn: "drawable xsp w h \<Longrightarrow>
      \<exists>p. project d focus xsp cursor w h = Inr (Some p) \<and> marks_ok w h (positions p) (line_col p)"
begin

lemma no_panic:
  assumes "fst xsp \<le> snd xsp" and "w < 65536"
  shows "\<exists>r. project d focus xsp cursor w h = Inr r \<and> (r = None \<longleftrightarrow> w < MIN_W \<or> h < MIN_H)"
proof (cases "w < MIN_W \<or> h < MIN_H")
  case True
  then show ?thesis using small by simp
next
  case False
  with assms have "drawable xsp w h" by (simp add: drawable_def)
  from drawn [OF this, of d focus cursor] False show ?thesis by auto
qed

lemma mark_count:
  assumes "drawable xsp w h"
  shows "\<exists>p. project d focus xsp cursor w h = Inr (Some p) \<and> h \<le> length (positions p) \<and> length (positions p) \<le> w * h"
  using drawn [OF assms, of d focus cursor] marks_ok_count by metis

end

lemma found_at: "find (\<lambda>m. pos m = cr) ms \<noteq> None \<Longrightarrow> cr \<in> set (map pos ms)"
  by (auto simp: find_None_iff)

lemma marks_ok_found:
  assumes "distinct (map pos ms)" and "list_all (in_grid w h \<circ> pos) ms" and "lc < w"
    and "\<And>r. r < h \<Longrightarrow> find (\<lambda>m. pos m = (lc, r)) ms \<noteq> None"
  shows "marks_ok w h (map pos ms) lc"
  using assms found_at [of pos _ ms] unfolding marks_ok_def list.pred_map by blast

lemma plot_shows_marks_ok:
  assumes "plot_shows w h tag layers p"
  shows "marks_ok w h (map smark_pos (pp_marks p)) (pp_cursor_col p)"
proof (rule marks_ok_found)
  fix r assume "r < h"
  with assms show "find (\<lambda>m. smark_pos m = (pp_cursor_col p, r)) (pp_marks p) \<noteq> None"
    unfolding plot_shows_def by (cases "layered layers (pp_cursor_col p) r") force+
qed (use assms in \<open>simp_all add: plot_shows_def\<close>)

interpretation seq_plot: plot_contract seq_project "\<lambda>p. map mark_pos (sp_marks p)" sp_cursor_col
proof
  fix d focus xsp cursor w h
  show "w < MIN_W \<or> h < MIN_H \<Longrightarrow> seq_project d focus xsp cursor w h = Inr None"
    by (simp add: seq_project_def)
  assume "drawable xsp w h"
  then have "MIN_W \<le> w" "MIN_H \<le> h" "fst xsp \<le> snd xsp" by (simp_all add: drawable_def)
  from seq_project_ok [OF this, of d focus cursor] obtain p where
    p: "seq_project d focus xsp cursor w h = Inr (Some p)" "sp_cursor_col p < w"
      "distinct (map mark_pos (sp_marks p))" "list_all (in_grid w h \<circ> mark_pos) (sp_marks p)"
      "\<forall>c<w. \<forall>r<h. map_option mk_glyph (find (\<lambda>m. mark_pos m = (c, r)) (sp_marks p)) =
         (case salient_glyph (map sq_kind (filter (\<lambda>s. seq_cell d focus xsp w h s = (c, r)) (seq_revealed d focus cursor))) of
            Some g \<Rightarrow> Some g | None \<Rightarrow> if c = sp_cursor_col p then Some CURSOR_GLYPH else None)"
    by blast
  have "find (\<lambda>m. mark_pos m = (sp_cursor_col p, r)) (sp_marks p) \<noteq> None" if "r < h" for r
  proof
    assume none: "find (\<lambda>m. mark_pos m = (sp_cursor_col p, r)) (sp_marks p) = None"
    show False using p(5) [rule_format, OF p(2) that] unfolding none by (auto split: option.splits)
  qed
  from marks_ok_found [OF p(3,4,2) this] p(1)
  show "\<exists>p. seq_project d focus xsp cursor w h = Inr (Some p) \<and> marks_ok w h (map mark_pos (sp_marks p)) (sp_cursor_col p)"
    by blast
qed

interpretation inflight_plot: plot_contract "\<lambda>d. inflight_project (fst d) (snd d)"
    "\<lambda>p. map smark_pos (pp_marks p)" pp_cursor_col
proof
  fix d focus xsp cursor w h
  show "w < MIN_W \<or> h < MIN_H \<Longrightarrow> inflight_project (fst d) (snd d) focus xsp cursor w h = Inr None"
    by (simp add: inflight_project_def)
  show "drawable xsp w h \<Longrightarrow> \<exists>p. inflight_project (fst d) (snd d) focus xsp cursor w h = Inr (Some p)
      \<and> marks_ok w h (map smark_pos (pp_marks p)) (pp_cursor_col p)"
    using inflight_project_ok plot_shows_marks_ok by blast
qed

interpretation rtt_plot: plot_contract "\<lambda>d. rtt_project (fst d) (snd d)"
    "\<lambda>p. map smark_pos (pp_marks p)" pp_cursor_col
proof
  fix d focus xsp cursor w h
  show "w < MIN_W \<or> h < MIN_H \<Longrightarrow> rtt_project (fst d) (snd d) focus xsp cursor w h = Inr None"
    by (simp add: rtt_project_def)
  show "drawable xsp w h \<Longrightarrow> \<exists>p. rtt_project (fst d) (snd d) focus xsp cursor w h = Inr (Some p)
      \<and> marks_ok w h (map smark_pos (pp_marks p)) (pp_cursor_col p)"
    using rtt_project_ok plot_shows_marks_ok by blast
qed

interpretation throughput_plot: plot_contract throughput_project "\<lambda>p. map smark_pos (pp_marks p)" pp_cursor_col
proof
  fix d focus xsp cursor w h
  show "w < MIN_W \<or> h < MIN_H \<Longrightarrow> throughput_project d focus xsp cursor w h = Inr None"
    by (simp add: throughput_project_def)
  show "drawable xsp w h \<Longrightarrow> \<exists>p. throughput_project d focus xsp cursor w h = Inr (Some p)
      \<and> marks_ok w h (map smark_pos (pp_marks p)) (pp_cursor_col p)"
    using throughput_project_ok plot_shows_marks_ok by blast
qed

section \<open>Properties\<close>

text \<open>
  None of the four plot projections panics for a time span that is not reversed and a
  rectangle of \<^verbatim>\<open>u16\<close> width, whatever the samples and the cursor, and each gives a plot exactly when
  the rectangle is at least the minimum size.
\<close>

theorem plots_never_panic:
  assumes "fst xsp \<le> snd xsp" and "w < 65536"
  shows "(\<exists>r. seq_project series focus xsp cursor w h = Inr r \<and> (r = None \<longleftrightarrow> w < MIN_W \<or> h < MIN_H))
    \<and> (\<exists>r. inflight_project wire overlay focus xsp cursor w h = Inr r \<and> (r = None \<longleftrightarrow> w < MIN_W \<or> h < MIN_H))
    \<and> (\<exists>r. rtt_project rwire roverlay focus xsp cursor w h = Inr r \<and> (r = None \<longleftrightarrow> w < MIN_W \<or> h < MIN_H))
    \<and> (\<exists>r. throughput_project twire focus xsp cursor w h = Inr r \<and> (r = None \<longleftrightarrow> w < MIN_W \<or> h < MIN_H))"
  using seq_plot.no_panic [OF assms] inflight_plot.no_panic [OF assms, of "(wire, overlay)"]
    rtt_plot.no_panic [OF assms, of "(rwire, roverlay)"] throughput_plot.no_panic [OF assms]
  unfolding fst_conv snd_conv by (intro conjI)

definition example_series :: "seq_sample list" where
  "example_series =
     [\<lparr>sq_t = 0, sq_dir = OriginToResponder, sq_rel = 0, sq_len = 10, sq_kind = Data False False\<rparr>,
      \<lparr>sq_t = 100, sq_dir = OriginToResponder, sq_rel = 10, sq_len = 10, sq_kind = Data False False\<rparr>,
      \<lparr>sq_t = 101, sq_dir = OriginToResponder, sq_rel = 10, sq_len = 10, sq_kind = Data True False\<rparr>,
      \<lparr>sq_t = 250, sq_dir = OriginToResponder, sq_rel = 20, sq_len = 10, sq_kind = Sack\<rparr>]"

theorem plots_never_panic_witness:
  "\<exists>p. seq_project example_series OriginToResponder (0, 300) 200 10 4 = Inr (Some p)"
proof -
  have "fst (0 :: nanos, 300 :: nanos) \<le> snd (0 :: nanos, 300 :: nanos)" "(10 :: nat) < 65536" by simp_all
  from conjunct1 [OF plots_never_panic [OF this, where h = 4]] obtain r where
    "seq_project example_series OriginToResponder (0, 300) 200 10 4 = Inr r" "r \<noteq> None"
    by (fastforce simp: MIN_W_def MIN_H_def)
  then show ?thesis by auto
qed

text \<open>
  The time/sequence plot. In a drawable rectangle every cell shows the most salient of the
  samples revealed in it (retransmission, then SACK, then out of order, then data), the cursor
  line where no sample is, and nothing elsewhere; no cell has two marks.
\<close>

theorem seq_plot_shows_salient:
  assumes "MIN_W \<le> w" and "MIN_H \<le> h" and "fst xsp \<le> snd xsp"
  shows "\<exists>p. seq_project series focus xsp cursor w h = Inr (Some p)
    \<and> distinct (map mark_pos (sp_marks p))
    \<and> (\<forall>c<w. \<forall>r<h. map_option mk_glyph (find (\<lambda>m. mark_pos m = (c, r)) (sp_marks p)) =
         (case salient_glyph (map sq_kind (filter (\<lambda>s. seq_cell series focus xsp w h s = (c, r)) (seq_revealed series focus cursor))) of
            Some g \<Rightarrow> Some g
          | None \<Rightarrow> if c = sp_cursor_col p then Some CURSOR_GLYPH else None))"
  using seq_project_ok [OF assms, of series focus cursor] by blast

theorem seq_plot_shows_salient_witness:
  "\<exists>p. seq_project example_series OriginToResponder (0, 300) 200 10 4 = Inr (Some p)
     \<and> map_option mk_glyph (find (\<lambda>m. mark_pos m = (3, 1)) (sp_marks p)) = Some RETRANS_GLYPH"
proof -
  have *: "MIN_W \<le> 10" "MIN_H \<le> 4" "fst (0 :: nanos, 300 :: nanos) \<le> snd (0 :: nanos, 300 :: nanos)"
    and lt: "(3 :: nat) < 10" "(1 :: nat) < 4"
    by (simp_all add: MIN_W_def MIN_H_def)
  have sal: "salient_glyph (map sq_kind (filter (\<lambda>s. seq_cell example_series OriginToResponder (0, 300) 10 4 s = (3, 1))
      (seq_revealed example_series OriginToResponder 200))) = Some RETRANS_GLYPH" by code_simp
  obtain p where p: "seq_project example_series OriginToResponder (0, 300) 200 10 4 = Inr (Some p)"
      "\<forall>c<10. \<forall>r<4. map_option mk_glyph (find (\<lambda>m. mark_pos m = (c, r)) (sp_marks p)) =
         (case salient_glyph (map sq_kind (filter (\<lambda>s. seq_cell example_series OriginToResponder (0, 300) 10 4 s = (c, r))
             (seq_revealed example_series OriginToResponder 200))) of
            Some g \<Rightarrow> Some g
          | None \<Rightarrow> if c = sp_cursor_col p then Some CURSOR_GLYPH else None)"
    using seq_plot_shows_salient [OF *, of example_series OriginToResponder 200] by blast
  have "map_option mk_glyph (find (\<lambda>m. mark_pos m = (3, 1)) (sp_marks p)) = Some RETRANS_GLYPH"
    using p(2) [rule_format, OF lt] by (simp only: sal option.case)
  with p(1) show ?thesis by blast
qed

text \<open>
  The round-trip plot. In a drawable rectangle every cell shows the kernel's, else the smoothed,
  else the raw round-trip time whose column peak is in that cell, else the cursor line on its
  column, else nothing; marks are inside the rectangle and at most one per cell.
\<close>

theorem rtt_plot_layers:
  assumes "drawable xsp w h"
  shows "\<exists>p. rtt_project wire overlay focus xsp cursor w h = Inr (Some p)
    \<and> plot_shows w h Raw (rtt_layers (rtt_geom wire overlay focus xsp cursor w h) wire overlay) p"
  using rtt_project_ok [OF assms] by blast

definition example_rtts :: "rtt_sample list" where
  "example_rtts =
     [\<lparr>rt_t = 0, rt_dir = OriginToResponder, rt_rtt = 30, rt_srtt = 30\<rparr>,
      \<lparr>rt_t = 100, rt_dir = OriginToResponder, rt_rtt = 90, rt_srtt = 37\<rparr>]"

theorem rtt_plot_layers_witness:
  "layered (rtt_layers (rtt_geom example_rtts [] OriginToResponder (0, 300) 200 10 4) example_rtts []) 3 1 =
     Some \<lparr>sm_col = 3, sm_row = 1, sm_glyph = SMOOTHED_GLYPH, sm_series = Smoothed\<rparr>
   \<and> (\<exists>p. rtt_project example_rtts [] OriginToResponder (0, 300) 200 10 4 = Inr (Some p)
     \<and> plot_shows 10 4 Raw (rtt_layers (rtt_geom example_rtts [] OriginToResponder (0, 300) 200 10 4) example_rtts []) p)"
proof
  show "layered (rtt_layers (rtt_geom example_rtts [] OriginToResponder (0, 300) 200 10 4) example_rtts []) 3 1 =
     Some \<lparr>sm_col = 3, sm_row = 1, sm_glyph = SMOOTHED_GLYPH, sm_series = Smoothed\<rparr>" by code_simp
  have "drawable (0, 300) 10 4" by (simp add: drawable_def MIN_W_def MIN_H_def)
  from rtt_plot_layers [OF this]
  show "\<exists>p. rtt_project example_rtts [] OriginToResponder (0, 300) 200 10 4 = Inr (Some p)
     \<and> plot_shows 10 4 Raw (rtt_layers (rtt_geom example_rtts [] OriginToResponder (0, 300) 200 10 4) example_rtts []) p" .
qed

text \<open>Larger values are drawn no lower.\<close>

lemma clamp_cell_mono: "a \<le> b \<Longrightarrow> clamp_cell a n \<le> clamp_cell b n"
  by (auto simp: clamp_cell_def)

lemma geom_row_mono: "v \<le> v' \<Longrightarrow> geom_row g v \<le> geom_row g v'"
  by (auto simp: geom_row_def word_le_nat_alt intro!: clamp_cell_mono div_le_mono mult_le_mono1)

lemma peak_of_mono:
  assumes "\<forall>s\<in>set ss. rowf s \<le> rowf' s" and "peak_of colf rowf ss c = Some r"
  shows "\<exists>r'. peak_of colf rowf' ss c = Some r' \<and> r \<le> r'"
  using assms
proof (induction ss arbitrary: r rule: rev_induct)
  case Nil
  then show ?case by (simp add: peak_of_def)
next
  case (snoc s ss)
  show ?case
  proof (cases "colf s = c")
    case False
    with snoc show ?thesis by (simp add: peak_of_snoc)
  next
    case True
    have none: "peak_of colf rowf ss c = None \<longleftrightarrow> peak_of colf rowf' ss c = None"
      by (simp add: peak_of_def Let_def filter_empty_conv)
    show ?thesis
    proof (cases "peak_of colf rowf ss c")
      case None
      with True none snoc.prems show ?thesis by (simp add: peak_of_snoc)
    next
      case (Some r0)
      from snoc.IH [OF _ this] snoc.prems(1) obtain r' where "peak_of colf rowf' ss c = Some r'" "r0 \<le> r'" by auto
      with True Some snoc.prems show ?thesis by (auto simp: peak_of_snoc max_def)
    qed
  qed
qed

text \<open>
  The throughput plot. For samples whose goodput is at most their throughput, each column's
  goodput mark is at or below the peak of its throughput, and where it is drawn the plot shows
  it.
\<close>

theorem goodput_drawn_below_throughput:
  assumes "drawable xsp w h" and "list_all (\<lambda>s. tp_goodput_bps s \<le> tp_throughput_bps s) wire"
    and "g = throughput_geom wire focus xsp cursor w h"
    and "layer_peak g tp_t tp_dir tp_goodput_bps wire c = Some r" and "c < w"
  shows "\<exists>p r'. throughput_project wire focus xsp cursor w h = Inr (Some p)
    \<and> layer_peak g tp_t tp_dir tp_throughput_bps wire c = Some r' \<and> r \<le> r' \<and> r' < h
    \<and> find (\<lambda>m. smark_pos m = (c, r)) (pp_marks p) =
        Some \<lparr>sm_col = c, sm_row = r, sm_glyph = GOODPUT_GLYPH, sm_series = Goodput\<rparr>"
proof -
  obtain r' where r': "layer_peak g tp_t tp_dir tp_throughput_bps wire c = Some r'" "r \<le> r'"
    using peak_of_mono [OF _ assms(4) [unfolded layer_peak_def], of "\<lambda>s. geom_row g (tp_throughput_bps s)"] assms(2)
    by (auto simp: layer_peak_def list_all_iff intro: geom_row_mono)
  have "r' < h" using peak_of_less [OF r'(1) [unfolded layer_peak_def]] geom_row_less [of g] assms(1,3)
    by (simp add: throughput_geom_def)
  moreover have "layered (throughput_layers g wire) c r =
      Some \<lparr>sm_col = c, sm_row = r, sm_glyph = GOODPUT_GLYPH, sm_series = Goodput\<rparr>"
    using assms(4) by (simp add: layered_def throughput_layers_def)
  moreover obtain p where "throughput_project wire focus xsp cursor w h = Inr (Some p)"
      "plot_shows w h Throughput (throughput_layers g wire) p"
    using throughput_project_ok [OF assms(1)] assms(3) by blast
  moreover have "r < h" using r'(2) \<open>r' < h\<close> by simp
  ultimately show ?thesis using r' assms(5) by (auto simp: plot_shows_def)
qed

definition example_rates :: "throughput_sample list" where
  "example_rates =
     [\<lparr>tp_t = 100, tp_dir = OriginToResponder, tp_throughput_bps = 900, tp_goodput_bps = 300\<rparr>]"

theorem goodput_drawn_below_throughput_witness:
  "\<exists>p r'. throughput_project example_rates OriginToResponder (0, 300) 200 10 4 = Inr (Some p)
    \<and> layer_peak (throughput_geom example_rates OriginToResponder (0, 300) 200 10 4) tp_t tp_dir
         tp_throughput_bps example_rates 3 = Some r' \<and> 1 \<le> r'
    \<and> find (\<lambda>m. smark_pos m = (3, 1)) (pp_marks p) =
        Some \<lparr>sm_col = 3, sm_row = 1, sm_glyph = GOODPUT_GLYPH, sm_series = Goodput\<rparr>"
proof -
  have a: "drawable (0, 300) 10 4" by (simp add: drawable_def MIN_W_def MIN_H_def)
  have b: "list_all (\<lambda>s. tp_goodput_bps s \<le> tp_throughput_bps s) example_rates" by (simp add: example_rates_def)
  have c: "layer_peak (throughput_geom example_rates OriginToResponder (0, 300) 200 10 4) tp_t tp_dir
         tp_goodput_bps example_rates 3 = Some 1" by code_simp
  have "(3 :: nat) < 10" by simp
  from goodput_drawn_below_throughput [OF a b refl c this] show ?thesis by blast
qed

end
