(* ===== verification/Render_Screen.thy ===== *)
theory Render_Screen
  imports Render Plot_Properties
begin

text \<open>
  What the drawing calls of a frame leave on the screen. The first section bounds the widths of the
  axis labels, the second says what a cell shows after a list of calls, the third computes the
  calls for marks and labels in closed form: on a pane that lies on the screen no coordinate
  overflows, distinct cells of a plot have distinct positions, and labels no wider than the
  gutter stay off the plot.
\<close>

section \<open>Widths of labels\<close>

lemma length_show_dec_gt: "10 ^ k \<le> n \<Longrightarrow> k < length (show_dec n)"
proof (induction k arbitrary: n)
  case 0
  then show ?case by (simp add: show_base.simps [of 10 n])
next
  case (Suc k)
  then have "10 ^ k \<le> n div 10" by (simp add: less_eq_div_iff_mult_less_eq mult.commute)
  moreover have "\<not> n < 10"
  proof -
    have "(10 :: nat) * 10 ^ k \<le> n" using Suc.prems by simp
    then show ?thesis using mult_le_mono2 [of 1 "10 ^ k" 10] by (metis One_nat_def le_trans mult.right_neutral not_le one_le_power one_le_numeral)
  qed
  ultimately show ?case using Suc.IH [of "n div 10"] by (simp add: show_base.simps [of 10 n])
qed

lemma length_show_dec_gt_iff: "0 < k \<Longrightarrow> k < length (show_dec n) \<longleftrightarrow> 10 ^ k \<le> n"
  by (meson length_show_dec_gt length_show_dec_le not_le)

lemma length_show_dec_pos [simp]: "0 < length (show_dec n)"
  by (subst show_base.simps) simp

lemma length_three_digits [simp]: "n < 1000 \<Longrightarrow> length (pad_zero 3 (show_dec n)) = 3"
  using length_show_dec_le [of n 3] by (simp add: pad_zero_def)

lemma length_utext [simp]: "length (utext s) = length s"
  by (simp add: utext_def)

lemma length_pad_label [simp]: "length (pad_label s) = max 7 (length s)"
  by (simp add: pad_label_def)

lemma fraction_less [simp]: "0 < d \<Longrightarrow> (n :: nat) mod d * 1000 div d < 1000"
  by (simp add: div_less_iff_less_mult)

lemma length_decimals:
  "0 < d \<Longrightarrow> length (utext (show_dec (n div d) @ ''.'' @ pad_zero 3 (show_dec (n mod d * 1000 div d))) @ u) =
     length (show_dec (n div d)) + 4 + length u"
  by simp

text \<open>A label with a whole part, three decimals and a suffix.\<close>

lemma int_div_less:
  assumes "0 < d" and "a < k * d"
  shows "a div d < (k :: int)"
proof -
  have "a div d * d \<le> a" using div_mult_mod_eq [of a d] pos_mod_sign [OF assms(1), of a] by linarith
  with assms show ?thesis by (metis le_less_trans mult_less_cancel_right_pos)
qed

lemma fmt_seq_short:
  assumes "0 \<le> n" and "n < 10 ^ 17"
  shows "length (fmt_seq n) \<le> GUTTER"
proof (cases "n < 100000")
  case True
  with assms have "nat n < 10 ^ 5" by simp
  then have "length (show_dec (nat n)) \<le> 5" by (rule length_show_dec_le) simp
  then show ?thesis using True assms(1) by (simp add: fmt_seq_def show_int_def GUTTER_def)
next
  case False
  have tenth: "length (show_int (n mod d * 10 div d)) = 1" if "0 < d" for d
  proof -
    have "n mod d * 10 < 10 * d" using that by simp
    then have "n mod d * 10 div d < 10" by (intro int_div_less that)
    moreover have "0 \<le> n mod d * 10 div d" using that by (simp add: pos_imp_zdiv_nonneg_iff)
    ultimately have "show_int (n mod d * 10 div d) = show_dec (nat (n mod d * 10 div d))" "nat (n mod d * 10 div d) < 10"
      by (simp_all add: show_int_def)
    then show ?thesis by (simp add: show_base.simps [of 10 "nat (n mod d * 10 div d)"])
  qed
  have whole: "length (show_int (n div d)) \<le> 5" if "n div d < 10 ^ 5" "0 < d" for d
  proof -
    have "nat (n div d) < 10 ^ 5" using that assms(1) by simp
    moreover have "\<not> n div d < 0" using assms(1) that(2) by (simp add: not_less pos_imp_zdiv_nonneg_iff)
    ultimately show ?thesis using length_show_dec_le [of "nat (n div d)" 5] by (simp add: show_int_def)
  qed
  consider "1000000000000 \<le> n" | "1000000000 \<le> n" "n < 1000000000000" | "1000000 \<le> n" "n < 1000000000" | "n < 1000000"
    by linarith
  then show ?thesis
  proof cases
    case 1
    with whole [of 1000000000000] tenth [of 1000000000000] assms False show ?thesis
      by (simp add: fmt_seq_def SEQ_UNITS_def GUTTER_def int_div_less)
  next
    case 2
    with whole [of 1000000000] tenth [of 1000000000] assms False show ?thesis
      by (simp add: fmt_seq_def SEQ_UNITS_def GUTTER_def int_div_less)
  next
    case 3
    with whole [of 1000000] tenth [of 1000000] assms False show ?thesis
      by (simp add: fmt_seq_def SEQ_UNITS_def GUTTER_def int_div_less)
  next
    case 4
    with whole [of 1000] tenth [of 1000] assms False show ?thesis
      by (simp add: fmt_seq_def SEQ_UNITS_def GUTTER_def int_div_less)
  qed
qed

lemma fmt_rate_short:
  assumes "unat r < 10 ^ 13" and "rate_unit r = (u, d)"
  shows "length (fmt_rate_scaled r d) \<le> GUTTER" and "length (fmt_rate_scaled 0 d) \<le> GUTTER"
proof -
  have d: "d \<in> {1, 1000, 1000000, 1000000000} \<and> unat r div d < 10000 \<and> (d = 1 \<longrightarrow> unat r < 1000)"
    using assms by (auto simp: rate_unit_def RATE_UNITS_def div_less_iff_less_mult split: if_splits option.splits)
  then have "length (show_dec (unat r div d)) \<le> 4" using length_show_dec_le [of "unat r div d" 4] by simp
  then show "length (fmt_rate_scaled r d) \<le> GUTTER" using d length_show_dec_le [of "unat r" 3]
    by (auto simp: fmt_rate_scaled_def GUTTER_def)
  show "length (fmt_rate_scaled 0 d) \<le> GUTTER"
    by (simp add: fmt_rate_scaled_def GUTTER_def show_base.simps [of 10 0] pad_zero_def)
qed

lemma fmt_rtt_long:
  "GUTTER < length (pad_label (fmt_rtt t)) \<longleftrightarrow>
     (10 ^ 5 \<le> unat t \<and> unat t < 10 ^ 6) \<or> (10 ^ 8 \<le> unat t \<and> unat t < 10 ^ 9) \<or> 10 ^ 12 \<le> unat t"
proof -
  let ?n = "unat t"
  have long: "k < length (show_dec (?n div d)) \<longleftrightarrow> 10 ^ k * d \<le> ?n" if "0 < d" "0 < k" for d k
    using length_show_dec_gt_iff [OF that(2)] that(1) by (simp add: less_eq_div_iff_mult_less_eq)
  have unit: "GUTTER < length (pad_label (fmt_rtt t)) \<longleftrightarrow> 10 ^ (4 - length u) * d \<le> ?n"
    if "fmt_rtt t = utext (show_dec (?n div d) @ ''.'' @ pad_zero 3 (show_dec (?n mod d * 1000 div d))) @ u"
      "0 < d" "length u < 4" for d u
    using long [of d "4 - length u"] that(2,3) unfolding that(1) length_pad_label length_decimals [OF that(2)]
    by (auto simp: GUTTER_def)
  consider "10 ^ 9 \<le> ?n" | "10 ^ 6 \<le> ?n" "?n < 10 ^ 9" | "10 ^ 3 \<le> ?n" "?n < 10 ^ 6" | "?n < 10 ^ 3"
    by linarith
  then show ?thesis
  proof cases
    case 1
    then show ?thesis using unit [of 1000000000 "utext ''s''"] by (auto simp: fmt_rtt_def RTT_UNITS_def Let_def)
  next
    case 2
    then show ?thesis using unit [of 1000000 "utext ''ms''"] by (auto simp: fmt_rtt_def RTT_UNITS_def Let_def)
  next
    case 3
    then show ?thesis using unit [of 1000 "[0xB5, 0x73]"] by (auto simp: fmt_rtt_def RTT_UNITS_def Let_def)
  next
    case 4
    then show ?thesis using length_show_dec_le [of ?n 3] by (auto simp: fmt_rtt_def RTT_UNITS_def GUTTER_def)
  qed
qed

section \<open>What a frame shows\<close>

datatype content = Blank | Glyph code_point | WidgetCell

definition in_rect :: "rect \<Rightarrow> nat \<Rightarrow> nat \<Rightarrow> bool" where
  "in_rect r x y \<longleftrightarrow> rc_x r \<le> x \<and> x < rc_x r + rc_width r \<and> rc_y r \<le> y \<and> y < rc_y r + rc_height r"

text \<open>What a call leaves in a cell that held \<open>old\<close>; every character the code writes is one cell wide.\<close>

fun paint :: "nat \<Rightarrow> nat \<Rightarrow> draw \<Rightarrow> content \<Rightarrow> content" where
  "paint x y (SetString sx sy s c) old = (if sy = y \<and> sx \<le> x \<and> x < sx + length s then Glyph (s ! (x - sx)) else old)"
| "paint x y (RenderBlock b r) old = (if in_rect r x y then WidgetCell else old)"
| "paint x y (RenderParagraph s b r) old = (if in_rect r x y then WidgetCell else old)"
| "paint x y (RenderTable tb b r i) old = (if in_rect r x y then WidgetCell else old)"

definition shown :: "draw list \<Rightarrow> nat \<Rightarrow> nat \<Rightarrow> content" where
  "shown ds x y = fold (paint x y) ds Blank"

text \<open>
  A call starts inside an area: the terminal library panics for a string that starts outside
  the buffer, and clips what runs past its right edge.
\<close>

fun starts_in :: "rect \<Rightarrow> draw \<Rightarrow> bool" where
  "starts_in a (SetString x y s c) \<longleftrightarrow> in_rect a x y"
| "starts_in a d \<longleftrightarrow> True"

text \<open>Rectangles on the screen, one inside another.\<close>

definition on_screen :: "rect \<Rightarrow> bool" where
  "on_screen r \<longleftrightarrow> rc_x r + rc_width r < 65536 \<and> rc_y r + rc_height r < 65536"

definition within :: "rect \<Rightarrow> rect \<Rightarrow> bool" where
  "within r a \<longleftrightarrow> rc_x a \<le> rc_x r \<and> rc_x r + rc_width r \<le> rc_x a + rc_width a
     \<and> rc_y a \<le> rc_y r \<and> rc_y r + rc_height r \<le> rc_y a + rc_height a"

lemma on_screen_within: "within r a \<Longrightarrow> on_screen a \<Longrightarrow> on_screen r"
  by (simp add: within_def on_screen_def)

lemma within_trans: "within r a \<Longrightarrow> within a b \<Longrightarrow> within r b"
  by (simp add: within_def)

section \<open>Drawing marks and labels\<close>

lemma try_map_ok: "(\<And>x. x \<in> set xs \<Longrightarrow> f x = Inr (g x)) \<Longrightarrow> try_map f xs = Inr (map g xs)"
  by (induction xs) simp_all

lemma then_draw_simps [simp]: "then_draw (Inr xs) (Inr ys) = Inr (xs @ ys)"
  by (simp add: then_draw_def)

text \<open>The screen position of a cell of the plot inside a pane.\<close>

definition cell_x :: "rect \<Rightarrow> nat \<Rightarrow> nat" where
  "cell_x inner c = rc_x inner + GUTTER + c"

definition cell_y :: "rect \<Rightarrow> nat \<Rightarrow> nat \<Rightarrow> nat" where
  "cell_y inner h r = rc_y inner + (h - r)"

definition mark_call :: "rect \<Rightarrow> nat \<Rightarrow> (nat \<times> nat) \<times> glyph \<times> color \<Rightarrow> draw" where
  "mark_call inner h = (\<lambda>((c, r), g, co). SetString (cell_x inner c) (cell_y inner h r) [g] (Some co))"

lemma draw_marks_ok:
  assumes "on_screen inner" and "rc_width inner = GUTTER + w" and "rc_height inner = h + 2"
    and "list_all (in_grid w h \<circ> fst \<circ> f) ms"
  shows "draw_marks inner GUTTER h f ms = Inr (map (mark_call inner h \<circ> f) ms)"
proof -
  have "(case f m of ((col, rw), g, c) \<Rightarrow>
         and_then (sub16 h 1) (\<lambda>h1.
         and_then (sub16 h1 rw) (\<lambda>screen_row.
         and_then (add16 (rc_x inner + GUTTER) col) (\<lambda>x.
         and_then (add16 (rc_y inner + 1) screen_row) (\<lambda>y. Inr (SetString x y [g] (Some c)))))))
       = Inr ((mark_call inner h \<circ> f) m)" if "m \<in> set ms" for m
  proof -
    obtain c r g co where f: "f m = ((c, r), g, co)" by (metis prod.exhaust)
    with assms(4) that have "c < w" "r < h" by (auto simp: list_all_iff in_grid_def)
    with f assms(1-3) show ?thesis
      by (simp add: sub16_def add16_def mark_call_def cell_x_def cell_y_def on_screen_def) arith
  qed
  then show ?thesis using assms(1-3)
    by (simp add: draw_marks_def add16_def on_screen_def try_map_ok)
qed

definition label_calls :: "rect \<Rightarrow> nat \<Rightarrow> nanos \<times> nanos \<Rightarrow> ustring \<Rightarrow> ustring \<Rightarrow> draw list" where
  "label_calls inner h xsp upper lower =
     (let end_label = fmt_seconds (snd xsp) @ ''s''
      in [SetString (rc_x inner) (rc_y inner + 1) (pad_label upper) None,
          SetString (rc_x inner) (rc_y inner + h) (pad_label lower) None,
          SetString (rc_x inner + GUTTER) (rc_y inner + h + 1) (utext (fmt_seconds (fst xsp) @ ''s'')) None,
          SetString (end_label_x inner end_label) (rc_y inner + h + 1) (utext end_label) None])"

lemma draw_labels_ok:
  assumes "on_screen inner" and "GUTTER < rc_width inner" and "rc_height inner = h + 2"
  shows "draw_labels inner GUTTER h xsp upper lower = Inr (label_calls inner h xsp upper lower)"
  using assms by (simp add: draw_labels_def label_calls_def add16_def sub16_def on_screen_def Let_def)

lemma show_dec_short: "length (show_dec n) < 65536" if "n < 10 ^ 20"
  using length_show_dec_le [OF that] by simp

lemma length_fmt_seconds: "0 < length (fmt_seconds t) \<and> length (fmt_seconds t) < 65000"
proof -
  have "unat t div 1000000 div 1000 \<le> unat t" using div_le_dividend le_trans by blast
  also have "unat t < 10 ^ 20" using unat_lt_u64 [of t] by simp
  finally have "length (show_dec (unat t div 1000000 div 1000)) \<le> 20" by (intro length_show_dec_le) simp_all
  then show ?thesis by (simp add: fmt_seconds_def Let_def)
qed

text \<open>On a screen anchored at column zero every label starts on the screen.\<close>

lemma label_calls_start:
  assumes "within inner a" and "rc_x a = 0" and "on_screen inner" and "GUTTER < rc_width inner" and "rc_height inner = h + 2"
    and "0 < h"
  shows "list_all (starts_in a) (label_calls inner h xsp upper lower)"
proof -
  have "end_label_x inner (fmt_seconds (snd xsp) @ ''s'') < rc_x inner + rc_width inner"
    using length_fmt_seconds [of "snd xsp"] assms(4) by (simp add: end_label_x_def)
  then show ?thesis using assms
    by (simp add: label_calls_def Let_def in_rect_def within_def GUTTER_def)
qed

lemma mark_calls_start:
  assumes "within inner a" and "rc_width inner = GUTTER + w" and "rc_height inner = h + 2"
    and "list_all (in_grid w h \<circ> fst \<circ> f) ms"
  shows "list_all (starts_in a) (map (mark_call inner h \<circ> f) ms)"
  using assms by (auto simp: list_all_iff in_grid_def mark_call_def cell_x_def cell_y_def in_rect_def within_def
      split: prod.splits)

lemma shown_append: "shown (as @ bs) x y = fold (paint x y) bs (shown as x y)"
  by (simp add: shown_def)

text \<open>No two cells of a plot share a position on the screen.\<close>

lemma cell_position_inject:
  "r < h \<Longrightarrow> r' < h \<Longrightarrow> cell_x inner c = cell_x inner c' \<and> cell_y inner h r = cell_y inner h r' \<longleftrightarrow> c = c' \<and> r = r'"
  by (auto simp: cell_x_def cell_y_def)

lemma marks_shown:
  assumes "list_all (in_grid w h \<circ> fst \<circ> f) ms" and "distinct (map (fst \<circ> f) ms)" and "r < h"
  shows "fold (paint (cell_x inner c) (cell_y inner h r)) (map (mark_call inner h \<circ> f) ms) old =
    (case find (\<lambda>m. fst (f m) = (c, r)) ms of Some m \<Rightarrow> Glyph (fst (snd (f m))) | None \<Rightarrow> old)"
  using assms(1,2)
proof (induction ms arbitrary: old)
  case (Cons m ms)
  obtain c' r' g co where f: "f m = ((c', r'), g, co)" by (metis prod.exhaust)
  with Cons.prems(1) have r': "r' < h" by (simp add: in_grid_def)
  have hit: "paint (cell_x inner c) (cell_y inner h r) (mark_call inner h (f m)) old
      = (if (c', r') = (c, r) then Glyph g else old)"
    using cell_position_inject [OF r' assms(3), of inner c' c] by (auto simp: f mark_call_def)
  show ?case
  proof (cases "(c', r') = (c, r)")
    case True
    with Cons.prems(2) f have "find (\<lambda>m. fst (f m) = (c, r)) ms = None" by (force simp: find_None_iff)
    then show ?thesis using Cons.IH [of "Glyph g"] Cons.prems hit True f by simp
  next
    case False
    then show ?thesis using Cons.IH [of old] Cons.prems hit f by auto
  qed
qed simp

text \<open>Labels that fit the gutter leave the cells of the plot alone.\<close>

lemma labels_beside_plot:
  assumes "length upper \<le> GUTTER" and "length lower \<le> GUTTER" and "r < h"
  shows "fold (paint (cell_x inner c) (cell_y inner h r)) (label_calls inner h xsp upper lower) old = old"
proof -
  have "Suc (rc_y inner + h) \<noteq> rc_y inner + h - r" "\<not> 8 + c < max 7 (length upper)" "\<not> 8 + c < max 7 (length lower)"
    using assms by (simp_all add: GUTTER_def)
  with assms show ?thesis by (simp add: label_calls_def Let_def cell_x_def cell_y_def GUTTER_def)
qed

end
