(* ===== verification/App_Properties.thy ===== *)
theory App_Properties
  imports App "HOL-Library.Sublist" "HOL-Library.Multiset"
begin

text \<open>
  What the interactive application promises: rows are sorted by a lawful comparator (locale
  \<open>comparison\<close>), the search is the subsequence order, the selection follows the visible rows, and
  the event loops never panic. The contract of the pipeline behind the live loop is the locale
  \<open>live_pipeline\<close>.
\<close>

section \<open>Comparators\<close>

locale comparison =
  fixes c :: "'a \<Rightarrow> 'a \<Rightarrow> ordering"
  assumes swap: "reverse (c x y) = c y x"
    and trans: "c x y \<noteq> Greater \<Longrightarrow> c y z \<noteq> Greater \<Longrightarrow> c x z \<noteq> Greater"
begin

lemma self_equal: "c x x = Equal"
  using swap [of x x] by (cases "c x x") auto

lemma total: "c x y = Greater \<Longrightarrow> c y x = Less"
  using swap [of x y] by simp

lemma strict_left: "c x y = Less \<Longrightarrow> c y z \<noteq> Greater \<Longrightarrow> c x z = Less"
  using trans [of x y z] trans [of y z x] swap [of x y] swap [of x z]
  by (cases "c x z") auto

lemma strict_right: "c x y \<noteq> Greater \<Longrightarrow> c y z = Less \<Longrightarrow> c x z = Less"
  using trans [of x y z] trans [of z x y] swap [of y z] swap [of x z]
  by (cases "c x z") auto

lemma equal_trans: "c x y = Equal \<Longrightarrow> c y z = Equal \<Longrightarrow> c x z = Equal"
  using trans [of x y z] trans [of z y x] swap [of x y] swap [of y z] swap [of x z]
  by (cases "c x z") auto

lemma mset_insert_by [simp]: "mset (insert_by c x xs) = add_mset x (mset xs)"
  by (induction xs) auto

lemma mset_sort_by [simp]: "mset (sort_by c xs) = mset xs"
  by (induction xs) (simp_all add: sort_by_def)

lemma set_sort_by [simp]: "set (sort_by c xs) = set xs"
  by (metis mset_sort_by set_mset_mset)

lemma sorted_insert_by:
  "sorted_wrt (\<lambda>x y. c x y \<noteq> Greater) xs \<Longrightarrow> sorted_wrt (\<lambda>x y. c x y \<noteq> Greater) (insert_by c x xs)"
proof (induction xs)
  case Nil
  then show ?case by simp
next
  case (Cons y ys)
  show ?case
  proof (cases "c x y = Greater")
    case True
    have "set (insert_by c x ys) = insert x (set ys)"
      by (metis mset_insert_by set_mset_add_mset_insert set_mset_mset)
    with Cons True total [OF True] show ?thesis by auto
  next
    case False
    with Cons.prems trans show ?thesis by auto
  qed
qed

lemma sorted_sort_by: "sorted_wrt (\<lambda>x y. c x y \<noteq> Greater) (sort_by c xs)"
  by (induction xs) (simp_all add: sort_by_def sorted_insert_by)

text \<open>Where equal elements are identical the sorted list is determined by its elements.\<close>

lemma sort_by_unique:
  assumes "mset xs = mset ys" and "\<And>x y. x \<in> set xs \<Longrightarrow> y \<in> set xs \<Longrightarrow> c x y = Equal \<Longrightarrow> x = y"
  shows "sort_by c xs = sort_by c ys"
proof -
  have "us = vs" if "sorted_wrt (\<lambda>x y. c x y \<noteq> Greater) us" "sorted_wrt (\<lambda>x y. c x y \<noteq> Greater) vs"
    "mset us = mset vs" "set us \<subseteq> set xs" for us vs
    using that
  proof (induction us arbitrary: vs)
    case Nil
    then show ?case by simp
  next
    case (Cons u us)
    then obtain v vs' where v: "vs = v # vs'" by (cases vs) auto
    have vset: "set vs = set (u # us)" using Cons.prems(3) by (metis set_mset_mset)
    have "c u v \<noteq> Greater" using Cons.prems(1) vset v by (cases "v = u") (auto simp: self_equal)
    moreover have "c v u \<noteq> Greater" using Cons.prems(2) vset v by (cases "v = u") (auto simp: self_equal)
    ultimately have "c u v = Equal" using swap [of u v] by (cases "c u v") auto
    with assms(2) Cons.prems(4) vset v have uv: "u = v"
      by (metis list.set_intros(1) subset_iff)
    with Cons v show ?case by auto
  qed
  then show ?thesis using sorted_sort_by assms(1) by (metis mset_sort_by order_refl set_sort_by)
qed

end

lemma reverse_reverse [simp]: "reverse (reverse r) = r"
  by (cases r) simp_all

lemma comparison_cmp: "comparison (\<lambda>a b. cmp (f a) (f b))"
  by unfold_locales (auto simp: cmp_def split: if_splits)

lemma comparison_reverse:
  assumes "comparison c"
  shows "comparison (\<lambda>a b. reverse (c a b))"
proof -
  note swap = comparison.swap [OF assms] and trans = comparison.trans [OF assms]
  show ?thesis
  proof
    show "reverse (reverse (c x y)) = reverse (c y x)" for x y by (simp add: swap)
    show "reverse (c x z) \<noteq> Greater" if "reverse (c x y) \<noteq> Greater" "reverse (c y z) \<noteq> Greater" for x y z
      using trans [of z y x] that swap by metis
  qed
qed

lemma comparison_then_with:
  assumes "comparison c" and "comparison d"
  shows "comparison (\<lambda>a b. then_with (c a b) (d a b))"
proof
  fix x y z
  show "reverse (then_with (c x y) (d x y)) = then_with (c y x) (d y x)"
    using comparison.swap [OF assms(1), of x y] comparison.swap [OF assms(2), of x y]
    by (cases "c x y") auto
  assume a: "then_with (c x y) (d x y) \<noteq> Greater" and b: "then_with (c y z) (d y z) \<noteq> Greater"
  show "then_with (c x z) (d x z) \<noteq> Greater"
  proof (cases "c x y")
    case Less
    with b show ?thesis using comparison.strict_left [OF assms(1), of x y z] by (cases "c y z") auto
  next
    case Equal
    with a b show ?thesis
      using comparison.strict_right [OF assms(1), of x y z] comparison.equal_trans [OF assms(1), of x y z]
        comparison.trans [OF assms(2), of x y z] by (cases "c y z") auto
  next
    case Greater
    with a show ?thesis by simp
  qed
qed

interpretation rows: comparison "order field dir" for field dir
proof -
  let ?base = "\<lambda>a b. case field of
            ByPeer \<Rightarrow> cmp (row_peer a) (row_peer b)
          | ByState \<Rightarrow> cmp (tui_rank (row_state a)) (tui_rank (row_state b))
          | ByBytesUp \<Rightarrow> cmp (row_bytes_up a) (row_bytes_up b)
          | ByBytesDown \<Rightarrow> cmp (row_bytes_down a) (row_bytes_down b)"
  have "comparison ?base" by (cases field) (simp_all add: comparison_cmp)
  then have "comparison (\<lambda>a b. if dir = Desc then reverse (?base a b) else ?base a b)"
    using comparison_reverse by (cases dir) auto
  from comparison_then_with [OF comparison_then_with [OF this comparison_cmp [of "\<lambda>r. id_pair (row_id r)"]]
      comparison_cmp [of "\<lambda>r. id_instance (row_id r)"]]
  show "comparison (order field dir)" unfolding order_def Let_def .
qed

lemma then_with_Equal_iff: "then_with r q = Equal \<longleftrightarrow> r = Equal \<and> q = Equal"
  by (cases r) auto

text \<open>Rows that compare equal are rows of the same connection.\<close>

lemma order_Equal_id: "order field dir a b = Equal \<Longrightarrow> row_id a = row_id b"
  by (auto simp: order_def Let_def then_with_Equal_iff cmp_def conn_id.expand split: if_splits)

section \<open>Search\<close>

lemma dropWhile_subseq:
  "subseq (x # xs) ys \<longleftrightarrow> (case dropWhile (\<lambda>y. y \<noteq> x) ys of [] \<Rightarrow> False | _ # zs \<Rightarrow> subseq xs zs)"
proof (induction ys)
  case Nil
  then show ?case by simp
next
  case (Cons y ys)
  then show ?case by (cases "y = x") auto
qed

lemma is_subsequence_iff: "is_subsequence q hay \<longleftrightarrow> subseq q hay"
proof (induction q hay rule: is_subsequence.induct)
  case (1 hay)
  then show ?case by simp
next
  case (2 nc ns hay)
  then show ?case unfolding is_subsequence.simps dropWhile_subseq
    by (simp split: list.splits del: dropWhile_eq_Nil_conv)
qed

section \<open>Visible rows\<close>

definition rows_at :: "lowercase \<Rightarrow> app \<Rightarrow> conn_row list" where
  "rows_at lc self = List.map_filter (\<lambda>a. row lc self a (lc (query self)))
     (resolve_at (app_timeline self) (tp_cursor (app_transport self)))"

lemma visible_eq: "visible lc self = sort_by (order (app_sort_field self) (app_sort_dir self)) (rows_at lc self)"
  by (simp add: visible_def rows_at_def Let_def)

lemma set_visible: "set (visible lc self) = set (rows_at lc self)"
  by (simp add: visible_eq)

lemma row_Some_id: "row lc self a q = Some r \<Longrightarrow> row_id r = ao_id a"
  by (auto simp: row_def Let_def split: option.splits if_splits)

text \<open>What the rows depend on.\<close>

lemma rows_at_cong:
  assumes "metas self' = metas self" and "query self' = query self" and "app_timeline self' = app_timeline self"
    and "tp_cursor (app_transport self') = tp_cursor (app_transport self)"
  shows "rows_at lc self' = rows_at lc self"
  using assms by (simp add: rows_at_def row_def)

lemma rows_at_sorting [simp]:
  "rows_at lc (self\<lparr>app_sort_field := f\<rparr>) = rows_at lc self"
  "rows_at lc (self\<lparr>app_sort_dir := d\<rparr>) = rows_at lc self"
  by (rule rows_at_cong; simp)+

section \<open>The selection\<close>

text \<open>The selected connection is a visible row; nothing is selected only when nothing is visible.\<close>

definition selection_ok :: "lowercase \<Rightarrow> app \<Rightarrow> bool" where
  "selection_ok lc self \<longleftrightarrow>
     (case selected self of
        None \<Rightarrow> rows_at lc self = []
      | Some i \<Rightarrow> i \<in> row_id ` set (rows_at lc self))"

lemma selection_ok_cong:
  assumes "selected self' = selected self" and "metas self' = metas self" and "query self' = query self"
    and "app_timeline self' = app_timeline self"
    and "tp_cursor (app_transport self') = tp_cursor (app_transport self)"
  shows "selection_ok lc self' = selection_ok lc self"
  unfolding selection_ok_def assms(1) rows_at_cong [OF assms(2-)] ..

lemma visible_Nil: "visible lc self = [] \<longleftrightarrow> rows_at lc self = []"
  by (metis set_visible set_empty)

lemma rows_at_selected [simp]: "rows_at lc (self\<lparr>selected := x\<rparr>) = rows_at lc self"
  by (rule rows_at_cong) simp_all

lemma visible_selected [simp]: "visible lc (self\<lparr>selected := x\<rparr>) = visible lc self"
  by (simp add: visible_eq)

lemma select_first_ok:
  "selection_ok lc (self\<lparr>selected := (case visible lc self of [] \<Rightarrow> None | r # _ \<Rightarrow> Some (row_id r))\<rparr>)"
proof (cases "visible lc self")
  case Nil
  then show ?thesis using visible_Nil [of lc self] by (simp add: selection_ok_def)
next
  case (Cons r rs)
  then have "r \<in> set (rows_at lc self)" using set_visible [of lc self] by auto
  then show ?thesis by (simp add: Cons selection_ok_def)
qed

lemma reconcile_ok [simp]: "selection_ok lc (reconcile_selection lc self)"
proof -
  have "selection_ok lc self" if "case selected self of None \<Rightarrow> False | Some i \<Rightarrow> list_ex (\<lambda>r. row_id r = i) (visible lc self)"
    using that set_visible [of lc self] by (auto simp: selection_ok_def list_ex_iff split: option.splits)
  then show ?thesis using select_first_ok [of lc self] by (simp add: reconcile_selection_def Let_def)
qed

text \<open>A valid selection is not changed by reconciling it.\<close>

lemma reconcile_id: "selection_ok lc self \<Longrightarrow> reconcile_selection lc self = self"
  using set_visible [of lc self] visible_Nil [of lc self]
  by (auto simp: selection_ok_def reconcile_selection_def Let_def list_ex_iff split: option.splits list.splits)

lemma reconcile_frame [simp]:
  "app_timeline (reconcile_selection lc self) = app_timeline self"
  "app_transport (reconcile_selection lc self) = app_transport self"
  "metas (reconcile_selection lc self) = metas self"
  "is_live (reconcile_selection lc self) = is_live self"
  "follow (reconcile_selection lc self) = follow self"
  "query (reconcile_selection lc self) = query self"
  "app_names (reconcile_selection lc self) = app_names self"
  by (simp_all add: reconcile_selection_def Let_def)

lemma position_Some: "position p xs = Some k \<Longrightarrow> k < length xs \<and> p (xs ! k)"
  by (induction xs arbitrary: k) (auto split: if_splits)

lemma position_None: "position p xs = None \<longleftrightarrow> (\<forall>x\<in>set xs. \<not> p x)"
  by (induction xs) auto

text \<open>Moving the selection selects a visible row.\<close>

lemma move_by_ok:
  "\<exists>sel. move_by lc self stp = Inr (self\<lparr>selected := sel\<rparr>) \<and> selection_ok lc (self\<lparr>selected := sel\<rparr>)"
proof (cases "visible lc self = []")
  case True
  then show ?thesis by (auto simp: move_by_def Let_def selection_ok_def visible_Nil)
next
  case False
  define vis where "vis = visible lc self"
  define cur where "cur = (case Option.bind (selected self) (\<lambda>i. position (\<lambda>r. row_id r = i) vis) of None \<Rightarrow> 0 | Some k \<Rightarrow> k)"
  define nxt where "nxt = (case stp of StepUp \<Rightarrow> cur - 1 | StepDown \<Rightarrow> min (cur + 1) (length vis - 1))"
  have "cur < length vis" using False
    by (auto simp: cur_def vis_def bind_eq_None_conv split: option.splits dest!: position_Some dest: bind_eq_Some_conv [THEN iffD1])
  then have n: "nxt < length vis" by (auto simp: nxt_def split: step.splits)
  then have "vis ! nxt \<in> set (rows_at lc self)" by (metis nth_mem set_visible vis_def)
  moreover have "move_by lc self stp = Inr (self\<lparr>selected := Some (row_id (vis ! nxt))\<rparr>)"
    using False n by (cases stp) (simp_all add: move_by_def Let_def nxt_def flip: vis_def cur_def)
  ultimately show ?thesis by (auto simp: selection_ok_def)
qed

section \<open>Row data\<close>

definition metas_ok :: "app \<Rightarrow> bool" where
  "metas_ok self \<longleftrightarrow> distinct (map fst (metas self))
     \<and> fst ` set (metas self) = conn_id ` set (connections (app_timeline self))"

lemma fold_update_keys:
  "distinct (map fst ms) \<Longrightarrow>
   distinct (map fst (fold (\<lambda>c. AList.update (k c) (v c)) cs ms))
   \<and> fst ` set (fold (\<lambda>c. AList.update (k c) (v c)) cs ms) = fst ` set ms \<union> k ` set cs"
proof (induction cs arbitrary: ms)
  case Nil
  then show ?case by simp
next
  case (Cons c cs)
  have "fst ` set (AList.update (k c) (v c) ms) = insert (k c) (fst ` set ms)"
    using arg_cong [OF update_conv' [of "k c" "v c" ms], of dom] by (simp add: dom_map_of_conv_image_fst)
  with Cons.IH [OF distinct_update [OF Cons.prems, of "k c" "v c"]] show ?case by auto
qed

lemma retarget_metas_ok:
  assumes "distinct (map fst ms)"
  shows "distinct (map fst (retarget_metas lc names tml ms))
    \<and> fst ` set (retarget_metas lc names tml ms) = conn_id ` set (connections tml)"
proof -
  define kept where "kept = filter (\<lambda>(i, _). i \<in> set (map conn_id (connections tml))) ms"
  define fresh where "fresh = filter (\<lambda>c. map_of kept (conn_id c) = None) (connections tml)"
  have d: "distinct (map fst kept)" using assms by (auto simp: kept_def distinct_map inj_on_def)
  have "fst ` set kept \<union> conn_id ` set fresh = conn_id ` set (connections tml)"
  proof (intro equalityI subsetI)
    show "i \<in> conn_id ` set (connections tml)" if "i \<in> fst ` set kept \<union> conn_id ` set fresh" for i
      using that by (auto simp: kept_def fresh_def)
    show "i \<in> fst ` set kept \<union> conn_id ` set fresh" if "i \<in> conn_id ` set (connections tml)" for i
      using that by (auto simp: fresh_def map_of_eq_None_iff)
  qed
  moreover have "retarget_metas lc names tml ms = fold (\<lambda>c. AList.update (conn_id c) (meta_for lc names c)) fresh kept"
    unfolding retarget_metas_def Let_def kept_def fresh_def ..
  ultimately show ?thesis using fold_update_keys [OF d, of conn_id "meta_for lc names" fresh] by simp
qed


section \<open>The invariant of the application\<close>

text \<open>
  The transport is sound, the row data belong to the connections of the timeline, nothing plays
  in live mode, and while following the cursor is at the end of the domain.
\<close>

definition app_ok :: "app \<Rightarrow> bool" where
  "app_ok self \<longleftrightarrow> transport_ok (app_transport self) \<and> metas_ok self
     \<and> (is_live self \<longrightarrow> \<not> playing (app_transport self))
     \<and> (follow self \<longrightarrow> is_live self \<and> tp_cursor (app_transport self) = tp_end (app_transport self))"

text \<open>States that differ only in what the invariant does not speak of.\<close>

lemma app_ok_cong:
  assumes "app_ok self" and "app_transport self' = app_transport self" and "metas self' = metas self"
    and "app_timeline self' = app_timeline self" and "is_live self' = is_live self" and "follow self' = follow self"
  shows "app_ok self'"
  using assms by (simp add: app_ok_def metas_ok_def)

lemma app_ok_reconcile [simp]: "app_ok (reconcile_selection lc self) = app_ok self"
  by (simp add: app_ok_def metas_ok_def)

text \<open>A key leads to a sound state; only the toggle of follow mode may leave the selection stale.\<close>

definition key_ok :: "lowercase \<Rightarrow> app \<Rightarrow> app \<Rightarrow> bool" where
  "key_ok lc self self' \<longleftrightarrow> app_ok self' \<and> is_live self' = is_live self
     \<and> app_timeline self' = app_timeline self \<and> tp_bounds (app_transport self') = tp_bounds (app_transport self)
     \<and> (selection_ok lc self \<longrightarrow> selection_ok lc self')"

lemma key_ok_refl: "app_ok self \<Longrightarrow> key_ok lc self self"
  by (simp add: key_ok_def)

lemma transport_cursor_ok:
  assumes "transport_ok tp"
  shows "\<exists>c. seek tp f = Inr (tp\<lparr>tp_cursor := c\<rparr>) \<and> transport_ok (tp\<lparr>tp_cursor := c\<rparr>)"
    and "\<exists>c. set_cursor tp t = Inr (tp\<lparr>tp_cursor := c\<rparr>) \<and> transport_ok (tp\<lparr>tp_cursor := c\<rparr>)"
  using assms by (auto simp: seek_def Let_def set_cursor_ok transport_ok_def intro: order_trans)

lemma app_cursor_ok:
  assumes "app_ok self" and "\<not> follow self"
    and "\<exists>c. f (app_transport self) = Inr ((app_transport self)\<lparr>tp_cursor := c\<rparr>)
           \<and> transport_ok ((app_transport self)\<lparr>tp_cursor := c\<rparr>)"
  shows "\<exists>self'. and_then (on_transport self f) (\<lambda>s. Inr (reconcile_selection lc s)) = Inr self' \<and> key_ok lc self self'"
  using assms by (auto simp: key_ok_def app_ok_def metas_ok_def on_transport_def tp_bounds_def)

lemma freeze_if_live_ok:
  assumes "app_ok self"
  shows "app_ok (freeze_if_live self)" and "\<not> follow (freeze_if_live self)"
    and "key_ok lc (freeze_if_live self) self' \<Longrightarrow> key_ok lc self self'"
proof -
  show ok: "app_ok (freeze_if_live self)" "\<not> follow (freeze_if_live self)"
    using assms by (auto simp: freeze_if_live_def app_ok_def metas_ok_def)
  have "selection_ok lc (freeze_if_live self) = selection_ok lc self"
    by (rule selection_ok_cong) (simp_all add: freeze_if_live_def)
  then show "key_ok lc self self'" if "key_ok lc (freeze_if_live self) self'"
    using that ok by (auto simp: key_ok_def freeze_if_live_def split: if_splits)
qed

lemma app_seek_ok: "app_ok self \<Longrightarrow> \<not> follow self \<Longrightarrow> \<exists>self'. app_seek lc self f = Inr self' \<and> key_ok lc self self'"
  unfolding app_seek_def by (rule app_cursor_ok) (auto simp: app_ok_def intro: transport_cursor_ok)

lemma step_forward_ok: "app_ok self \<Longrightarrow> \<not> follow self \<Longrightarrow> \<exists>self'. step_forward lc self = Inr self' \<and> key_ok lc self self'"
  unfolding step_forward_def
  by (auto split: option.splits intro!: app_cursor_ok key_ok_refl transport_cursor_ok simp: app_ok_def)

lemma step_back_ok: "app_ok self \<Longrightarrow> \<not> follow self \<Longrightarrow> \<exists>self'. step_back lc self = Inr self' \<and> key_ok lc self self'"
  unfolding step_back_def
  by (auto split: option.splits intro!: app_cursor_ok key_ok_refl transport_cursor_ok simp: app_ok_def)

lemma app_toggle_play_ok:
  assumes "app_ok self" and "\<not> is_live self"
  shows "key_ok lc self (app_toggle_play lc self)"
proof -
  have "transport_ok (toggle_play (app_transport self))"
    using transport_step_ok [of "app_transport self" TogglePlay] assms(1) by (simp add: app_ok_def)
  with assms show ?thesis
    by (auto simp: app_toggle_play_def key_ok_def app_ok_def metas_ok_def tp_bounds_def toggle_play_def Let_def)
qed

lemma app_tick_ok:
  assumes "app_ok self" and "\<not> is_live self"
  shows "\<exists>self'. app_tick lc self dt = Inr self' \<and> key_ok lc self self'"
proof -
  obtain tp where tp: "tick (app_transport self) dt = Inr tp" "transport_ok tp"
    using transport_step_ok [of "app_transport self" "Advance dt"] assms(1) by (auto simp: app_ok_def)
  have b: "tp_bounds tp = tp_bounds (app_transport self)"
    using tp(1) by (auto simp: tick_def Let_def tp_bounds_def split: if_splits prod.splits)
  let ?s = "self\<lparr>app_transport := tp\<rparr>"
  have ok: "app_ok ?s" using assms tp(2) by (auto simp: app_ok_def metas_ok_def)
  have "selection_ok lc ?s" if "tp_cursor tp = tp_cursor (app_transport self)" "selection_ok lc self"
    using that selection_ok_cong [of ?s self lc] by simp
  with ok b tp(1) show ?thesis
    by (auto simp: app_tick_def on_transport_def key_ok_def)
qed

lemma ui_key_ok:
  assumes "app_ok self"
  shows "key_ok lc self (cycle_sort self)" and "key_ok lc self (toggle_dir self)" and "key_ok lc self (enter_filter self)"
    and "key_ok lc self (open_detail self)" and "key_ok lc self (close_detail self)" and "key_ok lc self (cycle_detail_view self)"
    and "key_ok lc self (confirm_filter self)" and "key_ok lc self (cancel_filter lc self)" and "key_ok lc self (pop_filter lc self)"
    and "key_ok lc self (push_filter lc self c)" and "key_ok lc self (app_faster self)" and "key_ok lc self (app_slower self)"
proof -
  have sel: "selection_ok lc self'" if "selection_ok lc self" "selected self' = selected self" "metas self' = metas self"
    "query self' = query self" "app_timeline self' = app_timeline self"
    "tp_cursor (app_transport self') = tp_cursor (app_transport self)" for self'
    using that selection_ok_cong [of self' self lc] by blast
  note defs = key_ok_def cycle_sort_def toggle_dir_def enter_filter_def open_detail_def close_detail_def
    cycle_detail_view_def confirm_filter_def cancel_filter_def pop_filter_def push_filter_def
    app_faster_def app_slower_def tp_bounds_def Let_def
  note cong = app_ok_cong [OF assms]
  show "key_ok lc self (cycle_sort self)" "key_ok lc self (toggle_dir self)" "key_ok lc self (enter_filter self)"
    "key_ok lc self (open_detail self)" "key_ok lc self (close_detail self)" "key_ok lc self (cycle_detail_view self)"
    "key_ok lc self (confirm_filter self)" "key_ok lc self (cancel_filter lc self)" "key_ok lc self (pop_filter lc self)"
    "key_ok lc self (push_filter lc self c)"
    unfolding defs by (auto intro!: cong sel)
  show "key_ok lc self (app_faster self)" "key_ok lc self (app_slower self)"
    using assms unfolding defs
    by (auto intro!: sel simp: app_ok_def metas_ok_def transport_ok_def faster_def slower_def)
qed

lemma move_ok:
  assumes "app_ok self"
  shows "\<exists>self'. move_by lc self stp = Inr self' \<and> key_ok lc self self'"
  using move_by_ok [of lc self stp] app_ok_cong [OF assms] by (auto simp: key_ok_def)

lemma toggle_follow_ok:
  assumes "app_ok self" and "is_live self"
  shows "\<exists>self'. toggle_follow self = Inr self' \<and> app_ok self' \<and> is_live self'
    \<and> app_timeline self' = app_timeline self \<and> tp_bounds (app_transport self') = tp_bounds (app_transport self)"
proof -
  let ?tp = "app_transport self"
  have le: "tp_start ?tp \<le> tp_end ?tp" using assms(1) by (auto simp: app_ok_def transport_ok_def)
  then have "set_cursor ?tp (tp_end ?tp) = Inr (?tp\<lparr>tp_cursor := tp_end ?tp\<rparr>)"
    by (simp add: set_cursor_ok max_def)
  with assms le show ?thesis
    by (auto simp: toggle_follow_def Let_def on_transport_def app_ok_def metas_ok_def transport_ok_def tp_bounds_def)
qed

definition handled :: "lowercase \<Rightarrow> app \<Rightarrow> panic + app \<Rightarrow> bool" where
  "handled lc self r \<longleftrightarrow> (\<exists>self'. r = Inr self' \<and> (key_ok lc self self' \<or> is_live self \<and> toggle_follow self = Inr self'))"

lemma handled_if: "handled lc self a \<Longrightarrow> handled lc self b \<Longrightarrow> handled lc self (if p then a else b)"
  by simp

lemma handledI:
  "key_ok lc self self' \<Longrightarrow> handled lc self (Inr self')"
  "\<exists>self'. r = Inr self' \<and> key_ok lc self self' \<Longrightarrow> handled lc self r"
  by (auto simp: handled_def)

lemma handle_nav_ok:
  assumes "app_ok self"
  shows "\<exists>self' oc. handle_nav lc self code = Inr (self', oc)
    \<and> (key_ok lc self self' \<or> is_live self \<and> toggle_follow self = Inr self')"
proof -
  note ui = ui_key_ok [OF assms, THEN handledI(1)] and frz = freeze_if_live_ok [OF assms]
  have frozen: "handled lc self r" if "\<exists>self'. r = Inr self' \<and> key_ok lc (freeze_if_live self) self'" for r
    using that frz(3) by (auto simp: handled_def)
  note cursor = app_seek_ok [OF frz(1,2), THEN frozen] step_forward_ok [OF frz(1,2), THEN frozen]
    step_back_ok [OF frz(1,2), THEN frozen]
  have space: "handled lc self (if is_live self then toggle_follow self else Inr (app_toggle_play lc self))"
    using toggle_follow_ok [OF assms] app_toggle_play_ok [OF assms, of lc] by (auto simp: handled_def)
  have finish: "\<exists>self' oc. and_then r (\<lambda>s. Inr (s, Continue)) = Inr (self', oc)
      \<and> (key_ok lc self self' \<or> is_live self \<and> toggle_follow self = Inr self')" if "handled lc self r" for r
    using that by (auto simp: handled_def)
  show ?thesis
  proof (cases "code = ch CHR ''q''")
    case True
    then show ?thesis using key_ok_refl [OF assms] by (auto simp: handle_nav_def)
  next
    case False
    show ?thesis unfolding handle_nav_def if_not_P [OF False] move_up_def move_down_def
      by (intro finish handled_if space cursor ui move_ok [OF assms, THEN handledI(2)]
          key_ok_refl [OF assms, THEN handledI(1)])
  qed
qed

lemma handle_key_ok:
  assumes "app_ok self"
  shows "\<exists>self' oc. handle_key lc self key = Inr (self', oc)
    \<and> (key_ok lc self self' \<or> is_live self \<and> toggle_follow self = Inr self')"
proof -
  have "key_ok lc self (handle_filter lc self code)" for code
    using ui_key_ok [OF assms] key_ok_refl [OF assms]
    by (cases code) (auto simp: handle_filter_def)
  then show ?thesis using handle_nav_ok [OF assms] key_ok_refl [OF assms]
    by (cases "app_mode self") (auto simp: handle_key_def)
qed

lemma handle_key_frame:
  assumes "app_ok self" and "handle_key lc self key = Inr (self', oc)"
  shows "app_ok self'" and "is_live self' = is_live self" and "app_timeline self' = app_timeline self"
    and "tp_bounds (app_transport self') = tp_bounds (app_transport self)"
  using handle_key_ok [OF assms(1), of lc key] toggle_follow_ok [OF assms(1)] assms(2)
  by (auto simp: key_ok_def)

section \<open>Live snapshots\<close>

lemma retarget_ok:
  assumes "app_ok self" and "is_live self" and "horizon \<le> now"
  shows "\<exists>self'. retarget lc self tml horizon now status = Inr self' \<and> app_ok self' \<and> is_live self'
    \<and> follow self' = follow self \<and> app_timeline self' = tml
    \<and> tp_bounds (app_transport self') = (horizon, now) \<and> selection_ok lc self'"
proof -
  let ?ms = "retarget_metas lc (app_names self) tml (metas self)"
  let ?c = "max horizon (min now (tp_cursor (app_transport self)))"
  let ?tp = "(app_transport self)\<lparr>tp_start := horizon, tp_end := now, tp_cursor := ?c\<rparr>"
  let ?s1 = "self\<lparr>metas := ?ms, app_timeline := tml, app_live_status := status\<rparr>"
  let ?s = "?s1\<lparr>app_transport := (if follow self then ?tp\<lparr>tp_cursor := now\<rparr> else ?tp)\<rparr>"
  have "max horizon now = now" using assms(3) by (simp add: max_def)
  then have "retarget lc self tml horizon now status = Inr (reconcile_selection lc ?s)"
    using assms(3)
    by (simp add: retarget_def Let_def on_transport_def set_domain_def set_cursor_def clamp_ok)
  moreover have "app_ok ?s"
    using assms retarget_metas_ok [of "metas self" lc "app_names self" tml]
    by (auto simp: app_ok_def metas_ok_def transport_ok_def)
  ultimately show ?thesis using assms(2) by (auto simp: tp_bounds_def)
qed

section \<open>Construction\<close>

lemma new_with_names_ok:
  assumes "fst (bounds tml) \<le> snd (bounds tml)"
  shows "app_ok (new_with_names lc tml names title) \<and> selection_ok lc (new_with_names lc tml names title)
    \<and> \<not> is_live (new_with_names lc tml names title) \<and> \<not> follow (new_with_names lc tml names title)
    \<and> app_timeline (new_with_names lc tml names title) = tml
    \<and> tp_bounds (app_transport (new_with_names lc tml names title)) = bounds tml"
proof -
  let ?ms = "fold (\<lambda>c. AList.update (conn_id c) (meta_for lc names c)) (connections tml) []"
  let ?self = "\<lparr>app_timeline = tml, app_transport = transport_new (fst (bounds tml)) (snd (bounds tml)), metas = ?ms,
             app_sort_field = ByPeer, app_sort_dir = Asc, app_mode = Nav, query = [], selected = None,
             app_title = title, detail_open = False, app_detail_view = TimeSequence, is_live = False,
             follow = False, app_live_status = live_status_default, app_names = names\<rparr>"
  have "new_with_names lc tml names title =
      ?self\<lparr>selected := (case visible lc ?self of [] \<Rightarrow> None | r # _ \<Rightarrow> Some (row_id r))\<rparr>"
    by (simp add: new_with_names_def Let_def case_prod_beta)
  moreover have "transport_ok (transport_new (fst (bounds tml)) (snd (bounds tml)))"
    using assms by (simp add: transport_ok_def transport_new_def DEFAULT_SPEED_IDX_def)
  moreover have "distinct (map fst ?ms) \<and> fst ` set ?ms = conn_id ` set (connections tml)"
    using fold_update_keys [of "[]" conn_id "meta_for lc names" "connections tml"] by simp
  ultimately show ?thesis using select_first_ok [of lc ?self]
    by (simp add: app_ok_def metas_ok_def tp_bounds_def) (simp add: transport_new_def)
qed

lemma new_live_ok: "app_ok (new_live lc names title) \<and> is_live (new_live lc names title)"
proof -
  have b: "bounds (timeline_new []) = (0, 0)"
    by (simp add: timeline_new_def with_seq_def with_seq_ending_def bounds_def min_or_zero_def max_or_zero_def Let_def)
  then have "tp_cursor (app_transport (new_with_names lc (timeline_new []) names title)) = 0
      \<and> tp_end (app_transport (new_with_names lc (timeline_new []) names title)) = 0
      \<and> \<not> playing (app_transport (new_with_names lc (timeline_new []) names title))"
    by (simp add: new_with_names_def Let_def transport_new_def)
  with new_with_names_ok [of "timeline_new []" lc names title] b show ?thesis
    by (auto simp: new_live_def app_ok_def metas_ok_def)
qed

text \<open>The replay loop keeps the state sound, frame by frame.\<close>

lemma event_loop_ok:
  assumes "app_ok self" and "\<not> is_live self" and "selection_ok lc self"
  shows "\<exists>self'. event_loop lc self frames = Inr self' \<and> app_ok self' \<and> selection_ok lc self'
    \<and> app_timeline self' = app_timeline self \<and> tp_bounds (app_transport self') = tp_bounds (app_transport self)"
  using assms
proof (induction frames arbitrary: self)
  case Nil
  then show ?case by simp
next
  case (Cons fr frames)
  obtain key dt where fr: "fr = (key, dt)" by (cases fr)
  have "\<exists>s1 oc. (case key of None \<Rightarrow> Inr (self, Continue) | Some k \<Rightarrow> handle_key lc self k) = Inr (s1, oc) \<and> key_ok lc self s1"
    using handle_key_ok [OF Cons.prems(1), of lc] Cons.prems(2) key_ok_refl [OF Cons.prems(1)]
    by (cases key) auto
  then obtain s1 oc where s1: "(case key of None \<Rightarrow> Inr (self, Continue) | Some k \<Rightarrow> handle_key lc self k) = Inr (s1, oc)"
      "key_ok lc self s1" by blast
  show ?case
  proof (cases "oc = Quit")
    case True
    then show ?thesis using s1 Cons.prems by (auto simp: fr key_ok_def)
  next
    case False
    obtain s2 where s2: "app_tick lc s1 dt = Inr s2" "key_ok lc s1 s2"
      using app_tick_ok [of s1 lc dt] s1(2) Cons.prems(2) by (auto simp: key_ok_def)
    from Cons.IH [of s2] s1 s2 Cons.prems False show ?thesis by (auto simp: fr key_ok_def)
  qed
qed

text \<open>
  The contract between the live loop and the pipeline behind it: whatever arrives, a frame keeps
  the invariant of the pipeline and the soundness of a live application.
\<close>

locale live_pipeline =
  fixes next_frame :: "'s \<Rightarrow> app \<Rightarrow> 'f \<Rightarrow> panic + 's \<times> app"
    and inv :: "'f list \<Rightarrow> 's \<Rightarrow> bool"
    and lc :: lowercase
  assumes frame_ok: "inv (f # fs) s \<Longrightarrow> app_ok self \<Longrightarrow> is_live self \<Longrightarrow>
    \<exists>s' self'. next_frame s self f = Inr (s', self') \<and> inv fs s' \<and> app_ok self' \<and> is_live self'"
begin

lemma live_loop_ok:
  assumes "inv (map snd frames) s" and "app_ok self" and "is_live self"
  shows "\<exists>s' self'. live_loop lc next_frame s self frames = Inr (s', self') \<and> app_ok self' \<and> is_live self'"
  using assms
proof (induction frames arbitrary: s self)
  case Nil
  then show ?case by simp
next
  case (Cons fr frames)
  obtain key arrived where fr: "fr = (key, arrived)" by (cases fr)
  have "\<exists>s1 oc. (case key of None \<Rightarrow> Inr (self, Continue) | Some k \<Rightarrow> handle_key lc self k) = Inr (s1, oc)
      \<and> app_ok s1 \<and> is_live s1"
    using handle_key_ok [OF Cons.prems(2), of lc] handle_key_frame [OF Cons.prems(2)] Cons.prems
    by (cases key) (fastforce simp: key_ok_def)+
  then obtain s1 oc where s1: "(case key of None \<Rightarrow> Inr (self, Continue) | Some k \<Rightarrow> handle_key lc self k) = Inr (s1, oc)"
      "app_ok s1" "is_live s1" by blast
  show ?case
  proof (cases "oc = Quit")
    case True
    then show ?thesis using s1 by (auto simp: fr)
  next
    case False
    obtain s' s2 where s2: "next_frame s s1 arrived = Inr (s', s2)" "inv (map snd frames) s'" "app_ok s2" "is_live s2"
      using frame_ok [of arrived "map snd frames" s s1] s1 Cons.prems by (auto simp: fr)
    from Cons.IH [OF s2(2-4)] s1(1) s2(1) False show ?thesis by (auto simp: fr)
  qed
qed

end

section \<open>Properties\<close>

text \<open>
  Claim C33: replaying a timeline over an interval, the event loop never panics whatever keys are
  pressed and whatever time elapses; the cursor stays in the capture's bounds, and the selected
  connection is always one of the visible rows, nothing being selected only when no row is
  visible.
\<close>

theorem replay_loop_selection:
  assumes "fst (bounds tml) \<le> snd (bounds tml)"
  shows "\<exists>self. event_loop lc (new_with_names lc tml names title) frames = Inr self
    \<and> fst (bounds tml) \<le> tp_cursor (app_transport self) \<and> tp_cursor (app_transport self) \<le> snd (bounds tml)
    \<and> (case selected self of
         None \<Rightarrow> visible lc self = []
       | Some i \<Rightarrow> i \<in> row_id ` set (visible lc self))"
proof -
  note new = new_with_names_ok [OF assms, of lc names title]
  obtain self where self: "event_loop lc (new_with_names lc tml names title) frames = Inr self" "app_ok self"
      "selection_ok lc self" "tp_bounds (app_transport self) = bounds tml"
    using event_loop_ok [of "new_with_names lc tml names title" lc frames] new by auto
  have "fst (bounds tml) = tp_start (app_transport self)" "snd (bounds tml) = tp_end (app_transport self)"
    using self(4) by (auto simp: tp_bounds_def dest: sym)
  moreover have "case selected self of None \<Rightarrow> visible lc self = [] | Some i \<Rightarrow> i \<in> row_id ` set (visible lc self)"
    using self(3) by (auto simp: selection_ok_def visible_Nil set_visible split: option.splits)
  ultimately show ?thesis using self(1,2) by (auto simp: app_ok_def transport_ok_def)
qed

text \<open>
  Claim C34: the visible rows are exactly the rows of the connections resolved at the cursor whose
  search text has the lower-cased query as a subsequence, each once, and they are strictly
  ordered by the chosen column and direction with the connection identity as tie-break, so that
  the list does not depend on the order of the timeline.
\<close>

theorem visible_rows:
  assumes "distinct (map ao_id (resolve_at (app_timeline self) (tp_cursor (app_transport self))))"
  shows "set (visible lc self) =
      {r. \<exists>a m. a \<in> set (resolve_at (app_timeline self) (tp_cursor (app_transport self)))
         \<and> map_of (metas self) (ao_id a) = Some m
         \<and> subseq (lc (query self)) (search_prefix m @ utext '' '' @ lc (utext (state_debug (ao_state a))))
         \<and> r = \<lparr>row_id = ao_id a, row_peer = meta_peer m, row_host = meta_host m, row_service = meta_service m,
                row_state = ao_state a, row_origin_inferred = meta_origin_inferred m,
                row_bytes_up = ao_bytes_o2r a, row_bytes_down = ao_bytes_r2o a\<rparr>}
    \<and> distinct (map row_id (visible lc self))
    \<and> sorted_wrt (\<lambda>a b. order (app_sort_field self) (app_sort_dir self) a b = Less) (visible lc self)"
proof -
  let ?as = "resolve_at (app_timeline self) (tp_cursor (app_transport self))"
  let ?c = "order (app_sort_field self) (app_sort_dir self)"
  have set: "set (rows_at lc self) = {r. \<exists>a\<in>set ?as. row lc self a (lc (query self)) = Some r}"
    by (force simp: rows_at_def List.map_filter_def image_iff)
  have "distinct (map row_id (List.map_filter (\<lambda>a. row lc self a q) as))" if "distinct (map ao_id as)" for as q
    using that
  proof (induction as)
    case (Cons a as)
    have ne: "ao_id a \<noteq> row_id r" if "r \<in> set (List.map_filter (\<lambda>a. row lc self a q) as)" for r
    proof -
      from that obtain b where "b \<in> set as" "row lc self b q = Some r" by (auto simp: List.map_filter_def)
      with row_Some_id [OF this(2)] Cons.prems show ?thesis by (auto simp: image_iff)
    qed
    show ?case
    proof (cases "row lc self a q")
      case (Some r)
      with ne Cons show ?thesis by (auto simp: row_Some_id [OF Some] image_iff)
    qed (use Cons in simp)
  qed simp
  from this [OF assms] have "distinct (map row_id (rows_at lc self))" by (simp add: rows_at_def)
  then have dist: "distinct (map row_id (visible lc self))"
    unfolding visible_eq by (metis mset_eq_imp_distinct_iff mset_map rows.mset_sort_by)
  have srt: "sorted_wrt (\<lambda>a b. ?c a b \<noteq> Greater) (visible lc self)"
    unfolding visible_eq by (rule rows.sorted_sort_by)
  have "sorted_wrt (\<lambda>a b. ?c a b = Less) (visible lc self)"
    unfolding sorted_wrt_iff_nth_less
  proof (intro allI impI)
    fix i j assume ij: "i < j" "j < length (visible lc self)"
    then have "?c (visible lc self ! i) (visible lc self ! j) \<noteq> Greater"
      using srt by (simp add: sorted_wrt_iff_nth_less)
    moreover have "row_id (visible lc self ! i) \<noteq> row_id (visible lc self ! j)"
      using nth_eq_iff_index_eq [OF dist, of i j] ij by simp
    ultimately show "?c (visible lc self ! i) (visible lc self ! j) = Less"
      using order_Equal_id by (cases "?c (visible lc self ! i) (visible lc self ! j)") blast+
  qed
  moreover have "set (visible lc self) =
      {r. \<exists>a m. a \<in> set ?as \<and> map_of (metas self) (ao_id a) = Some m
         \<and> subseq (lc (query self)) (search_prefix m @ utext '' '' @ lc (utext (state_debug (ao_state a))))
         \<and> r = \<lparr>row_id = ao_id a, row_peer = meta_peer m, row_host = meta_host m, row_service = meta_service m,
                row_state = ao_state a, row_origin_inferred = meta_origin_inferred m,
                row_bytes_up = ao_bytes_o2r a, row_bytes_down = ao_bytes_r2o a\<rparr>}"
    unfolding set_visible set
    by (auto simp: row_def Let_def is_subsequence_iff split: option.splits if_splits)
  ultimately show ?thesis using dist by blast
qed

section \<open>Stepping\<close>

lemma next_then_prev:
  assumes "finite S" and "(c :: nanos) \<in> S" and "{x \<in> S. c < x} \<noteq> {}"
  shows "{x \<in> S. x < Min {x \<in> S. c < x}} \<noteq> {} \<and> Max {x \<in> S. x < Min {x \<in> S. c < x}} = c"
proof -
  let ?t = "Min {x \<in> S. c < x}"
  have t: "?t \<in> S" "c < ?t" using Min_in [OF _ assms(3)] assms(1) by auto
  have "x \<le> c" if "x \<in> S" "x < ?t" for x
  proof (rule ccontr)
    assume "\<not> x \<le> c"
    then have "?t \<le> x" using that(1) assms(1) by (intro Min_le) auto
    with that(2) show False by simp
  qed
  with t assms(1,2) have "Max {x \<in> S. x < ?t} = c" by (intro Max_eqI) auto
  with t assms(2) show ?thesis by blast
qed

lemma app_set_cursor:
  assumes "app_ok self" and "tp_start (app_transport self) \<le> t" and "t \<le> tp_end (app_transport self)"
  shows "on_transport self (\<lambda>tp. set_cursor tp t) = Inr (self\<lparr>app_transport := (app_transport self)\<lparr>tp_cursor := t\<rparr>\<rparr>)"
proof -
  have "tp_start (app_transport self) \<le> tp_end (app_transport self)" using assms(2,3) by (rule order_trans)
  from set_cursor_ok [OF this, of t] assms(2,3) show ?thesis by (simp add: on_transport_def max_def min_def)
qed

text \<open>
  Claim C40: stepping to the next event and back returns to the event the cursor was on: when the
  events of the timeline lie in the cursor's domain and there is an event after the cursor, a
  step forward moves the cursor to a later time and a step back from there moves it back.
\<close>

theorem step_round_trip:
  assumes "app_ok self" and "\<not> follow self" and "app_timeline self = with_seq_ending conns end'"
    and "\<forall>x\<in>all_times conns. tp_start (app_transport self) \<le> x \<and> x \<le> tp_end (app_transport self)"
    and "tp_cursor (app_transport self) \<in> all_times conns"
    and "next_event (app_timeline self) (tp_cursor (app_transport self)) \<noteq> None"
  shows "\<exists>s1 s2. step_forward lc self = Inr s1 \<and> tp_cursor (app_transport self) < tp_cursor (app_transport s1)
    \<and> step_back lc s1 = Inr s2 \<and> tp_cursor (app_transport s2) = tp_cursor (app_transport self)"
proof -
  define c where "c = tp_cursor (app_transport self)"
  let ?S = "{x \<in> all_times conns. c < x}"
  have ne: "?S \<noteq> {}" using assms(3,6) event_steps_eq(1) [of conns end' c] by (auto simp: c_def Let_def split: if_splits)
  define t where "t = Min ?S"
  have next': "next_event (app_timeline self) c = Some t"
    using ne by (simp add: assms(3) event_steps_eq(1) Let_def t_def)
  have t: "t \<in> all_times conns" "c < t" using Min_in [OF _ ne] by (auto simp: t_def)
  have prev: "prev_event (app_timeline self) t = Some c"
    using next_then_prev [OF finite_all_times, of c conns] ne assms(5)
    by (simp add: assms(3) event_steps_eq(2) Let_def t_def c_def)
  define s1 where "s1 = reconcile_selection lc (self\<lparr>app_transport := (app_transport self)\<lparr>tp_cursor := t\<rparr>\<rparr>)"
  have f: "step_forward lc self = Inr s1"
    using app_set_cursor [OF assms(1), of t] assms(4) t(1) next' by (simp add: step_forward_def c_def s1_def)
  have ok: "app_ok s1" using step_forward_ok [OF assms(1,2), of lc] f by (auto simp: key_ok_def)
  have s1: "app_transport s1 = (app_transport self)\<lparr>tp_cursor := t\<rparr>" "app_timeline s1 = app_timeline self"
    by (simp_all add: s1_def)
  have "step_back lc s1 = Inr (reconcile_selection lc (s1\<lparr>app_transport := (app_transport s1)\<lparr>tp_cursor := c\<rparr>\<rparr>))"
    using app_set_cursor [OF ok, of c] assms(4,5) prev by (simp add: step_back_def s1 c_def)
  with f t(2) show ?thesis by (auto simp: s1 c_def)
qed

section \<open>A capture with two connections\<close>

definition ascii_lower :: lowercase where
  "ascii_lower = map (\<lambda>c. if 65 \<le> c \<and> c \<le> 90 then c + 32 else c)"

definition example_client :: endpoint where
  "example_client = Endpoint (V4 0x0A000001) 40000"

definition example_conn :: "u16 \<Rightarrow> conn_state \<Rightarrow> nanos \<Rightarrow> nanos \<Rightarrow> connection" where
  "example_conn port st opened lst =
     (let server = Endpoint (V4 0x0A000002) port
      in \<lparr>conn_id = ConnId (pair_new example_client server) 0, conn_state = st,
          conn_origin = example_client, conn_responder = server, conn_origin_inferred = False,
          conn_opened_at = opened, conn_last_at = lst, conn_bytes_o2r = 10, conn_bytes_r2o = 20, conn_segments = 2\<rparr>)"

definition example_sample :: "nanos \<Rightarrow> conn_state \<Rightarrow> state_sample" where
  "example_sample t st = \<lparr>st_t = t, st_state = st, st_bytes_o2r = 10, st_bytes_r2o = 20\<rparr>"

definition example_conns :: "conn_series list" where
  "example_conns =
     [(example_conn 443 Closed 10 100, [example_sample 10 SynSent, example_sample 100 Closed], [], [], [], []),
      (example_conn 80 Established 50 120, [example_sample 50 SynSent, example_sample 120 Established], [], [], [], [])]"

definition example_timeline :: timeline where
  "example_timeline = with_seq_ending example_conns 200"

definition press :: "key_code \<Rightarrow> key_event" where
  "press code = \<lparr>ke_code = code, ke_control = False\<rparr>"

definition example_frames :: "(key_event option \<times> nanos) list" where
  "example_frames =
     [(Some (press (ch (CHR ''.''))), 1), (Some (press DownKey), 1), (None, 5),
      (Some (press (ch (CHR '' ''))), 30), (None, 40)]"

theorem replay_loop_selection_witness:
  "map_sum id (\<lambda>s. (tp_cursor (app_transport s), selected s))
     (event_loop ascii_lower (new_with_names ascii_lower example_timeline name_table_default []) example_frames)
   = Inr (120, Some (conn_id (example_conn 80 Established 50 120)))
   \<and> (\<exists>self. event_loop ascii_lower (new_with_names ascii_lower example_timeline name_table_default []) example_frames = Inr self
       \<and> 10 \<le> tp_cursor (app_transport self))"
proof
  show "map_sum id (\<lambda>s. (tp_cursor (app_transport s), selected s))
     (event_loop ascii_lower (new_with_names ascii_lower example_timeline name_table_default []) example_frames)
   = Inr (120, Some (conn_id (example_conn 80 Established 50 120)))" by code_simp
  have b: "bounds example_timeline = (10, 200)" by code_simp
  from replay_loop_selection [of example_timeline ascii_lower name_table_default "[]" example_frames]
  show "\<exists>self. event_loop ascii_lower (new_with_names ascii_lower example_timeline name_table_default []) example_frames = Inr self
       \<and> 10 \<le> tp_cursor (app_transport self)" by (auto simp: b)
qed

definition example_app :: app where
  "example_app = new_with_names ascii_lower example_timeline name_table_default []"

theorem visible_rows_witness:
  "map row_id (visible ascii_lower example_app) = [conn_id (example_conn 443 Closed 10 100)]
   \<and> distinct (map row_id (visible ascii_lower example_app))"
proof
  show "map row_id (visible ascii_lower example_app) = [conn_id (example_conn 443 Closed 10 100)]" by code_simp
  have "distinct (map ao_id (resolve_at (app_timeline example_app) (tp_cursor (app_transport example_app))))" by code_simp
  from visible_rows [OF this] show "distinct (map row_id (visible ascii_lower example_app))" by blast
qed

lemma all_times_example: "all_times example_conns = {10, 50, 100, 120}"
  by (auto simp: all_times_def example_conns_def example_sample_def)

theorem step_round_trip_witness:
  "\<exists>s1 s2. step_forward ascii_lower example_app = Inr s1 \<and> 10 < tp_cursor (app_transport s1)
    \<and> step_back ascii_lower s1 = Inr s2 \<and> tp_cursor (app_transport s2) = 10"
proof -
  have tml: "app_timeline example_app = with_seq_ending example_conns 200"
    and cur: "tp_cursor (app_transport example_app) = 10"
    and tp: "tp_start (app_transport example_app) = 10" "tp_end (app_transport example_app) = 200"
    and nxt: "next_event (app_timeline example_app) 10 \<noteq> None" by code_simp+
  have ok: "app_ok example_app" "\<not> follow example_app"
    using new_with_names_ok [of example_timeline ascii_lower name_table_default "[]"]
    by (simp_all add: example_app_def example_timeline_def bounds_def tl_start_eq all_times_example)
  from step_round_trip [OF ok tml, of ascii_lower] show ?thesis
    using nxt by (auto simp: cur tp all_times_example)
qed

text \<open>A live application that has been frozen on a closed connection and then follows again.\<close>

definition frozen_on_closed :: "panic + app" where
  "frozen_on_closed =
     and_then (retarget ascii_lower (new_live ascii_lower name_table_default []) example_timeline 0 200 live_status_default)
       (\<lambda>s0. try_fold (\<lambda>s k. map_sum id fst (handle_key ascii_lower s (press k))) s0
          [ch (CHR '',''), ch (CHR '',''), ch (CHR ''j''), ch (CHR ''j'')])"

text \<open>
  Resuming to follow a live capture moves the cursor without reconciling the selection: the
  selected connection may then not be among the visible rows until the next snapshot.
\<close>

theorem follow_keeps_stale_selection:
  "\<exists>s s' i. frozen_on_closed = Inr s \<and> handle_key ascii_lower s (press (ch (CHR '' ''))) = Inr (s', Continue)
     \<and> selected s = Some i \<and> i \<in> row_id ` set (visible ascii_lower s)
     \<and> selected s' = Some i \<and> i \<notin> row_id ` set (visible ascii_lower s') \<and> visible ascii_lower s' \<noteq> []"
proof -
  let ?i = "conn_id (example_conn 443 Closed 10 100)"
  have "map_sum id (\<lambda>s. (selected s, map row_id (visible ascii_lower s))) frozen_on_closed
      = Inr (Some ?i, [conn_id (example_conn 80 Established 50 120), ?i])" by code_simp
  from map_sum_InrD [OF this] obtain s where s0: "frozen_on_closed = Inr s"
      "(selected s, map row_id (visible ascii_lower s)) = (Some ?i, [conn_id (example_conn 80 Established 50 120), ?i])"
    by (elim exE conjE)
  note s = s0(1) s0(2) [unfolded prod.inject, THEN conjunct1] s0(2) [unfolded prod.inject, THEN conjunct2]
  have "map_sum id (\<lambda>so. (snd so, selected (fst so), map row_id (visible ascii_lower (fst so))))
      (and_then frozen_on_closed (\<lambda>s. handle_key ascii_lower s (press (ch (CHR '' '')))))
      = Inr (Continue, Some ?i, [conn_id (example_conn 80 Established 50 120)])" by code_simp
  from map_sum_InrD [OF this] obtain so where so: "handle_key ascii_lower s (press (ch (CHR '' ''))) = Inr so"
      "(snd so, selected (fst so), map row_id (visible ascii_lower (fst so)))
        = (Continue, Some ?i, [conn_id (example_conn 80 Established 50 120)])"
    unfolding s(1) and_then_simps by (elim exE conjE)
  define s' where "s' = fst so"
  have "so = (s', Continue)" using so(2) by (simp add: s'_def prod_eq_iff)
  then have s': "handle_key ascii_lower s (press (ch (CHR '' ''))) = Inr (s', Continue)" "selected s' = Some ?i"
      "map row_id (visible ascii_lower s') = [conn_id (example_conn 80 Established 50 120)]"
    using so by (simp_all only: prod.inject fst_conv)
  have ne: "conn_id (example_conn 80 Established 50 120) \<noteq> ?i" by code_simp
  have "?i \<in> set (map row_id (visible ascii_lower s))" unfolding s(3) by simp
  moreover have "?i \<notin> set (map row_id (visible ascii_lower s'))" unfolding s'(3) using ne by simp
  moreover have "visible ascii_lower s' \<noteq> []" using s'(3) by auto
  ultimately show ?thesis using s(1,2) s'(1,2) unfolding set_map by blast
qed

end
