(* ===== verification/Render_Properties.thy ===== *)
theory Render_Properties
  imports Render_Screen App_Properties
begin

text \<open>
  Correctness of the rendering (\<^verbatim>\<open>render.rs\<close>). The locale \<open>drawn_plot\<close> extends the contract of the
  projections with what a view adds to it (how marks are drawn, how high the plot is); inside it
  a pane is shown to be drawn without a panic and to show exactly the marks, and it is
  interpreted on the four views. The properties follow the samples to the screen, delimit the
  labels that fit, and relate the master list to the visible rows and the selection.
\<close>

section \<open>Views\<close>

definition cell_content :: "glyph option \<Rightarrow> content" where
  "cell_content g = (case g of Some k \<Rightarrow> Glyph k | None \<Rightarrow> Blank)"

text \<open>What a body draws once its projection is there.\<close>

definition plot_drawing :: "('p \<Rightarrow> ustring) \<Rightarrow> ('m \<Rightarrow> (nat \<times> nat) \<times> glyph \<times> color) \<Rightarrow> ('p \<Rightarrow> 'm list) \<Rightarrow> ('p \<Rightarrow> nat)
    \<Rightarrow> ('p \<Rightarrow> nanos \<times> nanos) \<Rightarrow> ('p \<Rightarrow> ustring) \<Rightarrow> ('p \<Rightarrow> ustring) \<Rightarrow> rect \<Rightarrow> 'p \<Rightarrow> panic + draw list" where
  "plot_drawing legend mark marks height span upper lower inner p =
     then_draw (Inr [RenderParagraph (legend p) None (legend_row inner)])
       (then_draw (draw_marks inner GUTTER (height p) mark (marks p))
         (draw_labels inner GUTTER (height p) (span p) (upper p) (lower p)))"

text \<open>
  The contract of a view: a projection that keeps the plot contract, with the way its marks and
  labels are read off for drawing.
\<close>

locale drawn_plot = plot_contract project positions line_col
  for project :: "'d \<Rightarrow> sample_dir \<Rightarrow> nanos \<times> nanos \<Rightarrow> nanos \<Rightarrow> nat \<Rightarrow> nat \<Rightarrow> panic + 'p option"
    and positions :: "'p \<Rightarrow> (nat \<times> nat) list"
    and line_col :: "'p \<Rightarrow> nat" +
  fixes marks :: "'p \<Rightarrow> 'm list"
    and mark :: "'m \<Rightarrow> (nat \<times> nat) \<times> glyph \<times> color"
    and height :: "'p \<Rightarrow> nat"
  assumes positions_marks: "positions p = map (fst \<circ> mark) (marks p)"
    and height_eq: "project d focus xsp cursor w h = Inr (Some p) \<Longrightarrow> height p = h"
begin

lemma drawing_eq:
  assumes "on_screen inner" and "rc_width inner = GUTTER + w" and "rc_height inner = h + 2"
    and "drawable xsp w h" and "project d focus xsp cursor w h = Inr (Some p)"
  shows "plot_area inner (project d focus xsp cursor) (plot_drawing legend mark marks height span upper lower inner) =
      Inr ([RenderParagraph (legend p) None (legend_row inner)] @ map (mark_call inner h \<circ> mark) (marks p)
        @ label_calls inner h (span p) (upper p) (lower p))"
    and "list_all (in_grid w h \<circ> fst \<circ> mark) (marks p)" and "distinct (map (fst \<circ> mark) (marks p))"
proof -
  from drawn [OF assms(4), of d focus cursor] assms(5) have m: "marks_ok w h (positions p) (line_col p)" by auto
  then show grid: "list_all (in_grid w h \<circ> fst \<circ> mark) (marks p)" and "distinct (map (fst \<circ> mark) (marks p))"
    by (simp_all add: marks_ok_def positions_marks list.pred_map comp_assoc)
  have "draw_labels inner GUTTER h (span p) (upper p) (lower p) = Inr (label_calls inner h (span p) (upper p) (lower p))"
    using assms(1-4) by (intro draw_labels_ok) simp_all
  with draw_marks_ok [OF assms(1-3) grid] height_eq [OF assms(5)] assms(2,3,5)
  show "plot_area inner (project d focus xsp cursor) (plot_drawing legend mark marks height span upper lower inner) =
      Inr ([RenderParagraph (legend p) None (legend_row inner)] @ map (mark_call inner h \<circ> mark) (marks p)
        @ label_calls inner h (span p) (upper p) (lower p))"
    by (simp add: plot_area_def plot_drawing_def sub16_def)
qed

lemma body_safe:
  assumes "within inner a" and "rc_x a = 0" and "on_screen a" and "fst xsp \<le> snd xsp"
    and "3 \<le> rc_height inner" and "GUTTER < rc_width inner"
  shows "\<exists>ds. plot_area inner (project d focus xsp cursor) (plot_drawing legend mark marks height span upper lower inner) = Inr ds
    \<and> list_all (starts_in a) ds"
proof -
  define w h where "w = rc_width inner - GUTTER" and "h = rc_height inner - 2"
  have size: "rc_width inner = GUTTER + w" "rc_height inner = h + 2" using assms(5,6) by (simp_all add: w_def h_def)
  have os: "on_screen inner" using assms(1,3) by (rule on_screen_within)
  show ?thesis
  proof (cases "drawable xsp w h")
    case True
    then obtain p where p: "project d focus xsp cursor w h = Inr (Some p)" using drawn by blast
    note eq = drawing_eq [OF os size True p]
    have "0 < h" using True by simp
    with label_calls_start [OF assms(1,2) os assms(6) size(2)] mark_calls_start [OF assms(1) size eq(2)]
    show ?thesis unfolding eq(1) by simp
  next
    case False
    then have "w < MIN_W \<or> h < MIN_H" using os assms(4) by (auto simp: drawable_def on_screen_def size)
    then have "project d focus xsp cursor w h = Inr None" by (rule small)
    then show ?thesis by (simp add: plot_area_def sub16_def size)
  qed
qed

lemma body_cells:
  assumes "on_screen inner" and "rc_width inner = GUTTER + w" and "rc_height inner = h + 2"
    and "drawable xsp w h" and "project d focus xsp cursor w h = Inr (Some p)"
    and "length (upper p) \<le> GUTTER" and "length (lower p) \<le> GUTTER"
  shows "\<exists>ds. plot_area inner (project d focus xsp cursor) (plot_drawing legend mark marks height span upper lower inner) = Inr ds
    \<and> (\<forall>c<w. \<forall>r<h. shown ds (cell_x inner c) (cell_y inner h r) =
         cell_content (map_option (\<lambda>m. fst (snd (mark m))) (find (\<lambda>m. fst (mark m) = (c, r)) (marks p))))"
proof -
  note eq = drawing_eq [OF assms(1-5)]
  have "\<not> in_rect (legend_row inner) (cell_x inner c) (cell_y inner h r)" if "r < h" for c r
  proof -
    have "rc_y inner < cell_y inner h r" using that by (simp add: cell_y_def)
    then show ?thesis by (simp add: in_rect_def legend_row_def)
  qed
  then show ?thesis unfolding eq(1)
    using marks_shown [OF eq(2,3)] labels_beside_plot [OF assms(6,7)]
    by (auto simp: shown_def cell_content_def split: option.splits)
qed

end

text \<open>The four views.\<close>

abbreviation seq_mark :: "mark \<Rightarrow> (nat \<times> nat) \<times> glyph \<times> color" where
  "seq_mark m \<equiv> ((mk_col m, mk_row m), mk_glyph m, seq_color (mk_glyph m))"

abbreviation peak_mark :: "(series_tag \<Rightarrow> color) \<Rightarrow> smark \<Rightarrow> (nat \<times> nat) \<times> glyph \<times> color" where
  "peak_mark co m \<equiv> ((sm_col m, sm_row m), sm_glyph m, co (sm_series m))"

lemma seq_project_fields:
  assumes "seq_project series focus xsp cursor w h = Inr (Some p)"
  shows "sp_height p = h" "sp_x_span p = xsp" "sp_max_rel p = seq_max_rel series focus"
    and "fst xsp \<le> snd xsp \<Longrightarrow> sp_cursor_col p = col_of (max (fst xsp) (min (snd xsp) cursor)) (fst xsp) (sat_sub (snd xsp) (fst xsp)) w"
  using assms by (auto simp: seq_project_def Let_def and_then_Inr_iff clamp_ok split: if_splits)

lemma finish_plot_fields:
  assumes "finish_plot g xsp tag grid = Inr (Some p)"
  shows "pp_height p = g_height g" "pp_x_span p = xsp" "pp_max p = g_max g"
  using assms by (auto simp: finish_plot_def Let_def and_then_Inr_iff)

lemma inflight_project_max:
  assumes "inflight_project wire overlay focus xsp cursor w h = Inr (Some p)"
  shows "pp_max p = u64_max_or_zero (map if_bytes (filter (\<lambda>s. if_dir s = focus) (wire @ overlay)))"
  using assms by (auto simp: inflight_project_def Let_def and_then_Inr_iff make_geom_def
      dest!: finish_plot_fields(3) split: if_splits)

lemma inflight_project_fields:
  assumes "inflight_project wire overlay focus xsp cursor w h = Inr (Some p)"
  shows "pp_height p = h"
  using assms by (auto simp: inflight_project_def Let_def and_then_Inr_iff make_geom_def
      dest!: finish_plot_fields(1) split: if_splits)

lemma rtt_project_fields:
  assumes "rtt_project wire overlay focus xsp cursor w h = Inr (Some p)"
  shows "pp_height p = h"
  using assms by (auto simp: rtt_project_def Let_def and_then_Inr_iff make_geom_def
      dest!: finish_plot_fields(1) split: if_splits)

lemma throughput_project_fields:
  assumes "throughput_project wire focus xsp cursor w h = Inr (Some p)"
  shows "pp_height p = h"
  using assms by (auto simp: throughput_project_def Let_def and_then_Inr_iff make_geom_def
      dest!: finish_plot_fields(1) split: if_splits)

interpretation seq_view: drawn_plot seq_project "\<lambda>p. map mark_pos (sp_marks p)" sp_cursor_col sp_marks seq_mark sp_height
  by unfold_locales (auto simp: seq_project_fields)

interpretation inflight_view: drawn_plot "\<lambda>d. inflight_project (fst d) (snd d)" "\<lambda>p. map smark_pos (pp_marks p)" pp_cursor_col
    pp_marks "peak_mark inflight_color" pp_height
  by unfold_locales (auto simp: inflight_project_fields)

interpretation rtt_view: drawn_plot "\<lambda>d. rtt_project (fst d) (snd d)" "\<lambda>p. map smark_pos (pp_marks p)" pp_cursor_col
    pp_marks "peak_mark rtt_color" pp_height
  by unfold_locales (auto simp: rtt_project_fields)

interpretation throughput_view: drawn_plot throughput_project "\<lambda>p. map smark_pos (pp_marks p)" pp_cursor_col
    pp_marks "peak_mark throughput_color" pp_height
  by unfold_locales (auto simp: throughput_project_fields)

lemma seq_body_eq:
  "render_seq_body self inner fc =
     plot_area inner (seq_project (fc_series fc) (fc_focus_dir fc) (fc_x_span fc) (app_cursor self))
       (plot_drawing (\<lambda>p. utext ''Time/Sequence   '' @ [RETRANS_GLYPH] @ utext '' retrans  '' @ [SACK_GLYPH] @ utext '' sack'')
         seq_mark sp_marks sp_height sp_x_span (\<lambda>p. utext (fmt_seq (sp_max_rel p))) (\<lambda>p. utext ''0'') inner)"
  by (simp add: render_seq_body_def plot_drawing_def [abs_def] draw_legend_def draw_plot_def draw_axes_def)

lemma inflight_body_eq:
  "render_inflight_body self inner fc =
     plot_area inner (inflight_project (fc_inflight fc) [] (fc_focus_dir fc) (fc_x_span fc) (app_cursor self))
       (plot_drawing (\<lambda>p. utext ''In-flight   '' @ [WIRE_GLYPH] @ utext '' wire'')
         (peak_mark inflight_color) pp_marks pp_height pp_x_span
         (\<lambda>p. utext (fmt_seq (i64_of (pp_max p)))) (\<lambda>p. utext ''0'') inner)"
  by (simp add: render_inflight_body_def plot_drawing_def [abs_def] draw_inflight_legend_def draw_inflight_plot_def
      draw_inflight_axes_def)

lemma rtt_body_eq:
  "render_rtt_body self inner fc =
     plot_area inner (rtt_project (fc_rtt fc) [] (fc_focus_dir fc) (fc_x_span fc) (app_cursor self))
       (plot_drawing (\<lambda>p. utext ''RTT   '' @ [RAW_GLYPH] @ utext '' raw  '' @ [SMOOTHED_GLYPH] @ utext '' smoothed'')
         (peak_mark rtt_color) pp_marks pp_height pp_x_span (\<lambda>p. fmt_rtt (pp_max p)) (\<lambda>p. fmt_rtt 0) inner)"
  by (simp add: render_rtt_body_def plot_drawing_def [abs_def] draw_rtt_legend_def draw_rtt_plot_def draw_rtt_axes_def)

lemma throughput_body_eq:
  "render_throughput_body self inner fc =
     plot_area inner (throughput_project (fc_throughput fc) (fc_focus_dir fc) (fc_x_span fc) (app_cursor self))
       (plot_drawing (\<lambda>p. utext (''Throughput ['' @ fst (rate_unit (pp_max p)) @ '']  '') @ [THROUGHPUT_GLYPH] @ utext '' total  ''
            @ [GOODPUT_GLYPH] @ utext '' goodput'')
         (peak_mark throughput_color) pp_marks pp_height pp_x_span
         (\<lambda>p. utext (fmt_rate_scaled (pp_max p) (snd (rate_unit (pp_max p)))))
         (\<lambda>p. utext (fmt_rate_scaled 0 (snd (rate_unit (pp_max p))))) inner)"
  by (simp add: render_throughput_body_def plot_drawing_def [abs_def] draw_throughput_legend_def draw_throughput_plot_def
      draw_throughput_axes_def case_prod_beta)

section \<open>The value axis\<close>

lemma fold_min_le: "fold min xs (y :: int) \<le> y \<and> (\<forall>x\<in>set xs. fold min xs y \<le> x)"
proof (induction xs arbitrary: y)
  case (Cons x xs)
  from Cons.IH [of "min x y"] show ?case by auto
qed simp

lemma fold_max_ge: "(y :: int) \<le> fold max xs y"
proof (induction xs arbitrary: y)
  case (Cons x xs)
  from Cons.IH [of "max x y"] show ?case by auto
qed simp

lemma seq_max_rel_nonneg: "0 \<le> seq_max_rel series focus"
proof (cases "filter (\<lambda>s. sq_dir s = focus) series")
  case Nil
  then show ?thesis by (simp add: seq_max_rel_def int_max_or_zero_def)
next
  case (Cons s ss)
  have "seq_base series focus \<le> sq_rel s"
    using fold_min_le [of "map sq_rel ss" "sq_rel s"] by (simp add: seq_base_def int_min_or_zero_def Cons)
  then have "0 \<le> sq_rel s - seq_base series focus + uint (sq_len s)" by simp
  also have "\<dots> \<le> seq_max_rel series focus"
    using fold_max_ge by (simp add: seq_max_rel_def int_max_or_zero_def Cons)
  finally show ?thesis .
qed

lemma i64_of_small: "unat n < 10 ^ 17 \<Longrightarrow> 0 \<le> i64_of n \<and> i64_of n < 10 ^ 17"
proof -
  assume "unat n < 10 ^ 17"
  then have "int (unat n) < int (10 ^ 17)" by (simp only: of_nat_less_iff)
  then have "uint n < 10 ^ 17" by simp
  then show ?thesis unfolding i64_of_def by simp
qed

section \<open>What the panes show\<close>

text \<open>A pane on the screen that is large enough for a plot of \<open>w\<close> by \<open>h\<close> cells.\<close>

definition pane :: "rect \<Rightarrow> nat \<Rightarrow> nat \<Rightarrow> bool" where
  "pane inner w h \<longleftrightarrow> on_screen inner \<and> rc_width inner = GUTTER + w \<and> rc_height inner = h + 2
     \<and> MIN_W \<le> w \<and> MIN_H \<le> h"

lemma pane_drawable: "pane inner w h \<Longrightarrow> fst xsp \<le> snd xsp \<Longrightarrow> drawable xsp w h"
  by (simp add: pane_def drawable_def on_screen_def)

lemma pane_rect: "pane inner w h \<Longrightarrow> on_screen inner \<and> rc_width inner = GUTTER + w \<and> rc_height inner = h + 2"
  by (simp add: pane_def)

text \<open>The cells of a pane show the marks of a peak plot, and nothing else.\<close>

definition shows_marks :: "draw list \<Rightarrow> rect \<Rightarrow> nat \<Rightarrow> nat \<Rightarrow> smark list \<Rightarrow> bool" where
  "shows_marks ds inner w h ms \<longleftrightarrow>
     (\<forall>c<w. \<forall>r<h. shown ds (cell_x inner c) (cell_y inner h r) =
        cell_content (map_option sm_glyph (find (\<lambda>m. smark_pos m = (c, r)) ms)))"

definition cursor_column :: "nanos \<times> nanos \<Rightarrow> nanos \<Rightarrow> nat \<Rightarrow> nat" where
  "cursor_column xsp cursor w = col_of (max (fst xsp) (min (snd xsp) cursor)) (fst xsp) (sat_sub (snd xsp) (fst xsp)) w"

lemma seq_pane_cells:
  assumes "pane inner w h" and "fst (fc_x_span fc) \<le> snd (fc_x_span fc)"
    and "seq_max_rel (fc_series fc) (fc_focus_dir fc) < 10 ^ 17"
  shows "\<exists>ds. render_seq_body self inner fc = Inr ds
    \<and> (\<forall>c<w. \<forall>r<h. shown ds (cell_x inner c) (cell_y inner h r) =
         cell_content (case salient_glyph (map sq_kind (filter (\<lambda>s. seq_cell (fc_series fc) (fc_focus_dir fc) (fc_x_span fc) w h s = (c, r))
             (seq_revealed (fc_series fc) (fc_focus_dir fc) (app_cursor self)))) of
            Some g \<Rightarrow> Some g
          | None \<Rightarrow> if c = cursor_column (fc_x_span fc) (app_cursor self) w then Some CURSOR_GLYPH else None))"
proof -
  have size: "MIN_W \<le> w" "MIN_H \<le> h" using assms(1) by (simp_all add: pane_def)
  obtain p where p: "seq_project (fc_series fc) (fc_focus_dir fc) (fc_x_span fc) (app_cursor self) w h = Inr (Some p)"
      "\<forall>c<w. \<forall>r<h. map_option mk_glyph (find (\<lambda>m. mark_pos m = (c, r)) (sp_marks p)) =
         (case salient_glyph (map sq_kind (filter (\<lambda>s. seq_cell (fc_series fc) (fc_focus_dir fc) (fc_x_span fc) w h s = (c, r))
             (seq_revealed (fc_series fc) (fc_focus_dir fc) (app_cursor self)))) of
            Some g \<Rightarrow> Some g
          | None \<Rightarrow> if c = sp_cursor_col p then Some CURSOR_GLYPH else None)"
    using seq_project_ok [OF size assms(2), of "fc_series fc" "fc_focus_dir fc" "app_cursor self"] by blast
  note f = seq_project_fields [OF p(1)]
  have up: "length (utext (fmt_seq (sp_max_rel p))) \<le> GUTTER" "length (utext ''0'') \<le> GUTTER"
    using fmt_seq_short [OF seq_max_rel_nonneg assms(3)] by (simp_all add: f GUTTER_def)
  note r = pane_rect [OF assms(1)]
  note cells = seq_view.body_cells [where d = "fc_series fc" and upper = "\<lambda>p. utext (fmt_seq (sp_max_rel p))"
      and lower = "\<lambda>p. utext ''0''" and span = sp_x_span and p = p, unfolded fst_conv snd_conv,
      OF conjunct1 [OF r] conjunct1 [OF conjunct2 [OF r]] conjunct2 [OF conjunct2 [OF r]] pane_drawable [OF assms(1,2)] p(1) up]
  have "\<exists>ds. render_seq_body self inner fc = Inr ds
      \<and> (\<forall>c<w. \<forall>r<h. shown ds (cell_x inner c) (cell_y inner h r) =
         cell_content (map_option mk_glyph (find (\<lambda>m. mark_pos m = (c, r)) (sp_marks p))))"
    unfolding seq_body_eq by (rule cells)
  then obtain ds where ds: "render_seq_body self inner fc = Inr ds"
      "\<forall>c<w. \<forall>r<h. shown ds (cell_x inner c) (cell_y inner h r) =
         cell_content (map_option mk_glyph (find (\<lambda>m. mark_pos m = (c, r)) (sp_marks p)))"
    by (elim exE conjE)
  show ?thesis
  proof (intro exI conjI allI impI)
    fix c r assume cr: "c < w" "r < h"
    show "shown ds (cell_x inner c) (cell_y inner h r) =
         cell_content (case salient_glyph (map sq_kind (filter (\<lambda>s. seq_cell (fc_series fc) (fc_focus_dir fc) (fc_x_span fc) w h s = (c, r))
             (seq_revealed (fc_series fc) (fc_focus_dir fc) (app_cursor self)))) of
            Some g \<Rightarrow> Some g
          | None \<Rightarrow> if c = cursor_column (fc_x_span fc) (app_cursor self) w then Some CURSOR_GLYPH else None)"
      unfolding ds(2) [rule_format, OF cr] p(2) [rule_format, OF cr] f(4) [OF assms(2)] cursor_column_def ..
  qed (rule ds(1))
qed

text \<open>The peak plots.\<close>

lemma inflight_pane_cells:
  assumes "pane inner w h" and "fst (fc_x_span fc) \<le> snd (fc_x_span fc)"
    and "inflight_project (fc_inflight fc) [] (fc_focus_dir fc) (fc_x_span fc) (app_cursor self) w h = Inr (Some p)"
    and "unat (pp_max p) < 10 ^ 17"
  shows "\<exists>ds. render_inflight_body self inner fc = Inr ds \<and> shows_marks ds inner w h (pp_marks p)"
proof -
  note r = pane_rect [OF assms(1)]
  have lab: "length (utext (fmt_seq (i64_of (pp_max p)))) \<le> GUTTER" "length (utext ''0'') \<le> GUTTER"
    using fmt_seq_short i64_of_small [OF assms(4)] by (simp_all add: GUTTER_def)
  note cells = inflight_view.body_cells [where d = "(fc_inflight fc, [])" and upper = "\<lambda>p. utext (fmt_seq (i64_of (pp_max p)))"
      and lower = "\<lambda>p. utext ''0''" and span = pp_x_span and p = p, unfolded fst_conv snd_conv,
      OF conjunct1 [OF r] conjunct1 [OF conjunct2 [OF r]] conjunct2 [OF conjunct2 [OF r]] pane_drawable [OF assms(1,2)] assms(3) lab]
  show ?thesis unfolding inflight_body_eq shows_marks_def by (rule cells)
qed

lemma throughput_pane_cells:
  assumes "pane inner w h" and "fst (fc_x_span fc) \<le> snd (fc_x_span fc)"
    and "throughput_project (fc_throughput fc) (fc_focus_dir fc) (fc_x_span fc) (app_cursor self) w h = Inr (Some p)"
    and "unat (pp_max p) < 10 ^ 13"
  shows "\<exists>ds. render_throughput_body self inner fc = Inr ds \<and> shows_marks ds inner w h (pp_marks p)"
proof -
  note r = pane_rect [OF assms(1)]
  have lab: "length (utext (fmt_rate_scaled (pp_max p) (snd (rate_unit (pp_max p))))) \<le> GUTTER"
      "length (utext (fmt_rate_scaled 0 (snd (rate_unit (pp_max p))))) \<le> GUTTER"
    using fmt_rate_short [OF assms(4)] by (metis length_utext prod.collapse)+
  note cells = throughput_view.body_cells [where d = "fc_throughput fc" and upper = "\<lambda>p. utext (fmt_rate_scaled (pp_max p) (snd (rate_unit (pp_max p))))"
      and lower = "\<lambda>p. utext (fmt_rate_scaled 0 (snd (rate_unit (pp_max p))))" and span = pp_x_span and p = p, unfolded fst_conv snd_conv,
      OF conjunct1 [OF r] conjunct1 [OF conjunct2 [OF r]] conjunct2 [OF conjunct2 [OF r]] pane_drawable [OF assms(1,2)] assms(3) lab]
  show ?thesis unfolding throughput_body_eq shows_marks_def by (rule cells)
qed

lemma rtt_zero_label: "length (fmt_rtt 0) \<le> GUTTER"
  by (simp add: fmt_rtt_def RTT_UNITS_def GUTTER_def show_base.simps [of 10 0])

lemma rtt_pane_cells:
  assumes "pane inner w h" and "fst (fc_x_span fc) \<le> snd (fc_x_span fc)"
    and "rtt_project (fc_rtt fc) [] (fc_focus_dir fc) (fc_x_span fc) (app_cursor self) w h = Inr (Some p)"
    and "length (fmt_rtt (pp_max p)) \<le> GUTTER"
  shows "\<exists>ds. render_rtt_body self inner fc = Inr ds \<and> shows_marks ds inner w h (pp_marks p)"
proof -
  note r = pane_rect [OF assms(1)]
  note cells = rtt_view.body_cells [where d = "(fc_rtt fc, [])" and upper = "\<lambda>p. fmt_rtt (pp_max p)"
      and lower = "\<lambda>p. fmt_rtt 0" and span = pp_x_span and p = p, unfolded fst_conv snd_conv,
      OF conjunct1 [OF r] conjunct1 [OF conjunct2 [OF r]] conjunct2 [OF conjunct2 [OF r]] pane_drawable [OF assms(1,2)] assms(3,4) rtt_zero_label]
  show ?thesis unfolding rtt_body_eq shows_marks_def by (rule cells)
qed

text \<open>A label longer than the gutter overwrites the plot's first cells of its row.\<close>

lemma rtt_pane_overwritten:
  assumes "pane inner w h" and "fst (fc_x_span fc) \<le> snd (fc_x_span fc)"
    and "rtt_project (fc_rtt fc) [] (fc_focus_dir fc) (fc_x_span fc) (app_cursor self) w h = Inr (Some p)"
    and "GUTTER < length (fmt_rtt (pp_max p))"
  shows "\<exists>ds. render_rtt_body self inner fc = Inr ds
    \<and> shown ds (cell_x inner 0) (cell_y inner h (h - 1)) = Glyph (fmt_rtt (pp_max p) ! GUTTER)"
proof -
  note r = pane_rect [OF assms(1)]
  have h: "3 \<le> h" using assms(1) by (simp add: pane_def MIN_H_def)
  have pad: "pad_label (fmt_rtt (pp_max p)) = fmt_rtt (pp_max p)" using assms(4) by (simp add: pad_label_def GUTTER_def)
  note eq = rtt_view.drawing_eq(1) [where d = "(fc_rtt fc, [])" and upper = "\<lambda>p. fmt_rtt (pp_max p)"
      and lower = "\<lambda>p. fmt_rtt 0" and span = pp_x_span and p = p, unfolded fst_conv snd_conv,
      OF conjunct1 [OF r] conjunct1 [OF conjunct2 [OF r]] conjunct2 [OF conjunct2 [OF r]] pane_drawable [OF assms(1,2)] assms(3)]
  have y: "cell_y inner h (h - 1) = rc_y inner + 1" using h by (simp add: cell_y_def)
  have "fold (paint (cell_x inner 0) (rc_y inner + 1)) (label_calls inner h xsp (fmt_rtt (pp_max p)) lower) old
      = Glyph (fmt_rtt (pp_max p) ! GUTTER)" for xsp lower old
    using h assms(4) by (simp add: label_calls_def Let_def cell_x_def pad)
  then show ?thesis unfolding rtt_body_eq eq y by (simp add: shown_def)
qed

section \<open>Frames\<close>

text \<open>
  What the code relies on of the terminal library: a layout gives parts of the area it splits,
  the inside of a block is a part of its area.
\<close>

definition toolkit_ok :: "toolkit \<Rightarrow> bool" where
  "toolkit_ok tk \<longleftrightarrow>
     (\<forall>dir cs a. within (fst (tk_split tk dir cs a)) a \<and> within (snd (tk_split tk dir cs a)) a)
     \<and> (\<forall>b a. within (tk_inner tk b a) a)"

text \<open>Every connection of a timeline ends no earlier than it was opened.\<close>

definition spans_ok :: "timeline \<Rightarrow> bool" where
  "spans_ok tml \<longleftrightarrow> (\<forall>e\<in>set (entries tml). conn_opened_at (e_conn e) \<le> effective_end e)"

lemma focus_span:
  assumes "spans_ok (app_timeline self)" and "app_focus self = Some fc"
  shows "fst (fc_x_span fc) \<le> snd (fc_x_span fc)"
proof -
  obtain i where i: "x_span (app_timeline self) i = Some (fc_x_span fc)"
    using assms(2) by (auto simp: app_focus_def bind_eq_Some_conv)
  then obtain e where "find_entry (app_timeline self) i = Some e" "fc_x_span fc = (conn_opened_at (e_conn e), effective_end e)"
    by (auto simp: x_span_def)
  then show ?thesis using assms(1) by (auto simp: find_entry_def spans_ok_def find_Some_iff)
qed

lemma render_detail_ok:
  assumes "toolkit_ok tk" and "on_screen a" and "rc_x a = 0" and "within area a" and "spans_ok (app_timeline self)"
  shows "\<exists>ds. render_detail tk self area = Inr ds \<and> list_all (starts_in a) ds"
proof (cases "app_focus self")
  case None
  then show ?thesis by (simp add: render_detail_def)
next
  case (Some fc)
  define title where "title = utext (''DETAIL '' @ endpoint_fmt (fc_origin fc) @ '' '') @ [0x2192]
                 @ utext ('' '' @ peer_label (fc_responder fc) (fc_responder_host fc))"
  define inner where "inner = tk_inner tk \<lparr>bk_title = title, bk_right_title = None\<rparr> area"
  have "within inner area" using assms(1) by (simp add: inner_def toolkit_ok_def)
  then have w: "within inner a" using assms(4) by (rule within_trans)
  note sp = focus_span [OF assms(5) Some]
  have "\<exists>ds. (if rc_height inner < 3 \<or> rc_width inner \<le> GUTTER
                 then Inr [RenderParagraph widen_message None inner]
                 else case app_detail_view self of
                   TimeSequence \<Rightarrow> render_seq_body self inner fc
                 | InFlight \<Rightarrow> render_inflight_body self inner fc
                 | Rtt \<Rightarrow> render_rtt_body self inner fc
                 | ThroughputView \<Rightarrow> render_throughput_body self inner fc) = Inr ds \<and> list_all (starts_in a) ds"
  proof (cases "rc_height inner < 3 \<or> rc_width inner \<le> GUTTER")
    case True
    then show ?thesis by simp
  next
    case False
    then have g: "3 \<le> rc_height inner" "GUTTER < rc_width inner" by simp_all
    note pre = w assms(3,2) sp g
    show ?thesis using False
      seq_view.body_safe [OF pre, of "fc_series fc" "fc_focus_dir fc" "app_cursor self"]
      inflight_view.body_safe [OF pre, of "(fc_inflight fc, [])" "fc_focus_dir fc" "app_cursor self", unfolded fst_conv snd_conv]
      rtt_view.body_safe [OF pre, of "(fc_rtt fc, [])" "fc_focus_dir fc" "app_cursor self", unfolded fst_conv snd_conv]
      throughput_view.body_safe [OF pre, of "fc_throughput fc" "fc_focus_dir fc" "app_cursor self"]
      by (cases "app_detail_view self") (simp_all add: seq_body_eq inflight_body_eq rtt_body_eq throughput_body_eq)
  qed
  then obtain ds where "render_detail tk self area = then_draw (Inr [RenderBlock \<lparr>bk_title = title, bk_right_title = None\<rparr> area]) (Inr ds)"
      "list_all (starts_in a) ds"
    unfolding render_detail_def Some option.case Let_def inner_def title_def by auto
  then show ?thesis by simp
qed

lemma transport_status_ok: "transport_ok (app_transport self) \<Longrightarrow> \<exists>s. transport_status self = Inr s"
  by (simp add: transport_status_def Let_def speed_def transport_ok_def)

lemma render_main_ok:
  assumes "transport_ok (app_transport self)"
  shows "\<exists>ds. render_main lc self area = Inr ds \<and> list_all (starts_in a) ds"
  using transport_status_ok [OF assms] by (auto simp: render_main_def Let_def)

lemma render_ok:
  assumes "toolkit_ok tk" and "on_screen area" and "rc_x area = 0" and "app_ok self" and "spans_ok (app_timeline self)"
  shows "\<exists>ds. render tk lc self area = Inr ds \<and> list_all (starts_in area) ds"
proof -
  obtain main footer where s: "tk_split tk Vertical (MinC 1, LengthC 1) area = (main, footer)" by fastforce
  obtain left right where s2: "tk_split tk Horizontal (PercentageC 50, PercentageC 50) main = (left, right)" by fastforce
  have main: "within main area" using assms(1) s by (metis fst_conv toolkit_ok_def)
  have "within right main" using assms(1) s2 by (metis snd_conv toolkit_ok_def)
  then have right: "within right area" using main by (rule within_trans)
  have tp: "transport_ok (app_transport self)" using assms(4) by (simp add: app_ok_def)
  obtain d1 where d1: "render_main lc self main = Inr d1" "list_all (starts_in area) d1" using render_main_ok [OF tp] by blast
  obtain d2 where d2: "render_main lc self left = Inr d2" "list_all (starts_in area) d2" using render_main_ok [OF tp] by blast
  obtain d3 where d3: "render_detail tk self right = Inr d3" "list_all (starts_in area) d3"
    using render_detail_ok [OF assms(1-3) right assms(5)] by blast
  show ?thesis unfolding render_def s Let_def prod.case s2 using d1 d2 d3 by (simp add: render_footer_def)
qed

section \<open>Properties\<close>

text \<open>
  Claim C8: the time/sequence pane, from the samples to the screen. In a pane large enough for a plot,
  every cell right of the gutter and between the legend and the time labels shows the most
  salient of the samples revealed in it, else the cursor line in the cursor's column, else
  nothing: no label, legend or other mark covers it. (While the largest offset is below
  10^17 bytes.)
\<close>

theorem seq_pane_shows_samples:
  assumes "pane inner w h" and "fst (fc_x_span fc) \<le> snd (fc_x_span fc)"
    and "seq_max_rel (fc_series fc) (fc_focus_dir fc) < 10 ^ 17"
  shows "\<exists>ds. render_seq_body self inner fc = Inr ds
    \<and> (\<forall>c<w. \<forall>r<h. shown ds (cell_x inner c) (cell_y inner h r) =
         cell_content (case salient_glyph (map sq_kind (filter (\<lambda>s. seq_cell (fc_series fc) (fc_focus_dir fc) (fc_x_span fc) w h s = (c, r))
             (seq_revealed (fc_series fc) (fc_focus_dir fc) (app_cursor self)))) of
            Some g \<Rightarrow> Some g
          | None \<Rightarrow> if c = cursor_column (fc_x_span fc) (app_cursor self) w then Some CURSOR_GLYPH else None))"
  using seq_pane_cells [OF assms] .

definition example_pane :: rect where
  "example_pane = \<lparr>rc_x = 41, rc_y = 1, rc_width = 18, rc_height = 6\<rparr>"

definition example_focus :: focus_conn where
  "example_focus =
     \<lparr>fc_origin = example_client, fc_responder = Endpoint (V4 0x0A000002) 443, fc_x_span = (0, 300),
      fc_focus_dir = OriginToResponder, fc_series = example_series,
      fc_inflight = [\<lparr>if_t = 0, if_dir = OriginToResponder, if_bytes = 1000\<rparr>],
      fc_rtt = [\<lparr>rt_t = 0, rt_dir = OriginToResponder, rt_rtt = 123456789, rt_srtt = 123456789\<rparr>],
      fc_throughput = [], fc_responder_host = None\<rparr>"

definition example_playing :: app where
  "example_playing = example_app\<lparr>app_transport := (transport_new 0 300)\<lparr>tp_cursor := 200\<rparr>\<rparr>"

lemma example_pane_ok: "pane example_pane 10 4"
  by (simp add: pane_def example_pane_def on_screen_def GUTTER_def MIN_W_def MIN_H_def)

lemma example_focus_span: "fst (fc_x_span example_focus) \<le> snd (fc_x_span example_focus)"
  by (simp add: example_focus_def)

theorem seq_pane_shows_samples_witness:
  "\<exists>ds. render_seq_body example_playing example_pane example_focus = Inr ds
    \<and> shown ds 52 4 = Glyph RETRANS_GLYPH"
proof -
  have m: "seq_max_rel (fc_series example_focus) (fc_focus_dir example_focus) < 10 ^ 17" by code_simp
  have sal: "salient_glyph (map sq_kind (filter (\<lambda>s. seq_cell (fc_series example_focus) (fc_focus_dir example_focus)
      (fc_x_span example_focus) 10 4 s = (3, 1))
      (seq_revealed (fc_series example_focus) (fc_focus_dir example_focus) (app_cursor example_playing)))) = Some RETRANS_GLYPH"
    by code_simp
  obtain ds where ds: "render_seq_body example_playing example_pane example_focus = Inr ds"
      "\<forall>c<10. \<forall>r<4. shown ds (cell_x example_pane c) (cell_y example_pane 4 r) =
         cell_content (case salient_glyph (map sq_kind (filter (\<lambda>s. seq_cell (fc_series example_focus) (fc_focus_dir example_focus)
             (fc_x_span example_focus) 10 4 s = (c, r))
             (seq_revealed (fc_series example_focus) (fc_focus_dir example_focus) (app_cursor example_playing)))) of
            Some g \<Rightarrow> Some g
          | None \<Rightarrow> if c = cursor_column (fc_x_span example_focus) (app_cursor example_playing) 10 then Some CURSOR_GLYPH else None)"
    using seq_pane_shows_samples [OF example_pane_ok example_focus_span m, of example_playing] by (elim exE conjE)
  have lt: "(3 :: nat) < 10" "(1 :: nat) < 4" by simp_all
  have at: "cell_x example_pane 3 = 52" "cell_y example_pane 4 1 = 4"
    by (simp_all add: cell_x_def cell_y_def example_pane_def GUTTER_def)
  from ds(2) [rule_format, OF lt] have "shown ds 52 4 = Glyph RETRANS_GLYPH"
    unfolding at sal by (simp add: cell_content_def)
  with ds(1) show ?thesis by blast
qed

text \<open>
  Claim C36: the labels of the value axes fit the gutter, so that the other three panes show exactly the
  marks of their plots: in flight below 10^17 bytes, throughput below 10^13 bits per second,
  round-trip times while their label has at most eight columns.
\<close>

theorem panes_show_peak_plots:
  assumes "pane inner w h" and "fst (fc_x_span fc) \<le> snd (fc_x_span fc)"
  shows "\<exists>pi pr pt.
      inflight_project (fc_inflight fc) [] (fc_focus_dir fc) (fc_x_span fc) (app_cursor self) w h = Inr (Some pi)
    \<and> rtt_project (fc_rtt fc) [] (fc_focus_dir fc) (fc_x_span fc) (app_cursor self) w h = Inr (Some pr)
    \<and> throughput_project (fc_throughput fc) (fc_focus_dir fc) (fc_x_span fc) (app_cursor self) w h = Inr (Some pt)
    \<and> (unat (pp_max pi) < 10 ^ 17 \<longrightarrow> (\<exists>ds. render_inflight_body self inner fc = Inr ds \<and> shows_marks ds inner w h (pp_marks pi)))
    \<and> (unat (pp_max pt) < 10 ^ 13 \<longrightarrow> (\<exists>ds. render_throughput_body self inner fc = Inr ds \<and> shows_marks ds inner w h (pp_marks pt)))
    \<and> (unat (pp_max pr) < 10 ^ 5 \<or> 10 ^ 6 \<le> unat (pp_max pr) \<and> unat (pp_max pr) < 10 ^ 8
         \<or> 10 ^ 9 \<le> unat (pp_max pr) \<and> unat (pp_max pr) < 10 ^ 12
       \<longrightarrow> (\<exists>ds. render_rtt_body self inner fc = Inr ds \<and> shows_marks ds inner w h (pp_marks pr)))"
proof -
  note d = pane_drawable [OF assms]
  obtain pi where pi: "inflight_project (fc_inflight fc) [] (fc_focus_dir fc) (fc_x_span fc) (app_cursor self) w h = Inr (Some pi)"
    using inflight_project_ok [OF d] by blast
  obtain pr where pr: "rtt_project (fc_rtt fc) [] (fc_focus_dir fc) (fc_x_span fc) (app_cursor self) w h = Inr (Some pr)"
    using rtt_project_ok [OF d] by blast
  obtain pt where pt: "throughput_project (fc_throughput fc) (fc_focus_dir fc) (fc_x_span fc) (app_cursor self) w h = Inr (Some pt)"
    using throughput_project_ok [OF d] by blast
  have "length (fmt_rtt (pp_max pr)) \<le> GUTTER"
    if "unat (pp_max pr) < 10 ^ 5 \<or> 10 ^ 6 \<le> unat (pp_max pr) \<and> unat (pp_max pr) < 10 ^ 8
         \<or> 10 ^ 9 \<le> unat (pp_max pr) \<and> unat (pp_max pr) < 10 ^ 12"
    using that fmt_rtt_long [of "pp_max pr"] by (auto simp: GUTTER_def)
  then show ?thesis
    using pi pr pt inflight_pane_cells [OF assms pi] throughput_pane_cells [OF assms pt] rtt_pane_cells [OF assms pr] by blast
qed

theorem panes_show_peak_plots_witness:
  "\<exists>p ds. inflight_project (fc_inflight example_focus) [] OriginToResponder (0, 300) 200 10 4 = Inr (Some p)
     \<and> render_inflight_body example_playing example_pane example_focus = Inr ds \<and> shows_marks ds example_pane 10 4 (pp_marks p)"
proof -
  have eq: "fc_focus_dir example_focus = OriginToResponder" "fc_x_span example_focus = (0, 300)" "app_cursor example_playing = 200"
    by (simp_all add: example_focus_def example_playing_def app_cursor_def)
  have mx: "unat (u64_max_or_zero (map if_bytes (filter (\<lambda>s. if_dir s = OriginToResponder) (fc_inflight example_focus @ [])))) < 10 ^ 17"
    by code_simp
  from panes_show_peak_plots [OF example_pane_ok example_focus_span, of example_playing, unfolded eq] obtain p where
    p: "inflight_project (fc_inflight example_focus) [] OriginToResponder (0, 300) 200 10 4 = Inr (Some p)"
      "unat (pp_max p) < 10 ^ 17 \<longrightarrow>
        (\<exists>ds. render_inflight_body example_playing example_pane example_focus = Inr ds \<and> shows_marks ds example_pane 10 4 (pp_marks p))"
    by blast
  with mx show ?thesis unfolding inflight_project_max [OF p(1)] by blast
qed

text \<open>
  Claim C37: the label of the round-trip axis does not always fit. When the largest round-trip time is from 100
  to 999 microseconds or milliseconds, or at least 1000 seconds, the label is wider than the
  gutter, and its ninth character is shown in the plot's top left cell, whatever is plotted there.
\<close>

theorem rtt_label_overwrites_plot:
  assumes "pane inner w h" and "fst (fc_x_span fc) \<le> snd (fc_x_span fc)"
    and "rtt_project (fc_rtt fc) [] (fc_focus_dir fc) (fc_x_span fc) (app_cursor self) w h = Inr (Some p)"
    and "10 ^ 5 \<le> unat (pp_max p) \<and> unat (pp_max p) < 10 ^ 6 \<or> 10 ^ 8 \<le> unat (pp_max p) \<and> unat (pp_max p) < 10 ^ 9
      \<or> 10 ^ 12 \<le> unat (pp_max p)"
  shows "\<exists>ds. render_rtt_body self inner fc = Inr ds
    \<and> shown ds (cell_x inner 0) (cell_y inner h (h - 1)) = Glyph (fmt_rtt (pp_max p) ! GUTTER)"
  using rtt_pane_overwritten [OF assms(1-3)] fmt_rtt_long [of "pp_max p"] assms(4) by (auto simp: GUTTER_def)

lemma example_rtt_plot:
  obtains p where "rtt_project (fc_rtt example_focus) [] OriginToResponder (0, 300) 200 10 4 = Inr (Some p)"
    and "pp_max p = 123456789"
    and "find (\<lambda>m. smark_pos m = (0, 3)) (pp_marks p) = Some \<lparr>sm_col = 0, sm_row = 3, sm_glyph = SMOOTHED_GLYPH, sm_series = Smoothed\<rparr>"
proof -
  have "map_sum id (map_option (\<lambda>p. (pp_max p, find (\<lambda>m. smark_pos m = (0, 3)) (pp_marks p))))
      (rtt_project (fc_rtt example_focus) [] OriginToResponder (0, 300) 200 10 4) =
    Inr (Some (123456789, Some \<lparr>sm_col = 0, sm_row = 3, sm_glyph = SMOOTHED_GLYPH, sm_series = Smoothed\<rparr>))"
    by code_simp
  then show thesis using that by (auto dest!: map_sum_InrD)
qed

theorem rtt_label_overwrites_plot_witness:
  "\<exists>p ds. rtt_project (fc_rtt example_focus) [] OriginToResponder (0, 300) 200 10 4 = Inr (Some p)
     \<and> find (\<lambda>m. smark_pos m = (0, 3)) (pp_marks p) = Some \<lparr>sm_col = 0, sm_row = 3, sm_glyph = SMOOTHED_GLYPH, sm_series = Smoothed\<rparr>
     \<and> render_rtt_body example_playing example_pane example_focus = Inr ds
     \<and> shown ds 49 2 = Glyph (of_char (CHR ''s''))"
proof -
  obtain p where p: "rtt_project (fc_rtt example_focus) [] OriginToResponder (0, 300) 200 10 4 = Inr (Some p)"
    "pp_max p = 123456789"
    "find (\<lambda>m. smark_pos m = (0, 3)) (pp_marks p) = Some \<lparr>sm_col = 0, sm_row = 3, sm_glyph = SMOOTHED_GLYPH, sm_series = Smoothed\<rparr>"
    by (rule example_rtt_plot)
  have eq: "fc_focus_dir example_focus = OriginToResponder" "fc_x_span example_focus = (0, 300)" "app_cursor example_playing = 200"
    by (simp_all add: example_focus_def example_playing_def app_cursor_def)
  have rng: "10 ^ 5 \<le> unat (pp_max p) \<and> unat (pp_max p) < 10 ^ 6 \<or> 10 ^ 8 \<le> unat (pp_max p) \<and> unat (pp_max p) < 10 ^ 9
      \<or> 10 ^ 12 \<le> unat (pp_max p)" by (simp add: p(2))
  have ch: "fmt_rtt 123456789 ! GUTTER = of_char (CHR ''s'')" by code_simp
  have at: "cell_x example_pane 0 = 49" "cell_y example_pane 4 (4 - 1) = 2"
    by (simp_all add: cell_x_def cell_y_def example_pane_def GUTTER_def)
  from rtt_label_overwrites_plot [OF example_pane_ok example_focus_span, of example_playing p, unfolded eq at, OF p(1) rng] p
  show ?thesis unfolding p(2) ch by blast
qed

text \<open>
  Claim C38: the master list highlights the selection. Whatever the replay loop has done, drawing the list
  does not panic: it hands over one table with a row of cells per visible connection, in their
  order, highlighting the selected one, or, when no connection is visible, a message.
\<close>

theorem main_table_highlights_selection:
  assumes "fst (bounds tml) \<le> snd (bounds tml)"
  shows "\<exists>self d. event_loop lc (new_with_names lc tml names title) frames = Inr self \<and> render_main lc self area = Inr [d]
    \<and> (if visible lc self = [] then (\<exists>s b. d = RenderParagraph s b area)
       else \<exists>tb b k. d = RenderTable tb b area (Some k) \<and> tb_rows tb = map row_cells (visible lc self)
         \<and> k < length (visible lc self) \<and> selected self = Some (row_id (visible lc self ! k)))"
proof -
  note new = new_with_names_ok [OF assms, of lc names title]
  obtain self where self: "event_loop lc (new_with_names lc tml names title) frames = Inr self" "app_ok self" "selection_ok lc self"
    using event_loop_ok [of "new_with_names lc tml names title" lc frames] new by auto
  obtain st where st: "transport_status self = Inr st"
    using transport_status_ok self(2) by (auto simp: app_ok_def)
  show ?thesis
  proof (cases "visible lc self = []")
    case True
    then show ?thesis using self(1) st by (simp add: render_main_def Let_def)
  next
    case False
    then obtain i where i: "selected self = Some i" "i \<in> row_id ` set (visible lc self)"
      using self(3) by (auto simp: selection_ok_def set_visible visible_Nil split: option.splits)
    then have "position (\<lambda>r. row_id r = i) (visible lc self) \<noteq> None" by (auto simp: position_None)
    then obtain k where k: "position (\<lambda>r. row_id r = i) (visible lc self) = Some k" by blast
    with position_Some [OF k] i(1) False self(1) st show ?thesis
      by (auto simp: render_main_def Let_def selected_index_def)
  qed
qed

theorem main_table_highlights_selection_witness:
  "\<exists>self d. event_loop ascii_lower (new_with_names ascii_lower example_timeline name_table_default []) example_frames = Inr self
     \<and> render_main ascii_lower self example_pane = Inr [d]"
proof -
  have "fst (bounds example_timeline) \<le> snd (bounds example_timeline)" by code_simp
  from main_table_highlights_selection [OF this, of ascii_lower name_table_default "[]" example_frames example_pane]
  show ?thesis by blast
qed

end
