(* ===== verification/Binary.thy ===== *)
theory Binary
  imports Tracker_Properties App_Properties Ingest_Properties
begin

text \<open>
  The program (\<^verbatim>\<open>crates/tcp-visr/src/main.rs\<close>): the subcommands that compose faucets, engine and
  application. Standard output is a record of the lines written and of the answers writing will
  get, or the result is the value handed to the JSON serialiser; an error is a value of
  \<open>run_error\<close>, with a panic of a component as one of them. The terminal and the capture thread
  have theories of their own: what arrives from them in a frame is a parameter here.
\<close>

section \<open>Errors and commands\<close>

type_synonym io_error = string

datatype run_error =
    IngestFailed ingest_error | LiveFailed live_error | MetricFailed metric_error | Io io_error | Message string | Panicked panic

datatype cli_command =
    Replay (cmd_file: string) (cmd_max_samples: usize)
  | Live (cmd_iface: "string option") (cmd_filter: "string option") (cmd_retention_secs: u64) (cmd_list: bool)
  | Parse (cmd_file: string)
  | Conns (cmd_file: string)
  | Metrics (cmd_file: string) (cmd_conn: usize) (cmd_throughput_window_ms: u64) (cmd_reorder_window_ms: u64)
      (cmd_max_samples: usize)

text \<open>The sink that folds items into a tracker; a panic stops the fold.\<close>

definition observe_sink :: "panic + tracker \<Rightarrow> item \<Rightarrow> panic + tracker" where
  "observe_sink r i = and_then r (\<lambda>tr. observe tr i)"

definition lift_panic :: "panic + 'x \<Rightarrow> run_error + 'x" where
  "lift_panic r = map_sum Panicked id r"

definition lift_ingest :: "ingest_error + 'x \<Rightarrow> run_error + 'x" where
  "lift_ingest r = map_sum IngestFailed id r"

definition lift_io :: "io_error + 'x \<Rightarrow> run_error + 'x" where
  "lift_io r = map_sum Io id r"

section \<open>Printing\<close>

text \<open>
  Standard output: the lines written, and what the next writes will answer (when the answers are
  used up, writes succeed). \<open>write_lines\<close> is a sequence of \<^verbatim>\<open>writeln!(...)?\<close>.
\<close>

record stdout =
  so_answers :: "io_error option list"
  so_lines :: "string list"

definition writeln :: "stdout \<Rightarrow> string \<Rightarrow> io_error + stdout" where
  "writeln out s =
     (case so_answers out of
        [] \<Rightarrow> Inr (out\<lparr>so_lines := so_lines out @ [s]\<rparr>)
      | None # rest \<Rightarrow> Inr (out\<lparr>so_answers := rest, so_lines := so_lines out @ [s]\<rparr>)
      | Some e # rest \<Rightarrow> Inl e)"

fun write_lines :: "stdout \<Rightarrow> string list \<Rightarrow> io_error + stdout" where
  "write_lines out [] = Inr out"
| "write_lines out (l # ls) = and_then (writeln out l) (\<lambda>out'. write_lines out' ls)"

fun join :: "string \<Rightarrow> string list \<Rightarrow> string" where
  "join sep [] = ''''"
| "join sep [s] = s"
| "join sep (s # ss) = s @ sep @ join sep ss"

definition breakdown :: "skip_counts \<Rightarrow> string" where
  "breakdown skipped =
     (let reasons = map (\<lambda>(reason, n). reason @ ''='' @ show_dec (unat n)) (skip_nonzero skipped)
      in if reasons = [] then '''' else '' ('' @ join '', '' reasons @ '')'')"

definition parse_line :: "segment \<Rightarrow> string" where
  "parse_line s =
     nanos_fmt (seg_ts s) @ '' '' @ flow_fmt (seg_flow s) @ '' '' @ flags_fmt (seg_flags s)
     @ '' seq='' @ show_dec (unat (seg_seq s)) @ '' ack='' @ show_dec (unat (seg_ack s))
     @ '' win='' @ show_dec (unat (seg_window s)) @ '' len='' @ show_dec (unat (payload_len s))"

definition parse_sink :: "stdout \<times> u64 \<times> io_error option \<Rightarrow> item \<Rightarrow> stdout \<times> u64 \<times> io_error option" where
  "parse_sink st item' =
     (case st of (out, count', write_err) \<Rightarrow>
        if write_err \<noteq> None then st
        else case item' of
          Segment s \<Rightarrow>
            (case writeln out (parse_line s) of
               Inl e \<Rightarrow> (out, count' + 1, Some e)
             | Inr out' \<Rightarrow> (out', count' + 1, None))
        | Tick _ \<Rightarrow> st)"

definition parse_summary :: "u64 \<Rightarrow> skip_counts \<Rightarrow> string" where
  "parse_summary count' skipped =
     show_dec (unat count') @ '' segments, skipped: '' @ show_dec (unat (skip_total skipped)) @ '' total'' @ breakdown skipped"

definition run_parse :: "decoder \<Rightarrow> string \<Rightarrow> capture_file \<Rightarrow> stdout \<Rightarrow> (run_error + stdout) option" where
  "run_parse decode path capture out =
     map_option (\<lambda>r. and_then (lift_ingest r) (\<lambda>((link, skipped), out1, count', write_err).
         case write_err of
           Some e \<Rightarrow> Inl (Io e)
         | None \<Rightarrow> lift_io (writeln out1 (parse_summary count' skipped))))
       (parse_file_visit decode path capture parse_sink (out, 0, None))"

definition conn_line :: "connection \<Rightarrow> string" where
  "conn_line c =
     endpoint_fmt (conn_origin c) @ '' -> '' @ endpoint_fmt (conn_responder c)
     @ ''  state='' @ state_debug (conn_state c) @ ''  inst='' @ show_dec (unat (id_instance (conn_id c)))
     @ ''  bytes='' @ show_dec (unat (conn_bytes_o2r c)) @ ''/'' @ show_dec (unat (conn_bytes_r2o c))
     @ ''  segs='' @ show_dec (unat (conn_segments c)) @ ''  dur='' @ nanos_fmt (duration c)
     @ (if conn_origin_inferred c then '' (mid-stream)'' else '''')"

definition conns_summary :: "usize \<Rightarrow> skip_counts \<Rightarrow> string" where
  "conns_summary count' skipped =
     show_dec count' @ '' connections, skipped: '' @ show_dec (unat (skip_total skipped)) @ '' total'' @ breakdown skipped"

definition run_conns :: "decoder \<Rightarrow> string \<Rightarrow> capture_file \<Rightarrow> stdout \<Rightarrow> (run_error + stdout) option" where
  "run_conns decode path capture out =
     map_option (\<lambda>r. and_then (lift_ingest r) (\<lambda>((link, skipped), run).
         and_then (lift_panic run) (\<lambda>tr.
           let found = into_connections tr
           in lift_io (write_lines out (map conn_line found @ [conns_summary (length found) skipped])))))
       (parse_file_visit decode path capture observe_sink (Inr (tracker_new engine_config_default)))"

section \<open>Replay\<close>

definition replay_engine_config :: "usize \<Rightarrow> engine_config" where
  "replay_engine_config limit =
     engine_config_default\<lparr>collect_state_timeline := True, collect_seq_timeline := True,
       collect_inflight_timeline := True, collect_rtt_timeline := True, collect_throughput_timeline := True,
       retention := FailFast limit\<rparr>"

definition replay_title :: "string \<Rightarrow> timeline \<Rightarrow> name_table \<Rightarrow> skip_counts \<Rightarrow> ustring" where
  "replay_title path tml names skipped =
     utext ''tcp-visr '' @ [0x2014]
     @ utext ('' '' @ path @ ''  ('' @ show_dec (connection_count tml) @ '' connections, ''
         @ show_dec (nt_len names) @ '' names, skipped '' @ show_dec (unat (skip_total skipped))
         @ (if 0 < nt_dropped names then '', names capped'' else '''') @ '')'')"

definition build_replay_app :: "decoder \<Rightarrow> lowercase \<Rightarrow> string \<Rightarrow> capture_file \<Rightarrow> engine_config
    \<Rightarrow> (run_error + app) option" where
  "build_replay_app decode lc path capture cfg =
     map_option (\<lambda>r. and_then (lift_ingest r) (\<lambda>((link, skipped), run, names).
         and_then (lift_panic run) (\<lambda>tr.
         and_then (map_sum MetricFailed id (into_timeline tr)) (\<lambda>tml.
           Inr (new_with_names lc tml names (replay_title path tml names skipped))))))
       (parse_file_visit_named decode path capture observe_sink nt_observe
          (Inr (tracker_new cfg)) name_table_default)"

text \<open>The guards of \<^verbatim>\<open>run_replay\<close>, then the application for the event loop.\<close>

definition run_replay :: "decoder \<Rightarrow> lowercase \<Rightarrow> bool \<Rightarrow> string \<Rightarrow> capture_file \<Rightarrow> usize \<Rightarrow> (run_error + app) option" where
  "run_replay decode lc is_terminal' path capture limit =
     (if limit = 0 then Some (Inl (Message ''--max-samples must be at least 1 (got 0)''))
      else if \<not> is_terminal' then Some (Inl (Message ''replay requires an interactive terminal (stdout is not a tty)''))
      else build_replay_app decode lc path capture (replay_engine_config limit))"

section \<open>Metrics\<close>

record connection_json =
  cj_index :: usize
  cj_origin :: string
  cj_responder :: string
  cj_instance :: u32
  cj_state :: string
  cj_origin_inferred :: bool
  cj_opened_at_ns :: u64
  cj_last_at_ns :: u64

record sample_json =
  sj_t_ns :: u64
  sj_dir :: string
  sj_in_flight :: u64
  sj_throughput_bps :: u64
  sj_rtt_ns :: "u64 option"
  sj_retransmit :: bool
  sj_out_of_order :: bool
  sj_sack :: bool

record metrics_json =
  mj_connection :: connection_json
  mj_throughput_window_ns :: u64
  mj_reorder_window_ns :: u64
  mj_samples :: "sample_json list"

fun dir_str :: "sample_dir \<Rightarrow> string" where
  "dir_str OriginToResponder = ''o2r''"
| "dir_str ResponderToOrigin = ''r2o''"

definition to_sample_json :: "metric_sample \<Rightarrow> sample_json" where
  "to_sample_json s =
     \<lparr>sj_t_ns = ms_t s, sj_dir = dir_str (ms_dir s), sj_in_flight = in_flight_bytes s,
      sj_throughput_bps = ms_throughput_bps s, sj_rtt_ns = ms_rtt s, sj_retransmit = ms_retransmit s,
      sj_out_of_order = ms_out_of_order s, sj_sack = ms_sack s\<rparr>"

definition connection_to_json :: "usize \<Rightarrow> connection \<Rightarrow> connection_json" where
  "connection_to_json index c =
     \<lparr>cj_index = index, cj_origin = endpoint_fmt (conn_origin c), cj_responder = endpoint_fmt (conn_responder c),
      cj_instance = id_instance (conn_id c), cj_state = state_debug (conn_state c),
      cj_origin_inferred = conn_origin_inferred c, cj_opened_at_ns = conn_opened_at c, cj_last_at_ns = conn_last_at c\<rparr>"

definition metrics_base_config :: "u64 \<Rightarrow> u64 \<Rightarrow> usize \<Rightarrow> engine_config" where
  "metrics_base_config throughput_window_ms reorder_window_ms limit =
     engine_config_default\<lparr>throughput_window := sat_mul throughput_window_ms 1000000,
       reorder_window := sat_mul reorder_window_ms 1000000, retention := FailFast limit\<rparr>"

definition out_of_range :: "usize \<Rightarrow> usize \<Rightarrow> string \<Rightarrow> string" where
  "out_of_range conn n path =
     ''connection index '' @ show_dec conn @ '' out of range (capture has '' @ show_dec n
     @ '' connections, 0..'' @ show_dec (n - 1) @ ''); run `tcp-visr conns '' @ path @ ''` to list them''"

definition run_pass :: "decoder \<Rightarrow> string \<Rightarrow> capture_file \<Rightarrow> engine_config \<Rightarrow> (run_error + tracker) option" where
  "run_pass decode path capture cfg =
     map_option (\<lambda>r. and_then (lift_ingest r) (\<lambda>(_, run). lift_panic run))
       (parse_file_visit decode path capture observe_sink (Inr (tracker_new cfg)))"

definition run_metrics :: "decoder \<Rightarrow> string \<Rightarrow> capture_file \<Rightarrow> usize \<Rightarrow> u64 \<Rightarrow> u64 \<Rightarrow> usize
    \<Rightarrow> (run_error + metrics_json) option" where
  "run_metrics decode path capture conn throughput_window_ms reorder_window_ms limit =
     (if throughput_window_ms = 0 then Some (Inl (Message ''--throughput-window-ms must be at least 1 (got 0)''))
      else if limit = 0 then Some (Inl (Message ''--max-samples must be at least 1 (got 0)''))
      else
        let base = metrics_base_config throughput_window_ms reorder_window_ms limit
        in Option.bind (run_pass decode path capture base) (\<lambda>r1.
           case and_then r1 (\<lambda>pass1.
               let found = into_connections pass1
               in if conn < length found then Inr (conn_id (found ! conn))
                  else Inl (Message (out_of_range conn (length found) path))) of
             Inl e \<Rightarrow> Some (Inl e)
           | Inr target_id \<Rightarrow>
               (let cfg = base\<lparr>series_collection := CollectOnly target_id\<rparr>
                in map_option (\<lambda>r2. and_then r2 (\<lambda>pass2.
                     and_then (map_sum MetricFailed id (into_metrics pass2)) (\<lambda>ms.
                     case List.find (\<lambda>m. conn_id (cm_conn m) = target_id) ms of
                       None \<Rightarrow> Inl (Message ''internal: target connection vanished between passes'')
                     | Some m \<Rightarrow> Inr
                         \<lparr>mj_connection = connection_to_json conn (cm_conn m),
                          mj_throughput_window_ns = throughput_window cfg, mj_reorder_window_ns = reorder_window cfg,
                          mj_samples = map to_sample_json (cm_series m)\<rparr>)))
                   (run_pass decode path capture cfg))))"

section \<open>Live\<close>

definition LIVE_GRACE :: nat where "LIVE_GRACE = 5000000000"

definition grace_hint :: "bool \<Rightarrow> nat \<Rightarrow> ustring option" where
  "grace_hint first_packet_seen elapsed =
     (if first_packet_seen \<or> elapsed < LIVE_GRACE then None
      else Some (utext ''no packets yet '' @ [0x2014] @ utext '' check privileges, interface, or filter''))"

text \<open>The bounded channel: its contents, oldest first, with its capacity; \<open>connected\<close> until it is dropped.\<close>

record 'e channel =
  queue :: "'e list"
  capacity :: usize
  connected :: bool

definition try_send_or_count :: "'e channel \<Rightarrow> u64 \<Rightarrow> 'e \<Rightarrow> 'e channel \<times> u64" where
  "try_send_or_count tx dropped x =
     (if connected tx \<and> length (queue tx) < capacity tx then (tx\<lparr>queue := queue tx @ [x]\<rparr>, dropped)
      else (tx, dropped + 1))"

definition validate_retention_secs :: "u64 \<Rightarrow> string + unit" where
  "validate_retention_secs retention_secs =
     (if retention_secs = 0 then Inl ''--retention-secs must be at least 1 (got 0)'' else Inr ())"

definition live_engine_config :: "u64 \<Rightarrow> engine_config" where
  "live_engine_config retention_secs =
     engine_config_default\<lparr>collect_state_timeline := True, collect_seq_timeline := True,
       collect_inflight_timeline := True, collect_rtt_timeline := True, collect_throughput_timeline := True,
       series_collection := CollectAll, retention := Evict (sat_mul retention_secs 1000000000) 2000000\<rparr>"

text \<open>What a frame finds: the events received, the two counters read, the time since the start.\<close>

record live_frame =
  lf_events :: "live_event list"
  lf_dropped :: u64
  lf_skips :: u64
  lf_elapsed :: nat

definition drain_event :: "(tracker \<times> bool) \<times> app \<Rightarrow> live_event \<Rightarrow> panic + (tracker \<times> bool) \<times> app" where
  "drain_event s ev =
     (case s of ((tr, first), self) \<Rightarrow>
        (case ev of
           LiveItem i \<Rightarrow>
             and_then (observe tr i)
               (\<lambda>tr'. Inr ((tr', (case i of Segment _ \<Rightarrow> True | Tick _ \<Rightarrow> first)), self))
         | LiveName obs \<Rightarrow> Inr ((tr, first), observe_name self obs)))"

definition next_frame :: "lowercase \<Rightarrow> ustring \<Rightarrow> tracker \<times> bool \<Rightarrow> app \<Rightarrow> live_frame
    \<Rightarrow> panic + (tracker \<times> bool) \<times> app" where
  "next_frame lc base_title s self f =
     and_then (try_fold drain_event (s, self) (lf_events f)) (\<lambda>((tr, first), self1).
     and_then (retarget lc self1 (snapshot tr) (retention_horizon tr) (tr_now tr)
         \<lparr>ls_dropped = lf_dropped f, ls_approximate = (0 < lf_dropped f), ls_skipped = lf_skips f\<rparr>) (\<lambda>self2.
     Inr ((tr, first),
       case grace_hint first (lf_elapsed f) of
         Some hint \<Rightarrow> set_title self2 (base_title @ utext ''  ['' @ hint @ utext '']'')
       | None \<Rightarrow> set_title self2 base_title)))"

text \<open>The live session: the loop over frames from a fresh tracker and an empty live application.\<close>

definition live_title :: "string \<Rightarrow> ustring" where
  "live_title iface = utext ''tcp-visr '' @ [0x2014] @ utext ('' live '' @ iface)"

definition run_live_session :: "lowercase \<Rightarrow> string \<Rightarrow> u64 \<Rightarrow> (key_event option \<times> live_frame) list
    \<Rightarrow> panic + (tracker \<times> bool) \<times> app" where
  "run_live_session lc iface retention_secs frames =
     live_loop lc (next_frame lc (live_title iface)) (tracker_new (live_engine_config retention_secs), False)
       (new_live lc name_table_default (live_title iface)) frames"

section \<open>Folding a capture\<close>

lemma foldl_observe_sink: "foldl observe_sink r items = and_then r (\<lambda>tr. observe_all tr items)"
proof (induction items arbitrary: r)
  case Nil
  then show ?case by (cases r) (simp_all add: observe_all_def)
next
  case (Cons i items)
  then show ?case by (cases r) (simp_all add: observe_sink_def observe_all_def)
qed

lemma parse_file_visit_named_of:
  assumes "parse_file decode path capture = Some (Inr p)"
  shows "parse_file_visit_named decode path capture sink nsink a b =
    Some (Inr ((rp_link_type p, rp_skipped p), foldl sink a (rp_items p), foldl nsink b (rp_names p)))"
proof -
  obtain link skipped items names where
    "parse_file_visit_named decode path capture push push [] [] = Some (Inr ((link, skipped), items, names))"
    "p = \<lparr>rp_items = items, rp_skipped = skipped, rp_link_type = link, rp_names = names\<rparr>"
    using assms by (auto simp: parse_file_push dest!: map_sum_InrD)
  then show ?thesis by (simp add: visit_named_folded [of decode path capture sink nsink a b])
qed

lemma parse_file_visit_of:
  assumes "parse_file decode path capture = Some (Inr p)"
  shows "parse_file_visit decode path capture sink a =
    Some (Inr ((rp_link_type p, rp_skipped p), foldl sink a (rp_items p)))"
  by (simp add: parse_file_visit_def parse_file_visit_named_of [OF assms])

lemma run_pass_of:
  assumes "parse_file decode path capture = Some (Inr p)" and "length (rp_items p) < 2 ^ 32"
  shows "\<exists>tr. run_pass decode path capture cfg = Some (Inr tr) \<and> observe_all (tracker_new cfg) (rp_items p) = Inr tr"
proof -
  have "length (rp_items p) \<le> 2 ^ 32 - 1" using assms(2) by simp
  then obtain tr where "observe_all (tracker_new cfg) (rp_items p) = Inr tr" by (rule observe_all_ok)
  then show ?thesis
    by (simp add: run_pass_def parse_file_visit_of [OF assms(1)] foldl_observe_sink lift_ingest_def lift_panic_def)
qed

section \<open>Two passes\<close>

lemma map_insort_key: "map f (insort_key (\<lambda>x. k (f x)) x xs) = insort_key k (f x) (map f xs)"
  by (induction xs) simp_all

lemma map_sort_key: "map f (sort_key (\<lambda>x. k (f x)) xs) = sort_key k (map f xs)"
  by (induction xs) (simp_all add: map_insort_key)

lemma into_metrics_conns:
  assumes "into_metrics tr = Inr ms"
  shows "map cm_conn ms = into_connections tr"
proof -
  have "ms = sort_key (\<lambda>m. conn_key (cm_conn m)) (map (\<lambda>c. \<lparr>cm_conn = ct_view c, cm_series = ct_series c\<rparr>) (conns tr))"
    using assms by (simp add: into_metrics_def split: if_splits)
  then show ?thesis by (simp only: map_sort_key map_map) (simp add: into_connections_def comp_def)
qed

lemma connections_distinct:
  assumes "length items < 2 ^ 32" and "observe_all (tracker_new cfg) items = Inr tr"
  shows "distinct (map conn_id (into_connections tr))"
proof -
  have "distinct (map ct_id (conns tr))" using observe_all_wf [OF assms] by (simp add: wf_def wf_index_def)
  then have "distinct (map conn_id (map ct_view (conns tr)))" by (simp add: ct_view_def comp_def)
  moreover have "mset (map conn_id (into_connections tr)) = mset (map conn_id (map ct_view (conns tr)))"
    unfolding mset_map by (simp add: into_connections_def)
  ultimately show ?thesis using mset_eq_imp_distinct_iff by blast
qed

lemma find_by_id:
  assumes "distinct (map f ms)" and "k < length ms"
  shows "List.find (\<lambda>m. f m = f (ms ! k)) ms = Some (ms ! k)"
  using assms
proof (induction ms arbitrary: k)
  case (Cons m ms)
  then show ?case by (cases k) (auto simp: image_iff nth_mem)
qed simp

section \<open>Live sessions\<close>

text \<open>The tracker of a session has seen some items and has room for those still to arrive.\<close>

fun live_items :: "live_event list \<Rightarrow> nat" where
  "live_items [] = 0"
| "live_items (LiveItem i # evs) = Suc (live_items evs)"
| "live_items (LiveName n # evs) = live_items evs"

definition room :: "live_frame list \<Rightarrow> tracker \<times> bool \<Rightarrow> bool" where
  "room fs s \<longleftrightarrow> (\<exists>k. wf k (fst s) \<and> k + sum_list (map (\<lambda>f. live_items (lf_events f)) fs) \<le> 2 ^ 32 - 1)"

lemma drain_ok:
  assumes "wf k tr" and "k + live_items evs \<le> 2 ^ 32 - 1" and "app_ok self" and "is_live self"
  shows "\<exists>tr' first' self'. try_fold drain_event ((tr, first), self) evs = Inr ((tr', first'), self')
    \<and> wf (k + live_items evs) tr' \<and> app_ok self' \<and> is_live self'"
  using assms
proof (induction evs arbitrary: k tr first self)
  case Nil
  then show ?case by simp
next
  case (Cons ev evs)
  show ?case
  proof (cases ev)
    case (LiveItem i)
    have "k < 2 ^ 32 - 1" using Cons.prems(2) LiveItem by simp
    with tracker_machine.step_ok [OF Cons.prems(1)] obtain tr1 where tr1: "observe tr i = Inr tr1" "wf (Suc k) tr1" by blast
    have "Suc k + live_items evs \<le> 2 ^ 32 - 1" using Cons.prems(2) LiveItem by simp
    from Cons.IH [OF tr1(2) this Cons.prems(3,4)] show ?thesis
      using tr1(1) LiveItem by (auto simp: drain_event_def)
  next
    case (LiveName obs)
    have "app_ok (observe_name self obs)" by (rule app_ok_cong [OF Cons.prems(3)]) (simp_all add: observe_name_def)
    moreover have "is_live (observe_name self obs)" using Cons.prems(4) by (simp add: observe_name_def)
    moreover have "k + live_items evs \<le> 2 ^ 32 - 1" using Cons.prems(2) LiveName by simp
    ultimately show ?thesis using Cons.IH [OF Cons.prems(1), of "observe_name self obs"] LiveName
      by (auto simp: drain_event_def)
  qed
qed

lemma retention_horizon_le: "retention_horizon tr \<le> tr_now tr"
  by (simp add: retention_horizon_def split: option.splits)

interpretation live_frames: live_pipeline "next_frame lc base_title" room lc for lc base_title
proof unfold_locales
  fix f fs s self
  assume room: "room (f # fs) s" and ok: "app_ok self" "is_live self"
  obtain tr first where s: "s = (tr, first)" by (cases s)
  from room obtain k where k: "wf k tr"
      "k + (live_items (lf_events f) + sum_list (map (\<lambda>f. live_items (lf_events f)) fs)) \<le> 2 ^ 32 - 1"
    by (auto simp: room_def s)
  then obtain tr' first' self' where d: "try_fold drain_event ((tr, first), self) (lf_events f) = Inr ((tr', first'), self')"
      "wf (k + live_items (lf_events f)) tr'" "app_ok self'" "is_live self'"
    using drain_ok [OF k(1) _ ok, of "lf_events f" first] by auto
  obtain self2 where r: "retarget lc self' (snapshot tr') (retention_horizon tr') (tr_now tr')
         \<lparr>ls_dropped = lf_dropped f, ls_approximate = (0 < lf_dropped f), ls_skipped = lf_skips f\<rparr> = Inr self2"
      "app_ok self2" "is_live self2"
    using retarget_ok [OF d(3,4) retention_horizon_le] by blast
  have title: "app_ok (set_title self2 t)" "is_live (set_title self2 t)" for t
    using app_ok_cong [OF r(2), of "set_title self2 t"] r(3) by (simp_all add: set_title_def)
  have "room fs (tr', first')" using d(2) k(2) by (auto simp: room_def add.assoc)
  then show "\<exists>s' self'. next_frame lc base_title s self f = Inr (s', self') \<and> room fs s' \<and> app_ok self' \<and> is_live self'"
    using d(1) r(1) title by (auto simp: next_frame_def s split: option.splits)
qed

end
