(* ===== verification/Drawn_Sessions.thy ===== *)
theory Drawn_Sessions
  imports Render_Properties Binary
begin

text \<open>
  Drawing in the event loops: what a frame needs of the timeline (a connection does not end
  before it was opened) holds for every timeline the tracker produces, in replay and in every
  live snapshot. The locale \<open>drawn_pipeline\<close> extends the contract of the live loop by it, and is
  interpreted on the binary's frames.
\<close>

section \<open>Timelines of the tracker\<close>

lemma build_spans:
  assumes "\<forall>(c, r)\<in>set cs. conn_opened_at c \<le> conn_last_at c \<and> conn_last_at c \<le> end'"
  shows "spans_ok (with_seq_ending cs end')"
  using assms by (fastforce simp: spans_ok_def with_seq_ending_def Let_def build_entry_def)

lemma all_series_times:
  assumes "wf n tr"
  shows "\<forall>(c, r)\<in>set (all_series tr). conn_opened_at c \<le> conn_last_at c \<and> conn_last_at c \<le> tr_now tr"
  using assms by (auto simp: all_series_def wf_def wf_index_def ct_view_def)

lemma snapshot_spans: "wf n tr \<Longrightarrow> spans_ok (snapshot tr)"
  unfolding snapshot_def by (intro build_spans all_series_times)

lemma into_timeline_spans:
  assumes "wf n tr" and "into_timeline tr = Inr tml"
  shows "spans_ok tml"
proof -
  have tml: "tml = with_seq (all_series tr)" using assms(2) by (auto simp: into_timeline_def split: if_splits)
  have "conn_opened_at c \<le> conn_last_at c \<and> conn_last_at c \<le> max_or_zero (map (\<lambda>(c, _). conn_last_at c) (all_series tr))"
    if "(c, r) \<in> set (all_series tr)" for c r
    using that all_series_times [OF assms(1)] by (force simp: max_or_zero_eq intro!: Max_ge)
  then show ?thesis unfolding tml with_seq_def by (intro build_spans) auto
qed

section \<open>Live sessions\<close>

text \<open>A pipeline whose snapshots all have a property that drawing needs.\<close>

locale drawn_pipeline = live_pipeline next_frame inv lc
  for next_frame :: "'s \<Rightarrow> app \<Rightarrow> 'f \<Rightarrow> panic + 's \<times> app"
    and inv :: "'f list \<Rightarrow> 's \<Rightarrow> bool"
    and lc :: lowercase +
  fixes good :: "timeline \<Rightarrow> bool"
  assumes frame_good: "inv fs s' \<Longrightarrow> next_frame s self f = Inr (s', self') \<Longrightarrow> good (app_timeline self')"
begin

lemma live_loop_good:
  assumes "inv (map snd frames) s" and "app_ok self" and "is_live self" and "good (app_timeline self)"
  shows "\<exists>s' self'. live_loop lc next_frame s self frames = Inr (s', self') \<and> app_ok self' \<and> good (app_timeline self')"
  using assms
proof (induction frames arbitrary: s self)
  case Nil
  then show ?case by simp
next
  case (Cons fr frames)
  obtain key arrived where fr: "fr = (key, arrived)" by (cases fr)
  have "\<exists>s1 oc. (case key of None \<Rightarrow> Inr (self, Continue) | Some k \<Rightarrow> handle_key lc self k) = Inr (s1, oc)
      \<and> app_ok s1 \<and> is_live s1 \<and> good (app_timeline s1)"
  proof (cases key)
    case (Some k)
    with handle_key_ok [OF Cons.prems(2), of lc k] obtain s1 oc where "handle_key lc self k = Inr (s1, oc)" by blast
    with handle_key_frame [OF Cons.prems(2) this] Some Cons.prems(3,4) show ?thesis by auto
  qed (use Cons.prems in simp)
  then obtain s1 oc where s1: "(case key of None \<Rightarrow> Inr (self, Continue) | Some k \<Rightarrow> handle_key lc self k) = Inr (s1, oc)"
      "app_ok s1" "is_live s1" "good (app_timeline s1)" by blast
  show ?case
  proof (cases "oc = Quit")
    case True
    then show ?thesis using s1 by (auto simp: fr)
  next
    case False
    obtain s' s2 where s2: "next_frame s s1 arrived = Inr (s', s2)" "inv (map snd frames) s'" "app_ok s2" "is_live s2"
      using frame_ok [of arrived "map snd frames" s s1] s1 Cons.prems by (auto simp: fr)
    from Cons.IH [OF s2(2-4) frame_good [OF s2(2,1)]] s1(1) s2(1) False show ?thesis by (auto simp: fr)
  qed
qed

end

lemma next_frame_timeline:
  assumes "next_frame lc t s self f = Inr (s', self')"
  shows "app_timeline self' = snapshot (fst s')"
  using assms
  by (auto simp: next_frame_def retarget_def on_transport_def and_then_Inr_iff Let_def set_title_def case_prod_beta
      split: if_splits option.splits)

interpretation drawn_frames: drawn_pipeline "next_frame lc base_title" room lc spans_ok for lc base_title
proof unfold_locales
  fix fs s' s self f self'
  assume "room fs s'" "next_frame lc base_title s self f = Inr (s', self')"
  then show "spans_ok (app_timeline self')"
    using next_frame_timeline [of lc base_title s self f s' self'] by (auto simp: room_def intro: snapshot_spans)
qed

end
