(* ===== verification/Live_Channel.thy ===== *)
theory Live_Channel
  imports Drawn_Sessions
begin

text \<open>
  The two threads of a live capture (\<^verbatim>\<open>run_live_command\<close> in \<^verbatim>\<open>crates/tcp-visr/src/main.rs\<close>). The capture
  thread sends every event into a bounded channel or counts it as dropped; the frames take
  events out of it. Their interleavings are an inductive predicate, and its invariant accounts
  for every event. The second section says what a session that received certain events shows.
\<close>

section \<open>The channel between the capture thread and the frames\<close>

text \<open>
  The state the two threads share, with what the capture thread has produced and what the frames
  have taken so far.
\<close>

record pipe =
  pi_channel :: "live_event channel"
  pi_dropped :: u64
  pi_captured :: "live_event list"
  pi_received :: "live_event list"

definition CHANNEL_CAPACITY :: usize where "CHANNEL_CAPACITY = 65536"

definition pipe_new :: pipe where
  "pipe_new =
     \<lparr>pi_channel = \<lparr>queue = [], capacity = CHANNEL_CAPACITY, connected = True\<rparr>, pi_dropped = 0,
      pi_captured = [], pi_received = []\<rparr>"

text \<open>The closure the capture loop calls with every event.\<close>

definition capture_event :: "pipe \<Rightarrow> live_event \<Rightarrow> pipe" where
  "capture_event p ev =
     (let (tx, d) = try_send_or_count (pi_channel p) (pi_dropped p) ev
      in p\<lparr>pi_channel := tx, pi_dropped := d, pi_captured := pi_captured p @ [ev]\<rparr>)"

text \<open>\<^verbatim>\<open>rx.try_recv()\<close> in a frame.\<close>

definition receive_event :: "pipe \<Rightarrow> (live_event \<times> pipe) option" where
  "receive_event p =
     (case queue (pi_channel p) of
        [] \<Rightarrow> None
      | ev # evs \<Rightarrow> Some (ev, p\<lparr>pi_channel := (pi_channel p)\<lparr>queue := evs\<rparr>, pi_received := pi_received p @ [ev]\<rparr>))"

text \<open>The receiver is dropped when the command returns.\<close>

definition hang_up :: "pipe \<Rightarrow> pipe" where
  "hang_up p = p\<lparr>pi_channel := (pi_channel p)\<lparr>connected := False\<rparr>\<rparr>"

text \<open>The threads interleave in any order.\<close>

inductive interleaving :: "pipe \<Rightarrow> bool" where
  start: "interleaving pipe_new"
| captured: "interleaving p \<Longrightarrow> interleaving (capture_event p ev)"
| received: "interleaving p \<Longrightarrow> receive_event p = Some (ev, p') \<Longrightarrow> interleaving p'"
| hung_up: "interleaving p \<Longrightarrow> interleaving (hang_up p)"

definition pipe_inv :: "pipe \<Rightarrow> bool" where
  "pipe_inv p \<longleftrightarrow>
     capacity (pi_channel p) = CHANNEL_CAPACITY \<and> length (queue (pi_channel p)) \<le> CHANNEL_CAPACITY
     \<and> subseq (pi_received p @ queue (pi_channel p)) (pi_captured p)
     \<and> pi_dropped p = of_nat (length (pi_captured p) - length (pi_received p @ queue (pi_channel p)))"

lemma subseq_snoc_same: "subseq xs ys \<Longrightarrow> subseq (xs @ [x]) (ys @ [x])"
  by (rule list_emb_append_mono) simp_all

lemma capture_inv:
  assumes "pipe_inv p"
  shows "pipe_inv (capture_event p ev)"
proof (cases "connected (pi_channel p) \<and> length (queue (pi_channel p)) < capacity (pi_channel p)")
  case True
  with assms show ?thesis
    using subseq_snoc_same [of "pi_received p @ queue (pi_channel p)" "pi_captured p" ev]
    by (simp add: pipe_inv_def capture_event_def try_send_or_count_def)
next
  case False
  have sub: "subseq (pi_received p @ queue (pi_channel p)) (pi_captured p)" using assms by (simp add: pipe_inv_def)
  then have len: "length (pi_received p @ queue (pi_channel p)) \<le> length (pi_captured p)" by (rule list_emb_length)
  then have "Suc (length (pi_captured p)) - length (pi_received p @ queue (pi_channel p))
      = Suc (length (pi_captured p) - length (pi_received p @ queue (pi_channel p)))" by (rule Suc_diff_le)
  then have "(of_nat (Suc (length (pi_captured p)) - length (pi_received p @ queue (pi_channel p))) :: u64)
      = of_nat (length (pi_captured p) - length (pi_received p @ queue (pi_channel p))) + 1" by simp
  with assms False sub show ?thesis
    by (auto simp: pipe_inv_def capture_event_def try_send_or_count_def intro: list_emb_append2)
qed

lemma receive_inv: "pipe_inv p \<Longrightarrow> receive_event p = Some (ev, p') \<Longrightarrow> pipe_inv p'"
  by (auto simp: pipe_inv_def receive_event_def split: list.splits)

lemma interleaving_inv: "interleaving p \<Longrightarrow> pipe_inv p"
proof (induction rule: interleaving.induct)
  case start
  then show ?case by (simp add: pipe_inv_def pipe_new_def)
next
  case (captured p ev)
  then show ?case by (simp add: capture_inv)
next
  case (received p ev p')
  then show ?case using receive_inv by blast
next
  case (hung_up p)
  then show ?case by (simp add: pipe_inv_def hang_up_def)
qed

lemma nothing_dropped:
  assumes "interleaving p" and "pi_dropped p = 0" and "length (pi_captured p) < 2 ^ 64"
  shows "pi_received p @ queue (pi_channel p) = pi_captured p"
proof -
  have inv: "pipe_inv p" using interleaving_inv [OF assms(1)] .
  then have sub: "subseq (pi_received p @ queue (pi_channel p)) (pi_captured p)" by (simp add: pipe_inv_def)
  let ?n = "length (pi_captured p) - length (pi_received p @ queue (pi_channel p))"
  have "(of_nat ?n :: u64) = 0" using inv assms(2) by (simp add: pipe_inv_def)
  moreover have "?n < 2 ^ LENGTH(64)" using assms(3) by simp
  ultimately have "unat (0 :: u64) = ?n" by (rule of_nat_inverse)
  then have "?n = 0" by simp
  with list_emb_length [OF sub] have "length (pi_received p @ queue (pi_channel p)) = length (pi_captured p)" by simp
  with sub show ?thesis by (rule subseq_same_length)
qed

section \<open>What a live session shows\<close>

text \<open>The items among the events.\<close>

fun event_items :: "live_event list \<Rightarrow> item list" where
  "event_items [] = []"
| "event_items (LiveItem i # evs) = i # event_items evs"
| "event_items (LiveName n # evs) = event_items evs"

lemma event_items_append: "event_items (as @ bs) = event_items as @ event_items bs"
  by (induction as rule: event_items.induct) simp_all

lemma length_event_items: "length (event_items evs) = live_items evs"
  by (induction evs rule: event_items.induct) simp_all

lemma drain_folds:
  "try_fold drain_event ((tr, first), self) evs = Inr ((tr', first'), self') \<Longrightarrow> observe_all tr (event_items evs) = Inr tr'"
proof (induction evs arbitrary: tr first self rule: event_items.induct)
  case (2 i evs)
  then show ?case by (auto simp: drain_event_def and_then_Inr_iff observe_all_def)
next
  case (3 n evs)
  then show ?case by (auto simp: drain_event_def)
qed (simp add: observe_all_def)

lemma next_frame_folds:
  assumes "next_frame lc t (tr, first) self f = Inr ((tr', first'), self')"
  shows "observe_all tr (event_items (lf_events f)) = Inr tr'"
  using assms by (auto simp: next_frame_def and_then_Inr_iff case_prod_beta dest!: drain_folds)

text \<open>Keys leave the capture status alone.\<close>

definition status_kept :: "app \<Rightarrow> panic + app \<Rightarrow> bool" where
  "status_kept self r \<longleftrightarrow> (\<forall>self'. r = Inr self' \<longrightarrow> app_live_status self' = app_live_status self)"

lemma status_kept_if: "(b \<Longrightarrow> status_kept self r) \<Longrightarrow> (\<not> b \<Longrightarrow> status_kept self r') \<Longrightarrow> status_kept self (if b then r else r')"
  by simp

lemma reconcile_status [simp]: "app_live_status (reconcile_selection lc self) = app_live_status self"
  by (simp add: reconcile_selection_def Let_def split: option.splits)

lemma on_transport_status: "on_transport self f = Inr self' \<Longrightarrow> app_live_status self' = app_live_status self"
  by (auto simp: on_transport_def and_then_Inr_iff)

lemma key_status:
  "status_kept self (Inr (cycle_sort self))" "status_kept self (Inr (toggle_dir self))" "status_kept self (Inr (enter_filter self))"
  "status_kept self (move_down lc self)" "status_kept self (move_up lc self)" "status_kept self (toggle_follow self)"
  "status_kept self (Inr (app_toggle_play lc self))" "status_kept self (app_seek lc (freeze_if_live self) b)"
  "status_kept self (Inr (app_faster self))" "status_kept self (Inr (app_slower self))"
  "status_kept self (step_forward lc (freeze_if_live self))" "status_kept self (step_back lc (freeze_if_live self))"
  "status_kept self (Inr (open_detail self))" "status_kept self (Inr (close_detail self))"
  "status_kept self (Inr (cycle_detail_view self))" "status_kept self (Inr self)"
  by (auto simp: status_kept_def cycle_sort_def toggle_dir_def enter_filter_def move_down_def move_up_def move_by_def
      toggle_follow_def app_toggle_play_def app_seek_def freeze_if_live_def app_faster_def app_slower_def step_forward_def
      step_back_def open_detail_def close_detail_def cycle_detail_view_def and_then_Inr_iff Let_def
      dest!: on_transport_status split: if_splits option.splits)

lemma handle_key_status:
  assumes "handle_key lc self key = Inr (self', oc)"
  shows "app_live_status self' = app_live_status self"
proof (cases "app_mode self")
  case Nav
  have finish: "app_live_status x = app_live_status self"
    if "and_then r (\<lambda>s. Inr (s, Continue)) = Inr (x, oc)" "status_kept self r" for r x
    using that by (auto simp: status_kept_def and_then_Inr_iff)
  show ?thesis
  proof (cases "ke_control key \<and> ke_code key = ch CHR ''c'' \<or> ke_code key = ch CHR ''q''")
    case True
    then show ?thesis using assms Nav by (auto simp: handle_key_def handle_nav_def split: if_splits)
  next
    case False
    then show ?thesis using assms unfolding handle_key_def handle_nav_def Nav mode.case
      by (auto elim!: finish intro!: status_kept_if key_status)
  qed
next
  case Filter
  then show ?thesis using assms
    by (auto simp: handle_key_def handle_filter_def confirm_filter_def cancel_filter_def pop_filter_def push_filter_def
        split: if_splits key_code.splits)
qed
text \<open>What the status line is told about a frame.\<close>

definition frame_status :: "live_frame \<Rightarrow> live_status" where
  "frame_status f = \<lparr>ls_dropped = lf_dropped f, ls_approximate = (0 < lf_dropped f), ls_skipped = lf_skips f\<rparr>"

lemma next_frame_status:
  assumes "next_frame lc t s self f = Inr (s', self')"
  shows "app_live_status self' = frame_status f"
  using assms
  by (auto simp: next_frame_def retarget_def frame_status_def and_then_Inr_iff Let_def set_title_def case_prod_beta
      dest!: on_transport_status split: if_splits option.splits)

text \<open>
  The session folds the events of its first frames, those before a key quits; the view is the
  snapshot after the last of them, with its status.
\<close>

lemma live_loop_folds:
  assumes "live_loop lc (next_frame lc t) (tr, first) self frames = Inr ((tr', first'), self')"
    and "room (map snd frames) (tr, first)" and "app_ok self" and "is_live self"
  shows "\<exists>n\<le>length frames. observe_all tr (event_items (concat (map (\<lambda>fr. lf_events (snd fr)) (take n frames)))) = Inr tr'
    \<and> (0 < n \<longrightarrow> app_timeline self' = snapshot tr' \<and> app_live_status self' = frame_status (snd (frames ! (n - 1))))
    \<and> (n = 0 \<longrightarrow> app_timeline self' = app_timeline self \<and> app_live_status self' = app_live_status self)"
  using assms
proof (induction frames arbitrary: tr first self)
  case Nil
  then show ?case by (simp add: observe_all_def)
next
  case (Cons fr frames)
  obtain key f where fr: "fr = (key, f)" by (cases fr)
  obtain s1 oc where s1: "(case key of None \<Rightarrow> Inr (self, Continue) | Some k \<Rightarrow> handle_key lc self k) = Inr (s1, oc)"
      "app_ok s1" "is_live s1" "app_timeline s1 = app_timeline self" "app_live_status s1 = app_live_status self"
  proof (cases key)
    case None
    then show thesis using that [of self Continue] Cons.prems by simp
  next
    case (Some k)
    with handle_key_ok [OF Cons.prems(3), of lc k] obtain s1 oc where "handle_key lc self k = Inr (s1, oc)" by blast
    with handle_key_frame [OF Cons.prems(3) this] handle_key_status [OF this] Some Cons.prems(4) show thesis using that by auto
  qed
  show ?case
  proof (cases "oc = Quit")
    case True
    then have "tr' = tr" "self' = s1" using Cons.prems(1) s1(1) by (simp_all add: fr)
    with s1(4,5) show ?thesis by (intro exI [of _ 0]) (simp add: observe_all_def)
  next
    case False
    obtain s' s2 where s2: "next_frame lc t (tr, first) s1 f = Inr (s', s2)" "room (map snd frames) s'" "app_ok s2" "is_live s2"
      using live_frames.frame_ok [of f "map snd frames" "(tr, first)" s1 lc t] s1 Cons.prems(2) by (auto simp: fr)
    obtain tr2 first2 where s': "s' = (tr2, first2)" by (cases s')
    have run: "live_loop lc (next_frame lc t) (tr2, first2) s2 frames = Inr ((tr', first'), self')"
      using Cons.prems(1) s1(1) s2(1) False by (simp add: fr s')
    obtain n where n: "n \<le> length frames"
        "observe_all tr2 (event_items (concat (map (\<lambda>fr. lf_events (snd fr)) (take n frames)))) = Inr tr'"
        "0 < n \<longrightarrow> app_timeline self' = snapshot tr' \<and> app_live_status self' = frame_status (snd (frames ! (n - 1)))"
        "n = 0 \<longrightarrow> app_timeline self' = app_timeline s2 \<and> app_live_status self' = app_live_status s2"
      using Cons.IH [OF run _ s2(3,4)] s2(2) by (auto simp: s')
    have "observe_all tr (event_items (lf_events f)) = Inr tr2" using next_frame_folds s2(1) by (simp add: s')
    with n(2) have all: "observe_all tr (event_items (concat (map (\<lambda>fr. lf_events (snd fr)) (take (Suc n) (fr # frames))))) = Inr tr'"
      by (simp add: fr event_items_append observe_all_def try_fold_append)
    have "app_timeline self' = snapshot tr' \<and> app_live_status self' = frame_status (snd ((fr # frames) ! n))"
    proof (cases "n = 0")
      case True
      then have "tr' = tr2" using n(2) by (simp add: observe_all_def)
      with True n(4) next_frame_timeline [OF s2(1)] next_frame_status [OF s2(1)] show ?thesis by (simp add: s' fr)
    qed (use n(3) in \<open>simp add: nth_Cons'\<close>)
    with all n(1) show ?thesis by (intro exI [of _ "Suc n"]) simp
  qed
qed

lemma live_session_returns:
  assumes "sum_list (map (\<lambda>fr. live_items (lf_events (snd fr))) frames) < 2 ^ 32"
  shows "room (map snd frames) (tracker_new (live_engine_config secs), False)"
    and "\<exists>s self. run_live_session lc iface secs frames = Inr (s, self)"
proof -
  have "wf 0 (tracker_new (live_engine_config secs))" by (rule wf_new)
  then show room: "room (map snd frames) (tracker_new (live_engine_config secs), False)"
    using assms by (force simp: room_def comp_def)
  from live_frames.live_loop_ok [OF this, of "new_live lc name_table_default (live_title iface)" lc "live_title iface"]
  show "\<exists>s self. run_live_session lc iface secs frames = Inr (s, self)"
    using new_live_ok by (auto simp: run_live_session_def)
qed

section \<open>The hint\<close>

text \<open>
  The hint that no packets have arrived stays until a TCP segment does: names and ticks received
  do not clear it.
\<close>

fun is_segment :: "live_event \<Rightarrow> bool" where
  "is_segment (LiveItem (Segment s)) = True"
| "is_segment ev = False"

lemma drain_first:
  assumes "try_fold drain_event ((tr, first), self) evs = Inr ((tr', first'), self')"
  shows "first' \<longleftrightarrow> first \<or> list_ex is_segment evs"
  using assms
proof (induction evs arbitrary: tr first self)
  case (Cons ev evs)
  obtain tr1 first1 self1 where step: "drain_event ((tr, first), self) ev = Inr ((tr1, first1), self1)"
      and rest: "try_fold drain_event ((tr1, first1), self1) evs = Inr ((tr', first'), self')"
    using Cons.prems by (auto simp: and_then_Inr_iff)
  have "first1 \<longleftrightarrow> first \<or> is_segment ev"
    using step by (cases ev rule: is_segment.cases) (auto simp: drain_event_def and_then_Inr_iff)
  with Cons.IH [OF rest] show ?case by auto
qed simp

theorem hint_until_segment:
  assumes "next_frame lc base_title (tr, first) self f = Inr ((tr', first'), self')"
  shows "app_title self' = base_title \<longleftrightarrow> first \<or> list_ex is_segment (lf_events f) \<or> lf_elapsed f < LIVE_GRACE"
proof -
  obtain tr1 first1 self1 self2 where d: "try_fold drain_event ((tr, first), self) (lf_events f) = Inr ((tr1, first1), self1)"
      "self' = (case grace_hint first1 (lf_elapsed f) of
         Some hint \<Rightarrow> set_title self2 (base_title @ utext ''  ['' @ hint @ utext '']'')
       | None \<Rightarrow> set_title self2 base_title)"
    using assms by (auto simp: next_frame_def and_then_Inr_iff)
  have ne: "utext ''  ['' \<noteq> []" by (simp add: utext_def)
  show ?thesis using d(2) ne drain_first [OF d(1)] by (auto simp: grace_hint_def set_title_def split: if_splits)
qed
section \<open>Properties\<close>

text \<open>
  Claim C7: no event is lost silently. However the capture thread and the frames interleave, the channel
  holds at most its capacity, what was received and is queued are captured events in their
  order, and the drop counter is exactly the number of the others; when it is zero, everything
  captured has been received or is still queued.
\<close>

theorem channel_conserves:
  assumes "interleaving p"
  shows "length (queue (pi_channel p)) \<le> CHANNEL_CAPACITY
    \<and> subseq (pi_received p @ queue (pi_channel p)) (pi_captured p)
    \<and> pi_dropped p = of_nat (length (pi_captured p) - length (pi_received p @ queue (pi_channel p)))
    \<and> (pi_dropped p = 0 \<and> length (pi_captured p) < 2 ^ 64 \<longrightarrow> pi_received p @ queue (pi_channel p) = pi_captured p)"
  using interleaving_inv [OF assms] nothing_dropped [OF assms] by (auto simp: pipe_inv_def)

definition example_event :: live_event where
  "example_event = LiveItem (Segment (client_seg 1000 100 0 SYN 0))"

definition example_pipe :: pipe where
  "example_pipe =
     (case receive_event (capture_event (capture_event pipe_new example_event) (LiveItem (Tick 5000))) of
        Some (ev, p) \<Rightarrow> p | None \<Rightarrow> pipe_new)"

lemma example_pipe_interleaving: "interleaving example_pipe"
proof -
  let ?p = "capture_event (capture_event pipe_new example_event) (LiveItem (Tick 5000))"
  have "interleaving ?p" by (intro interleaving.captured interleaving.start)
  then have "interleaving p'" if "receive_event ?p = Some (ev, p')" for ev p' using that by (rule interleaving.received)
  then show ?thesis by (auto simp: example_pipe_def intro: interleaving.start split: option.splits)
qed

lemma example_pipe_simps:
  "pi_received example_pipe = [example_event]" "queue (pi_channel example_pipe) = [LiveItem (Tick 5000)]"
  "pi_captured example_pipe = [example_event, LiveItem (Tick 5000)]" "pi_dropped example_pipe = 0"
  by (simp_all add: example_pipe_def capture_event_def receive_event_def try_send_or_count_def pipe_new_def CHANNEL_CAPACITY_def)

theorem channel_conserves_witness:
  "pi_received example_pipe @ queue (pi_channel example_pipe) = pi_captured example_pipe
   \<and> pi_received example_pipe = [example_event]"
proof -
  have "pi_dropped example_pipe = 0 \<and> length (pi_captured example_pipe) < 2 ^ 64"
    by (simp add: example_pipe_simps)
  with channel_conserves [OF example_pipe_interleaving] show ?thesis by (simp add: example_pipe_simps)
qed

text \<open>
  A live view that shows no drops is exact. When the frames of a session have taken the events
  received from the channel and nothing was dropped, the session's tracker has folded exactly
  the first events that were captured, in their order, and the connections on view are its
  snapshot.
\<close>

theorem live_view_without_drops:
  assumes "interleaving p" and "pi_dropped p = 0" and "length (pi_captured p) < 2 ^ 32"
    and "concat (map (\<lambda>fr. lf_events (snd fr)) frames) = pi_received p"
    and "run_live_session lc iface secs frames = Inr ((tr, first), self)"
  shows "\<exists>evs rest. pi_captured p = evs @ rest
    \<and> observe_all (tracker_new (live_engine_config secs)) (event_items evs) = Inr tr
    \<and> (evs = [] \<or> app_timeline self = snapshot tr)"
proof -
  have all: "pi_received p @ queue (pi_channel p) = pi_captured p"
    using nothing_dropped [OF assms(1,2)] assms(3) by simp
  have sum: "sum_list (map (\<lambda>fr. live_items (lf_events (snd fr))) frames) = length (event_items (concat (map (\<lambda>fr. lf_events (snd fr)) frames)))"
    by (induction frames) (simp_all add: event_items_append length_event_items)
  have "length (event_items evs) \<le> length evs" for evs by (induction evs rule: event_items.induct) simp_all
  from this [of "pi_received p"] have "length (event_items (pi_received p)) < 2 ^ 32"
    using assms(3) arg_cong [OF all, of length] by simp
  then have "sum_list (map (\<lambda>fr. live_items (lf_events (snd fr))) frames) < 2 ^ 32" unfolding sum assms(4) .
  note room = live_session_returns(1) [OF this, of secs]
  obtain n where n: "n \<le> length frames"
      "observe_all (tracker_new (live_engine_config secs))
        (event_items (concat (map (\<lambda>fr. lf_events (snd fr)) (take n frames)))) = Inr tr"
      "0 < n \<longrightarrow> app_timeline self = snapshot tr"
    using live_loop_folds [OF assms(5) [unfolded run_live_session_def] room] new_live_ok by blast
  have "concat (map (\<lambda>fr. lf_events (snd fr)) (take n frames)) @ concat (map (\<lambda>fr. lf_events (snd fr)) (drop n frames)) = pi_received p"
    by (simp flip: assms(4) concat_append map_append)
  then have "pi_captured p = concat (map (\<lambda>fr. lf_events (snd fr)) (take n frames))
      @ (concat (map (\<lambda>fr. lf_events (snd fr)) (drop n frames)) @ queue (pi_channel p))"
    using all by (metis append.assoc)
  moreover have "concat (map (\<lambda>fr. lf_events (snd fr)) (take n frames)) = [] \<or> app_timeline self = snapshot tr"
    using n(3) by (cases n) auto
  ultimately show ?thesis using n(2) by blast
qed

definition example_drained :: "(key_event option \<times> live_frame) list" where
  "example_drained = [(None, \<lparr>lf_events = [example_event], lf_dropped = 0, lf_skips = 0, lf_elapsed = 0\<rparr>)]"

theorem live_view_without_drops_witness:
  "\<exists>tr first self evs rest. run_live_session ascii_lower ''eth0'' 120 example_drained = Inr ((tr, first), self)
    \<and> pi_captured example_pipe = evs @ rest
    \<and> observe_all (tracker_new (live_engine_config 120)) (event_items evs) = Inr tr
    \<and> (evs = [] \<or> app_timeline self = snapshot tr)"
proof -
  have "sum_list (map (\<lambda>fr. live_items (lf_events (snd fr))) example_drained) < 2 ^ 32"
    by (simp add: example_drained_def example_event_def)
  from live_session_returns(2) [OF this, of ascii_lower "''eth0''" 120] obtain tr first self where
    run: "run_live_session ascii_lower ''eth0'' 120 example_drained = Inr ((tr, first), self)" by auto
  have "pi_dropped example_pipe = 0" "length (pi_captured example_pipe) < 2 ^ 32"
    "concat (map (\<lambda>fr. lf_events (snd fr)) example_drained) = pi_received example_pipe"
    by (simp_all add: example_pipe_simps example_drained_def)
  from live_view_without_drops [OF example_pipe_interleaving this run] run show ?thesis by blast
qed

end
