(* ===== verification/Live_System.thy ===== *)
theory Live_System
  imports Live_Channel
begin

text \<open>
  A live session as two threads (\<^verbatim>\<open>run_live_command\<close> in \<^verbatim>\<open>crates/tcp-visr/src/main.rs\<close> and the capture loop
  in \<^verbatim>\<open>crates/tcpvisr-ingest/src/live.rs\<close>). The capture thread checks the stop flag, reads the handle
  and sends the events of what it read one by one; a frame drains the channel and only then
  loads the counters; leaving the loop drops the guard, which sets the flag and joins the thread.
  The system interleaves the three step relations; loads and stores are single steps. The state
  keeps the history of what was read and of the frames, for the statements only.
\<close>

section \<open>Threads and shared state\<close>

datatype thread_phase = Checking | Reading | Sending "live_event list" | Finished

datatype ui_phase =
    Between
  | Draining "live_event list"
  | Drained "live_event list"
  | Counted "live_event list" u64
  | Leaving
  | Joining
  | Returned
  | Closed

record live_system =
  sy_thread :: thread_phase
  sy_capture :: live_state
  sy_pipe :: pipe
  sy_stop :: bool
  sy_ui :: ui_phase
  sy_reads :: "live_outcome list"
  sy_frames :: "live_frame list"

definition system_new :: live_system where
  "system_new =
     \<lparr>sy_thread = Checking, sy_capture = live_state_new, sy_pipe = pipe_new, sy_stop = False, sy_ui = Between,
      sy_reads = [], sy_frames = []\<rparr>"

section \<open>The capture thread\<close>

text \<open>What an iteration of the capture loop makes of the outcome it read.\<close>

definition live_outcome_step :: "decoder \<Rightarrow> link_type \<Rightarrow> bool \<Rightarrow> live_state \<Rightarrow> live_outcome \<Rightarrow> live_state" where
  "live_outcome_step decode link nanos ls out =
     (case out of
        LivePacket p \<Rightarrow> live_packet decode link nanos ls p
      | TimeoutExpired now \<Rightarrow>
          (let (ts, base) = normalize_ts (wall_now_ns now) (lv_baseline ls)
           in ls\<lparr>lv_baseline := base, lv_events := lv_events ls @ [LiveItem (Tick ts)]\<rparr>)
      | LiveReadError \<Rightarrow> ls)"

definition new_events :: "live_state \<Rightarrow> live_state \<Rightarrow> live_event list" where
  "new_events ls ls' = drop (length (lv_events ls)) (lv_events ls')"

inductive capture_step :: "decoder \<Rightarrow> link_type \<Rightarrow> bool \<Rightarrow> live_system \<Rightarrow> live_system \<Rightarrow> bool" for decode link nanos where
  stop_seen: "sy_thread s = Checking \<Longrightarrow> sy_stop s \<Longrightarrow> capture_step decode link nanos s (s\<lparr>sy_thread := Finished\<rparr>)"
| go_on: "sy_thread s = Checking \<Longrightarrow> \<not> sy_stop s \<Longrightarrow> capture_step decode link nanos s (s\<lparr>sy_thread := Reading\<rparr>)"
| read: "sy_thread s = Reading \<Longrightarrow> out \<noteq> LiveReadError \<Longrightarrow> ls = live_outcome_step decode link nanos (sy_capture s) out \<Longrightarrow>
    capture_step decode link nanos s
      (s\<lparr>sy_thread := Sending (new_events (sy_capture s) ls), sy_capture := ls, sy_reads := sy_reads s @ [out]\<rparr>)"
| read_failed: "sy_thread s = Reading \<Longrightarrow>
    capture_step decode link nanos s (s\<lparr>sy_thread := Finished, sy_reads := sy_reads s @ [LiveReadError]\<rparr>)"
| send: "sy_thread s = Sending (ev # evs) \<Longrightarrow>
    capture_step decode link nanos s (s\<lparr>sy_thread := Sending evs, sy_pipe := capture_event (sy_pipe s) ev\<rparr>)"
| sent: "sy_thread s = Sending [] \<Longrightarrow> capture_step decode link nanos s (s\<lparr>sy_thread := Checking\<rparr>)"

section \<open>Frames\<close>

inductive frame_step :: "live_system \<Rightarrow> live_system \<Rightarrow> bool" where
  start_frame: "sy_ui s = Between \<Longrightarrow> frame_step s (s\<lparr>sy_ui := Draining []\<rparr>)"
| receive: "sy_ui s = Draining evs \<Longrightarrow> receive_event (sy_pipe s) = Some (ev, p) \<Longrightarrow>
    frame_step s (s\<lparr>sy_ui := Draining (evs @ [ev]), sy_pipe := p\<rparr>)"
| empty: "sy_ui s = Draining evs \<Longrightarrow> receive_event (sy_pipe s) = None \<Longrightarrow> frame_step s (s\<lparr>sy_ui := Drained evs\<rparr>)"
| load_dropped: "sy_ui s = Drained evs \<Longrightarrow> frame_step s (s\<lparr>sy_ui := Counted evs (pi_dropped (sy_pipe s))\<rparr>)"
| load_skips: "sy_ui s = Counted evs d \<Longrightarrow>
    frame_step s (s\<lparr>sy_ui := Between, sy_frames := sy_frames s @
      [\<lparr>lf_events = evs, lf_dropped = d, lf_skips = lv_diagnostic (sy_capture s), lf_elapsed = t\<rparr>]\<rparr>)"

section \<open>Leaving\<close>

text \<open>
  The loop is left between frames (a key, an error of the terminal) or by a panic anywhere. The
  guard is dropped then; the receiver lives until the command returns.
\<close>

inductive guard_step :: "live_system \<Rightarrow> live_system \<Rightarrow> bool" where
  leave: "sy_ui s \<notin> {Leaving, Joining, Returned, Closed} \<Longrightarrow> guard_step s (s\<lparr>sy_ui := Leaving\<rparr>)"
| set_stop: "sy_ui s = Leaving \<Longrightarrow> guard_step s (s\<lparr>sy_ui := Joining, sy_stop := True\<rparr>)"
| join: "sy_ui s = Joining \<Longrightarrow> sy_thread s = Finished \<Longrightarrow> guard_step s (s\<lparr>sy_ui := Returned\<rparr>)"
| close: "sy_ui s = Returned \<Longrightarrow> guard_step s (s\<lparr>sy_ui := Closed, sy_pipe := hang_up (sy_pipe s)\<rparr>)"

definition system_step :: "decoder \<Rightarrow> link_type \<Rightarrow> bool \<Rightarrow> live_system \<Rightarrow> live_system \<Rightarrow> bool" where
  "system_step decode link nanos s s' \<longleftrightarrow> capture_step decode link nanos s s' \<or> frame_step s s' \<or> guard_step s s'"

definition system_run :: "decoder \<Rightarrow> link_type \<Rightarrow> bool \<Rightarrow> live_system \<Rightarrow> bool" where
  "system_run decode link nanos s \<longleftrightarrow> (system_step decode link nanos)\<^sup>*\<^sup>* system_new s"

lemma system_run_induct [consumes 1, case_names new capture frame guard]:
  assumes "system_run decode link nanos s" and "P system_new"
    and "\<And>s s'. P s \<Longrightarrow> capture_step decode link nanos s s' \<Longrightarrow> P s'"
    and "\<And>s s'. P s \<Longrightarrow> frame_step s s' \<Longrightarrow> P s'"
    and "\<And>s s'. P s \<Longrightarrow> guard_step s s' \<Longrightarrow> P s'"
  shows "P s"
  using assms(1) unfolding system_run_def
proof (induction rule: rtranclp_induct)
  case base
  show ?case by (rule assms(2))
next
  case (step s s')
  from step(2) show ?case unfolding system_step_def using assms(3-5) [OF step(3)] by blast
qed

section \<open>The channel interleaves\<close>

lemma run_interleaving: "system_run decode link nanos s \<Longrightarrow> interleaving (sy_pipe s)"
proof (induction rule: system_run_induct)
  case (capture s s')
  then show ?case by (auto elim!: capture_step.cases intro: interleaving.captured)
next
  case (frame s s')
  then show ?case by (auto elim!: frame_step.cases intro: interleaving.received)
next
  case (guard s s')
  then show ?case by (auto elim!: guard_step.cases intro: interleaving.hung_up)
qed (simp add: system_new_def interleaving.start)

section \<open>The thread runs the capture loop\<close>

definition live_reads :: "decoder \<Rightarrow> link_type \<Rightarrow> bool \<Rightarrow> live_outcome list \<Rightarrow> live_state" where
  "live_reads decode link nanos outs = foldl (live_outcome_step decode link nanos) live_state_new outs"

definition to_send :: "thread_phase \<Rightarrow> live_event list" where
  "to_send ph = (case ph of Sending evs \<Rightarrow> evs | _ \<Rightarrow> [])"

definition thread_inv :: "decoder \<Rightarrow> link_type \<Rightarrow> bool \<Rightarrow> live_system \<Rightarrow> bool" where
  "thread_inv decode link nanos s \<longleftrightarrow>
     sy_capture s = live_reads decode link nanos (sy_reads s)
     \<and> lv_events (sy_capture s) = pi_captured (sy_pipe s) @ to_send (sy_thread s)
     \<and> (\<exists>outs. LiveReadError \<notin> set outs \<and>
          (sy_reads s = outs \<and> (sy_thread s = Finished \<longrightarrow> sy_stop s)
           \<or> sy_reads s = outs @ [LiveReadError] \<and> sy_thread s = Finished))"

lemma live_events_grow:
  "lv_events (live_outcome_step decode link nanos ls out) = lv_events ls @ new_events ls (live_outcome_step decode link nanos ls out)"
  by (simp add: new_events_def live_outcome_step_def live_packet_def Let_def case_prod_beta
      split: live_outcome.splits decode_outcome.splits)

lemma captured_simps [simp]:
  "pi_captured (capture_event p ev) = pi_captured p @ [ev]" "pi_captured (hang_up p) = pi_captured p"
  "pi_received (capture_event p ev) = pi_received p" "pi_received (hang_up p) = pi_received p"
  by (simp_all add: capture_event_def hang_up_def case_prod_beta)

lemma received_simps:
  "receive_event p = Some (ev, p') \<Longrightarrow> pi_captured p' = pi_captured p \<and> pi_received p' = pi_received p @ [ev]"
  by (auto simp: receive_event_def split: list.splits)

lemma run_thread_inv: "system_run decode link nanos s \<Longrightarrow> thread_inv decode link nanos s"
proof (induction rule: system_run_induct)
  case new
  then show ?case by (simp add: thread_inv_def system_new_def live_reads_def to_send_def live_state_new_def pipe_new_def)
next
  case (capture s s')
  from capture(2,1) show ?case
  proof cases
    case (read out ls)
    with capture(1) show ?thesis
      using live_events_grow [of decode link nanos "sy_capture s" out]
      by (auto simp: thread_inv_def live_reads_def to_send_def intro!: exI [of _ "sy_reads s @ [out]"])
  next
    case read_failed
    with capture(1) show ?thesis
      by (auto simp: thread_inv_def live_reads_def to_send_def live_outcome_step_def)
  qed (use capture(1) in \<open>auto simp: thread_inv_def to_send_def\<close>)
next
  case (frame s s')
  then show ?case by (auto elim!: frame_step.cases dest!: received_simps simp: thread_inv_def)
next
  case (guard s s')
  then show ?case by (auto elim!: guard_step.cases simp: thread_inv_def)
qed

text \<open>The steps of the thread refine the function \<open>live_run\<close> on what was read.\<close>

lemma live_run_reads:
  assumes "LiveReadError \<notin> set outs"
  shows "live_run decode link nanos ls (map (Pair False) outs @ rest)
    = live_run decode link nanos (foldl (live_outcome_step decode link nanos) ls outs) rest"
  using assms
proof (induction outs arbitrary: ls)
  case (Cons out outs)
  then show ?case by (cases out) (auto simp: live_outcome_step_def case_prod_beta)
qed simp

section \<open>Frames and the drop counter\<close>

definition taken :: "live_frame list \<Rightarrow> live_event list" where
  "taken fs = concat (map lf_events fs)"

definition in_hand :: "ui_phase \<Rightarrow> live_event list" where
  "in_hand ui = (case ui of Draining evs \<Rightarrow> evs | Drained evs \<Rightarrow> evs | Counted evs d \<Rightarrow> evs | _ \<Rightarrow> [])"

definition counted_exact :: "live_event list \<Rightarrow> live_frame list \<Rightarrow> ui_phase \<Rightarrow> bool" where
  "counted_exact captured fs ui \<longleftrightarrow>
     (\<forall>i<length fs. lf_dropped (fs ! i) = 0 \<longrightarrow> prefix (taken (take (Suc i) fs)) captured)
     \<and> (\<forall>evs. ui = Counted evs 0 \<longrightarrow> prefix (taken fs @ evs) captured)"

definition frame_inv :: "live_system \<Rightarrow> bool" where
  "frame_inv s \<longleftrightarrow>
     (\<exists>rest. pi_received (sy_pipe s) = taken (sy_frames s) @ in_hand (sy_ui s) @ rest
        \<and> (sy_ui s \<notin> {Leaving, Joining, Returned, Closed} \<longrightarrow> rest = []))
     \<and> (length (pi_captured (sy_pipe s)) < 2 ^ 64 \<longrightarrow> counted_exact (pi_captured (sy_pipe s)) (sy_frames s) (sy_ui s))"

lemma capture_step_effect:
  assumes "capture_step decode link nanos s s'"
  shows "sy_ui s' = sy_ui s" and "sy_frames s' = sy_frames s" and "sy_stop s' = sy_stop s"
    and "pi_received (sy_pipe s') = pi_received (sy_pipe s)"
    and "\<exists>xs. pi_captured (sy_pipe s') = pi_captured (sy_pipe s) @ xs"
  using assms by (auto elim!: capture_step.cases)

lemma counted_exact_grows: "counted_exact captured fs ui \<Longrightarrow> counted_exact (captured @ xs) fs ui"
  by (auto simp: counted_exact_def)

lemma counted_exact_frame:
  assumes "counted_exact captured fs (Counted evs d)"
  shows "counted_exact captured (fs @ [\<lparr>lf_events = evs, lf_dropped = d, lf_skips = k, lf_elapsed = t\<rparr>]) Between"
  using assms by (auto simp: counted_exact_def nth_append taken_def less_Suc_eq)

lemma run_frame_inv: "system_run decode link nanos s \<Longrightarrow> interleaving (sy_pipe s) \<and> frame_inv s"
proof (induction rule: system_run_induct)
  case new
  then show ?case
    by (auto simp: frame_inv_def system_new_def pipe_new_def taken_def in_hand_def counted_exact_def intro: interleaving.start [unfolded pipe_new_def])
next
  case (capture s s')
  then have "interleaving (sy_pipe s')" by (auto elim!: capture_step.cases intro: interleaving.captured)
  moreover have "frame_inv s'"
    using capture capture_step_effect [OF capture(2)] by (auto simp: frame_inv_def intro: counted_exact_grows)
  ultimately show ?case ..
next
  case (frame s s')
  then have "interleaving (sy_pipe s')" by (auto elim!: frame_step.cases intro: interleaving.received)
  moreover from frame(2) have "frame_inv s'"
  proof cases
    case (load_dropped evs)
    have "prefix (pi_received (sy_pipe s)) (pi_captured (sy_pipe s))"
      if "pi_dropped (sy_pipe s) = 0" "length (pi_captured (sy_pipe s)) < 2 ^ 64"
      using nothing_dropped [OF _ that] frame(1) by (metis prefixI)
    with frame(1) load_dropped show ?thesis by (auto simp: frame_inv_def in_hand_def counted_exact_def)
  next
    case (load_skips evs d t)
    with frame(1) show ?thesis by (auto simp: frame_inv_def in_hand_def taken_def intro: counted_exact_frame)
  qed (use frame(1) in \<open>auto simp: frame_inv_def in_hand_def counted_exact_def dest!: received_simps\<close>)
  ultimately show ?case ..
next
  case (guard s s')
  then have "interleaving (sy_pipe s')" by (auto elim!: guard_step.cases intro: interleaving.hung_up)
  moreover have "frame_inv s'"
    using guard by (auto elim!: guard_step.cases simp: frame_inv_def in_hand_def counted_exact_def)
  ultimately show ?case ..
qed

section \<open>Joining\<close>

text \<open>Once the flag is set, every step brings the return of the command nearer.\<close>

definition closing :: "live_system \<Rightarrow> bool" where
  "closing s \<longleftrightarrow> sy_stop s \<and> sy_ui s \<in> {Joining, Returned, Closed}
     \<and> (sy_ui s \<in> {Returned, Closed} \<longrightarrow> sy_thread s = Finished)"

fun thread_rank :: "thread_phase \<Rightarrow> nat" where
  "thread_rank Reading = 3"
| "thread_rank (Sending evs) = 2"
| "thread_rank Checking = 1"
| "thread_rank Finished = 0"

fun ui_rank :: "ui_phase \<Rightarrow> nat" where
  "ui_rank Joining = 2"
| "ui_rank Returned = 1"
| "ui_rank ui = 0"

definition closing_rank :: "live_system \<Rightarrow> nat \<times> nat" where
  "closing_rank s = (thread_rank (sy_thread s) + ui_rank (sy_ui s), length (to_send (sy_thread s)))"

lemma closing_step:
  assumes "closing s" and "system_step decode link nanos s s'"
  shows "closing s' \<and> (closing_rank s', closing_rank s) \<in> less_than <*lex*> less_than"
  using assms(2) unfolding system_step_def
proof (elim disjE)
  assume "capture_step decode link nanos s s'"
  then show ?thesis using assms(1) by (auto elim!: capture_step.cases simp: closing_def closing_rank_def to_send_def)
next
  assume "frame_step s s'"
  then show ?thesis using assms(1) by (auto elim!: frame_step.cases simp: closing_def)
next
  assume "guard_step s s'"
  then show ?thesis using assms(1) by (auto elim!: guard_step.cases simp: closing_def closing_rank_def to_send_def)
qed

lemma closing_progress:
  assumes "closing s" and "sy_ui s \<noteq> Closed"
  shows "\<exists>s'. system_step decode link nanos s s'"
proof (cases "sy_thread s")
  case Finished
  then show ?thesis using assms unfolding closing_def system_step_def by (blast intro: join close)
next
  case (Sending evs)
  then show ?thesis unfolding system_step_def by (cases evs) (blast intro: send sent)+
qed (use assms in \<open>unfold closing_def system_step_def, blast intro: stop_seen read_failed\<close>)+

lemma closing_steps: "(system_step decode link nanos)\<^sup>*\<^sup>* s s' \<Longrightarrow> closing s \<Longrightarrow> closing s'"
  by (induction rule: rtranclp_induct) (use closing_step in blast)+

lemma no_infinite_closing:
  assumes "closing (f 0)"
  shows "\<exists>i. \<not> system_step decode link nanos (f i) (f (Suc i))"
proof (rule ccontr)
  assume "\<nexists>i. \<not> system_step decode link nanos (f i) (f (Suc i))"
  then have step: "system_step decode link nanos (f i) (f (Suc i))" for i by blast
  have cl: "closing (f i)" for i by (induction i) (use assms closing_step step in blast)+
  have down: "(closing_rank (f (Suc i)), closing_rank (f i)) \<in> less_than <*lex*> less_than" for i using closing_step [OF cl step] by blast
  have "\<exists>i. (g (Suc i), g i) \<notin> less_than <*lex*> less_than" for g :: "nat \<Rightarrow> nat \<times> nat"
    using wf_lex_prod [OF wf_less_than wf_less_than] unfolding wf_iff_no_infinite_down_chain by blast
  from this [of "\<lambda>i. closing_rank (f i)"] down show False by blast
qed

lemma run_closing:
  assumes "system_run decode link nanos s" and "sy_ui s \<in> {Joining, Returned, Closed}"
  shows "closing s"
proof -
  have "sy_ui s \<in> {Joining, Returned, Closed} \<longrightarrow> closing s"
    using assms(1)
  proof (induction rule: system_run_induct)
    case (capture s s')
    then show ?case by (auto elim!: capture_step.cases simp: closing_def)
  next
    case (frame s s')
    then show ?case by (auto elim!: frame_step.cases simp: closing_def)
  next
    case (guard s s')
    then show ?case by (auto elim!: guard_step.cases simp: closing_def)
  qed (simp add: system_new_def)
  with assms(2) show ?thesis by blast
qed

lemma items_of_frames:
  "sum_list (map (\<lambda>fr. live_items (lf_events (snd fr))) frames) \<le> length (concat (map (\<lambda>fr. lf_events (snd fr)) frames))"
proof -
  have "live_items evs \<le> length evs" for evs by (induction evs rule: event_items.induct) simp_all
  then show ?thesis by (induction frames) (auto simp: add_mono)
qed

section \<open>A small run\<close>

lemma run_steps:
  assumes "system_run decode link nanos s"
  shows "capture_step decode link nanos s s' \<Longrightarrow> system_run decode link nanos s'"
    and "frame_step s s' \<Longrightarrow> system_run decode link nanos s'" and "guard_step s s' \<Longrightarrow> system_run decode link nanos s'"
  using assms unfolding system_run_def by (auto intro: rtranclp.rtrancl_into_rtrancl simp: system_step_def)

definition example_tick :: live_outcome where "example_tick = TimeoutExpired (Some 7)"

definition example_received :: live_frame where
  "example_received = \<lparr>lf_events = [LiveItem (Tick 0)], lf_dropped = 0, lf_skips = 0, lf_elapsed = 9\<rparr>"

definition example_pipe_at :: "live_event list \<Rightarrow> live_event list \<Rightarrow> pipe" where
  "example_pipe_at captured received =
     \<lparr>pi_channel = \<lparr>queue = drop (length received) captured, capacity = CHANNEL_CAPACITY, connected = True\<rparr>, pi_dropped = 0,
      pi_captured = captured, pi_received = received\<rparr>"

text \<open>The read timeout gives a tick, a frame receives it, the user leaves while the thread reads again.\<close>

definition example_system :: live_system where
  "example_system =
     \<lparr>sy_thread = Reading, sy_capture = live_reads (\<lambda>_ _ _ _. Skipped NonTcp) Ethernet True [example_tick],
      sy_pipe = example_pipe_at [LiveItem (Tick 0)] [LiveItem (Tick 0)], sy_stop = True, sy_ui = Joining,
      sy_reads = [example_tick], sy_frames = [example_received]\<rparr>"

lemma example_system_run: "system_run (\<lambda>_ _ _ _. Skipped NonTcp) Ethernet True example_system"
proof -
  let ?run = "system_run (\<lambda>_ _ _ _. Skipped NonTcp) Ethernet True"
  let ?cap = "live_reads (\<lambda>_ _ _ _. Skipped NonTcp) Ethernet True [example_tick]"
  let ?ev = "LiveItem (Tick 0)"
  let ?s = "\<lambda>th cap p stop ui rd fr. \<lparr>sy_thread = th, sy_capture = cap, sy_pipe = p, sy_stop = stop, sy_ui = ui, sy_reads = rd, sy_frames = fr\<rparr>"
  have cap: "live_outcome_step (\<lambda>_ _ _ _. Skipped NonTcp) Ethernet True live_state_new example_tick = ?cap" by (simp add: live_reads_def)
  have new: "new_events live_state_new ?cap = [?ev]" "lv_diagnostic ?cap = 0"
    by (simp_all add: new_events_def live_reads_def live_state_new_def live_outcome_step_def example_tick_def normalize_ts_def)
  have tick: "example_tick \<noteq> LiveReadError" by (simp add: example_tick_def)
  have pipe: "pipe_new = example_pipe_at [] []" "capture_event (example_pipe_at [] []) ?ev = example_pipe_at [?ev] []"
    "receive_event (example_pipe_at [?ev] []) = Some (?ev, example_pipe_at [?ev] [?ev])"
    "receive_event (example_pipe_at [?ev] [?ev]) = None" "pi_dropped (example_pipe_at [?ev] [?ev]) = 0"
    by (simp_all add: pipe_new_def example_pipe_at_def capture_event_def try_send_or_count_def receive_event_def CHANNEL_CAPACITY_def)
  have "?run system_new" by (simp add: system_run_def)
  then have "?run (?s Checking live_state_new (example_pipe_at [] []) False Between [] [])" by (simp add: system_new_def pipe)
  from run_steps(1) [OF this go_on] have "?run (?s Reading live_state_new (example_pipe_at [] []) False Between [] [])" by simp
  from run_steps(1) [OF this read [OF _ tick refl]]
  have "?run (?s (Sending [?ev]) ?cap (example_pipe_at [] []) False Between [example_tick] [])" by (simp add: cap new)
  from run_steps(1) [OF this send] have "?run (?s (Sending []) ?cap (example_pipe_at [?ev] []) False Between [example_tick] [])" by (simp add: pipe)
  from run_steps(1) [OF this sent] have "?run (?s Checking ?cap (example_pipe_at [?ev] []) False Between [example_tick] [])" by simp
  from run_steps(1) [OF this go_on] have "?run (?s Reading ?cap (example_pipe_at [?ev] []) False Between [example_tick] [])" by simp
  from run_steps(2) [OF this start_frame] have "?run (?s Reading ?cap (example_pipe_at [?ev] []) False (Draining []) [example_tick] [])" by simp
  from run_steps(2) [OF this receive] have "?run (?s Reading ?cap (example_pipe_at [?ev] [?ev]) False (Draining [?ev]) [example_tick] [])"
    by (simp add: pipe)
  from run_steps(2) [OF this empty] have "?run (?s Reading ?cap (example_pipe_at [?ev] [?ev]) False (Drained [?ev]) [example_tick] [])"
    by (simp add: pipe)
  from run_steps(2) [OF this load_dropped] have "?run (?s Reading ?cap (example_pipe_at [?ev] [?ev]) False (Counted [?ev] 0) [example_tick] [])"
    by (simp add: pipe)
  from run_steps(2) [OF this load_skips [where t = 9]]
  have "?run (?s Reading ?cap (example_pipe_at [?ev] [?ev]) False Between [example_tick] [example_received])"
    by (simp add: example_received_def new)
  from run_steps(3) [OF this leave] have "?run (?s Reading ?cap (example_pipe_at [?ev] [?ev]) False Leaving [example_tick] [example_received])" by simp
  from run_steps(3) [OF this set_stop] show ?thesis by (simp add: example_system_def)
qed

section \<open>Properties\<close>

text \<open>
  Claim C2: a live view that is not marked approximate is exact. However the capture thread and the
  frames interleave, when the status of the last frame shows no drops, the session's tracker has
  folded exactly the first events the capture loop made of what it read, in their order, and
  the connections on view are its snapshot. This rests on the counter being loaded after the
  channel was drained.
\<close>

theorem live_view_exact:
  assumes "system_run decode link nanos s" and "length (pi_captured (sy_pipe s)) < 2 ^ 32"
    and "map snd frames = sy_frames s" and "run_live_session lc iface secs frames = Inr ((tr, first), self)"
    and "\<not> ls_approximate (app_live_status self)"
  shows "\<exists>evs rest. lv_events (live_reads decode link nanos (sy_reads s)) = evs @ rest
    \<and> observe_all (tracker_new (live_engine_config secs)) (event_items evs) = Inr tr
    \<and> (evs = [] \<or> app_timeline self = snapshot tr)"
proof -
  have inv: "interleaving (sy_pipe s)" "frame_inv s" using run_frame_inv [OF assms(1)] by blast+
  have events: "lv_events (live_reads decode link nanos (sy_reads s)) = pi_captured (sy_pipe s) @ to_send (sy_thread s)"
    using run_thread_inv [OF assms(1)] by (auto simp: thread_inv_def)
  have all: "taken (map snd frames) = concat (map (\<lambda>fr. lf_events (snd fr)) frames)" by (simp add: taken_def comp_def)
  obtain rest where received: "pi_received (sy_pipe s) = taken (map snd frames) @ rest"
    using inv(2) assms(3) by (auto simp: frame_inv_def)
  have "subseq (pi_received (sy_pipe s) @ queue (pi_channel (sy_pipe s))) (pi_captured (sy_pipe s))"
    using interleaving_inv [OF inv(1)] by (simp add: pipe_inv_def)
  from list_emb_length [OF this] have "length (taken (map snd frames)) < 2 ^ 32" using assms(2) received by simp
  then have "sum_list (map (\<lambda>fr. live_items (lf_events (snd fr))) frames) < 2 ^ 32"
    using items_of_frames [of frames] by (simp add: all)
  note room = live_session_returns(1) [OF this, of secs]
  obtain n where n: "n \<le> length frames"
      "observe_all (tracker_new (live_engine_config secs))
        (event_items (concat (map (\<lambda>fr. lf_events (snd fr)) (take n frames)))) = Inr tr"
      "0 < n \<longrightarrow> app_timeline self = snapshot tr \<and> app_live_status self = frame_status (snd (frames ! (n - 1)))"
    using live_loop_folds [OF assms(4) [unfolded run_live_session_def] room] new_live_ok by blast
  have "prefix (concat (map (\<lambda>fr. lf_events (snd fr)) (take n frames))) (pi_captured (sy_pipe s))"
  proof (cases n)
    case (Suc k)
    then have "lf_dropped (map snd frames ! k) = 0" using n(1,3) assms(5) by (simp add: frame_status_def word_gt_0)
    moreover have "counted_exact (pi_captured (sy_pipe s)) (map snd frames) (sy_ui s)"
      using inv(2) assms(2,3) by (simp add: frame_inv_def)
    ultimately have "prefix (taken (take (Suc k) (map snd frames))) (pi_captured (sy_pipe s))"
      using Suc n(1) by (simp add: counted_exact_def)
    then show ?thesis by (simp add: Suc taken_def take_map comp_def)
  qed simp
  then obtain rest' where "pi_captured (sy_pipe s) = concat (map (\<lambda>fr. lf_events (snd fr)) (take n frames)) @ rest'"
    by (auto elim: prefixE)
  moreover have "concat (map (\<lambda>fr. lf_events (snd fr)) (take n frames)) = [] \<or> app_timeline self = snapshot tr"
    using n(3) by (cases n) auto
  ultimately show ?thesis using n(2) events by (metis append.assoc)
qed

theorem live_view_exact_witness:
  "\<exists>tr first self evs rest. run_live_session ascii_lower ''eth0'' 120 [(None, example_received)] = Inr ((tr, first), self)
    \<and> lv_events (live_reads (\<lambda>_ _ _ _. Skipped NonTcp) Ethernet True [example_tick]) = evs @ rest
    \<and> observe_all (tracker_new (live_engine_config 120)) (event_items evs) = Inr tr
    \<and> (evs = [] \<or> app_timeline self = snapshot tr)"
proof -
  have "map_sum id (\<lambda>(s, self). ls_approximate (app_live_status self))
      (run_live_session ascii_lower ''eth0'' 120 [(None, example_received)]) = Inr False" by code_simp
  then obtain tr first self where run: "run_live_session ascii_lower ''eth0'' 120 [(None, example_received)] = Inr ((tr, first), self)"
      "\<not> ls_approximate (app_live_status self)"
    by (auto dest!: map_sum_InrD)
  have "length (pi_captured (sy_pipe example_system)) < 2 ^ 32" "map snd [(None :: key_event option, example_received)] = sy_frames example_system"
    by (simp_all add: example_system_def example_pipe_at_def)
  from live_view_exact [OF example_system_run this run] run(1) show ?thesis
    by (simp add: example_system_def)
qed

text \<open>
  Claim C3: leaving a live session ends it. However the guard is dropped, from the moment the command
  waits for the capture thread there is no infinite run of the system, and a run that cannot go
  on has the thread finished and the command returned; what reading the handle answers
  meanwhile (a packet, the read timeout, an error) does not matter.
\<close>

theorem live_shutdown:
  assumes "system_run decode link nanos s" and "sy_ui s = Joining"
  shows "(\<nexists>f. f 0 = s \<and> (\<forall>i. system_step decode link nanos (f i) (f (Suc i))))
    \<and> (\<forall>s'. (system_step decode link nanos)\<^sup>*\<^sup>* s s' \<and> (\<nexists>s''. system_step decode link nanos s' s'') \<longrightarrow>
         sy_ui s' = Closed \<and> sy_thread s' = Finished)"
proof -
  have "closing s" using run_closing [OF assms(1)] assms(2) by simp
  then show ?thesis
    using no_infinite_closing [of _ decode link nanos] closing_steps [of decode link nanos s] closing_progress [of _ decode link nanos]
    by (auto simp: closing_def)
qed

theorem live_shutdown_witness:
  "\<nexists>f. f 0 = example_system \<and> (\<forall>i. system_step (\<lambda>_ _ _ _. Skipped NonTcp) Ethernet True (f i) (f (Suc i)))"
proof -
  have "sy_ui example_system = Joining" by (simp add: example_system_def)
  from live_shutdown [OF example_system_run this] show ?thesis by blast
qed

text \<open>
  Claim C4: the capture thread computes the capture loop. In every interleaving the events handed to
  the channel and those still to be sent are the events of the outcomes read, in their order,
  and the state of the loop is the one \<^verbatim>\<open>LiveCapture::run\<close> ends with when it sees the stop flag after
  reading them, or an error among them.
\<close>

theorem capture_thread_refines:
  assumes "system_run decode link nanos s"
  shows "pi_captured (sy_pipe s) @ to_send (sy_thread s) = lv_events (live_reads decode link nanos (sy_reads s))
    \<and> live_run decode link nanos live_state_new (map (Pair False) (sy_reads s) @ [(True, LiveReadError)]) = Some (sy_capture s)"
proof -
  from run_thread_inv [OF assms] obtain outs where inv: "LiveReadError \<notin> set outs"
      "sy_reads s = outs \<and> (sy_thread s = Finished \<longrightarrow> sy_stop s) \<or> sy_reads s = outs @ [LiveReadError] \<and> sy_thread s = Finished"
      "sy_capture s = live_reads decode link nanos (sy_reads s)"
      "lv_events (sy_capture s) = pi_captured (sy_pipe s) @ to_send (sy_thread s)"
    by (auto simp: thread_inv_def)
  have "live_run decode link nanos live_state_new (map (Pair False) (sy_reads s) @ [(True, LiveReadError)]) = Some (sy_capture s)"
    using inv(2,3) live_run_reads [OF inv(1), of decode link nanos live_state_new]
    by (auto simp: live_reads_def live_outcome_step_def)
  with inv(3,4) show ?thesis by simp
qed

theorem capture_thread_refines_witness:
  "live_run (\<lambda>_ _ _ _. Skipped NonTcp) Ethernet True live_state_new [(False, example_tick), (True, LiveReadError)]
     = Some (sy_capture example_system)"
  using capture_thread_refines [OF example_system_run] by (simp add: example_system_def)

end
