(* ===== verification/Terminal.thy ===== *)
theory Terminal
  imports Drawn_Sessions
begin

text \<open>
  The terminal shell (\<^verbatim>\<open>crates/tcpvisr-tui/src/run.rs\<close>): the two event loops with drawing, polling and
  reading, their errors, and the set-up and restoration of the terminal around them. What the
  terminal answers in one iteration is a \<open>turn\<close>. The locale \<open>tui_loop\<close> is the contract between a
  loop and what it runs after a key; it is interpreted on both loops and shows that they draw
  the states of the pure loops of theory \<open>App\<close>, stop at the first error and never panic.
\<close>

section \<open>What the terminal answers\<close>

datatype key_kind = Press | Repeat | Release

text \<open>\<^verbatim>\<open>Event::Key\<close>, or a resize, focus, mouse or paste event.\<close>

datatype tui_event = KeyEvent key_kind key_event | OtherEvent

text \<open>
  One iteration: the answers to resizing, flushing, polling and reading, the frame's area, and the
  time since the iteration before.
\<close>

record turn =
  tn_resize :: "io_error option"
  tn_area :: rect
  tn_flush :: "io_error option"
  tn_poll :: "io_error + bool"
  tn_read :: "io_error + tui_event"
  tn_elapsed :: nat

text \<open>What is done to the terminal. The hook is the one \<^verbatim>\<open>ratatui::init\<close> installs for panics.\<close>

datatype term_call = InitTerminal | DrawFrame "draw list" | RestoreTerminal | HookRestore

text \<open>Why a loop ends: the user quits, an error is returned, or it panics.\<close>

datatype 's stop = Done 's | IoError io_error | Crash panic

section \<open>One iteration\<close>

text \<open>\<^verbatim>\<open>terminal.draw(...)?\<close>\<close>

definition tui_draw :: "toolkit \<Rightarrow> lowercase \<Rightarrow> app \<Rightarrow> turn \<Rightarrow> term_call list \<times> ('s stop + unit)" where
  "tui_draw tk lc self t =
     (case tn_resize t of
        Some e \<Rightarrow> ([], Inl (IoError e))
      | None \<Rightarrow>
          (case render tk lc self (tn_area t) of
             Inl p \<Rightarrow> ([], Inl (Crash p))
           | Inr ds \<Rightarrow>
               ([DrawFrame ds], case tn_flush t of Some e \<Rightarrow> Inl (IoError e) | None \<Rightarrow> Inr ())))"

text \<open>Polling, reading and handling a key press; a loop that breaks returns \<open>Done\<close>.\<close>

definition tui_key :: "lowercase \<Rightarrow> app \<Rightarrow> turn \<Rightarrow> app stop + app" where
  "tui_key lc self t =
     (case tn_poll t of
        Inl e \<Rightarrow> Inl (IoError e)
      | Inr False \<Rightarrow> Inr self
      | Inr True \<Rightarrow>
          (case tn_read t of
             Inl e \<Rightarrow> Inl (IoError e)
           | Inr (KeyEvent kind k) \<Rightarrow>
               (if kind = Press then
                  case handle_key lc self k of
                    Inl p \<Rightarrow> Inl (Crash p)
                  | Inr (self1, oc) \<Rightarrow> (if oc = Quit then Inl (Done self1) else Inr self1)
                else Inr self)
           | Inr OtherEvent \<Rightarrow> Inr self))"

section \<open>The loops\<close>

text \<open>A loop over the turns so far: what it did to the terminal, and why it ended or the state it waits in.\<close>

fun event_loop_io :: "toolkit \<Rightarrow> lowercase \<Rightarrow> app \<Rightarrow> turn list \<Rightarrow> term_call list \<times> (app stop + app)" where
  "event_loop_io tk lc self [] = ([], Inr self)"
| "event_loop_io tk lc self (t # ts) =
     (case tui_draw tk lc self t of
        (calls, Inl stop) \<Rightarrow> (calls, Inl stop)
      | (calls, Inr u) \<Rightarrow>
          (case and_then (tui_key lc self t)
              (\<lambda>self1. map_sum Crash id (app_tick lc self1 (u64_of (tn_elapsed t)))) of
             Inl stop \<Rightarrow> (calls, Inl stop)
           | Inr self2 \<Rightarrow> (let (calls', r) = event_loop_io tk lc self2 ts in (calls @ calls', r))))"

fun live_loop_io :: "toolkit \<Rightarrow> lowercase \<Rightarrow> ('s \<Rightarrow> app \<Rightarrow> 'f \<Rightarrow> panic + 's \<times> app) \<Rightarrow> 's \<Rightarrow> app
    \<Rightarrow> (turn \<times> 'f) list \<Rightarrow> term_call list \<times> (('s \<times> app) stop + 's \<times> app)" where
  "live_loop_io tk lc nf s self [] = ([], Inr (s, self))"
| "live_loop_io tk lc nf s self ((t, f) # ts) =
     (case tui_draw tk lc self t of
        (calls, Inl stop) \<Rightarrow> (calls, Inl stop)
      | (calls, Inr u) \<Rightarrow>
          (case and_then (map_sum (map_stop (Pair s)) id (tui_key lc self t))
              (\<lambda>self1. map_sum Crash id (nf s self1 f)) of
             Inl stop \<Rightarrow> (calls, Inl stop)
           | Inr (s', self2) \<Rightarrow> (let (calls', r) = live_loop_io tk lc nf s' self2 ts in (calls @ calls', r))))"

text \<open>\<^verbatim>\<open>ratatui::init()\<close>, the loop, \<^verbatim>\<open>ratatui::restore()\<close>; setting up panics when the terminal refuses it.\<close>

definition with_terminal :: "bool \<Rightarrow> term_call list \<times> ('s stop + 's) \<Rightarrow> term_call list \<times> ('s stop + 's)" where
  "with_terminal init_ok looped =
     (if \<not> init_ok then ([InitTerminal, HookRestore], Inl (Crash TerminalSetup))
      else let (calls, r) = looped
           in (InitTerminal # calls @ (case r of
                 Inl (Crash p) \<Rightarrow> [HookRestore]
               | Inl _ \<Rightarrow> [RestoreTerminal]
               | Inr _ \<Rightarrow> []), r))"

definition tui_run :: "bool \<Rightarrow> toolkit \<Rightarrow> lowercase \<Rightarrow> app \<Rightarrow> turn list \<Rightarrow> term_call list \<times> (app stop + app)" where
  "tui_run init_ok tk lc self turns = with_terminal init_ok (event_loop_io tk lc self turns)"

definition tui_run_live :: "bool \<Rightarrow> toolkit \<Rightarrow> lowercase \<Rightarrow> ('s \<Rightarrow> app \<Rightarrow> 'f \<Rightarrow> panic + 's \<times> app) \<Rightarrow> 's \<Rightarrow> app
    \<Rightarrow> (turn \<times> 'f) list \<Rightarrow> term_call list \<times> (('s \<times> app) stop + 's \<times> app)" where
  "tui_run_live init_ok tk lc nf s self turns = with_terminal init_ok (live_loop_io tk lc nf s self turns)"

section \<open>The loops draw the states of the pure loops\<close>

text \<open>The key press a turn delivers, and the first error of a turn.\<close>

definition pressed :: "turn \<Rightarrow> key_event option" where
  "pressed t =
     (case (tn_poll t, tn_read t) of
        (Inr True, Inr (KeyEvent Press k)) \<Rightarrow> Some k
      | _ \<Rightarrow> None)"

definition input_error :: "turn \<Rightarrow> io_error option" where
  "input_error t =
     (case tn_poll t of
        Inl e \<Rightarrow> Some e
      | Inr b \<Rightarrow> (if b then case tn_read t of Inl e \<Rightarrow> Some e | Inr _ \<Rightarrow> None else None))"

definition turn_error :: "turn \<Rightarrow> io_error option" where
  "turn_error t =
     (case tn_resize t of
        Some e \<Rightarrow> Some e
      | None \<Rightarrow> (case tn_flush t of Some e \<Rightarrow> Some e | None \<Rightarrow> input_error t))"

definition screens_ok :: "turn list \<Rightarrow> bool" where
  "screens_ok ts \<longleftrightarrow> list_all (\<lambda>t. on_screen (tn_area t) \<and> rc_x (tn_area t) = 0) ts"

text \<open>
  What a loop over \<open>ts\<close> may do, against the pure loop \<open>run\<close> over the first frames: its i-th picture
  is the rendering of the state after i frames, it ends as the pure loop does or in the first
  error of its turns, and it does not panic.
\<close>

definition drawn_as :: "toolkit \<Rightarrow> lowercase \<Rightarrow> (nat \<Rightarrow> panic + 's) \<Rightarrow> ('s \<Rightarrow> app) \<Rightarrow> turn list \<Rightarrow> nat \<Rightarrow> term_call \<Rightarrow> bool" where
  "drawn_as tk lc run app_of ts i call \<longleftrightarrow>
     (\<exists>x ds. run i = Inr x \<and> render tk lc (app_of x) (tn_area (ts ! i)) = Inr ds
        \<and> list_all (starts_in (tn_area (ts ! i))) ds \<and> call = DrawFrame ds)"

definition ends_as :: "(nat \<Rightarrow> panic + 's) \<Rightarrow> turn list \<Rightarrow> term_call list \<Rightarrow> 's stop + 's \<Rightarrow> bool" where
  "ends_as run ts calls r \<longleftrightarrow>
     (case r of
        Inr x \<Rightarrow> run (length ts) = Inr x \<and> length calls = length ts \<and> (\<forall>t\<in>set ts. turn_error t = None)
      | Inl (Done x) \<Rightarrow> run (length ts) = Inr x \<and> 0 < length calls \<and> length calls \<le> length ts
      | Inl (IoError e) \<Rightarrow> \<exists>n<length ts. turn_error (ts ! n) = Some e \<and> (\<forall>m<n. turn_error (ts ! m) = None)
          \<and> n \<le> length calls \<and> length calls \<le> Suc n
      | Inl (Crash p) \<Rightarrow> False)"

definition follows :: "toolkit \<Rightarrow> lowercase \<Rightarrow> (nat \<Rightarrow> panic + 's) \<Rightarrow> ('s \<Rightarrow> app) \<Rightarrow> turn list
    \<Rightarrow> term_call list \<times> ('s stop + 's) \<Rightarrow> bool" where
  "follows tk lc run app_of ts out \<longleftrightarrow>
     (\<forall>i<length (fst out). drawn_as tk lc run app_of ts i (fst out ! i)) \<and> ends_as run ts (fst out) (snd out)"

lemma follows_stop:
  assumes "turn_error t = Some e" and "calls = [] \<or> (\<exists>c. calls = [c] \<and> drawn_as tk lc run app_of (t # ts) 0 c)"
  shows "follows tk lc run app_of (t # ts) (calls, Inl (IoError e))"
  using assms by (fastforce simp: follows_def ends_as_def)

lemma follows_step:
  assumes "turn_error t = None" and "drawn_as tk lc run app_of (t # ts) 0 c"
    and "\<And>n. run (Suc n) = run' n" and "follows tk lc run' app_of ts (calls, r)"
  shows "follows tk lc run app_of (t # ts) (c # calls, r)"
proof -
  have "drawn_as tk lc run app_of (t # ts) i ((c # calls) ! i)" if "i < Suc (length calls)" for i
    using that assms(2-4) by (cases i) (auto simp: follows_def drawn_as_def)
  moreover have "ends_as run (t # ts) (c # calls) r"
  proof (cases r)
    case (Inl st)
    show ?thesis
    proof (cases st)
      case (IoError e)
      with assms(4) Inl obtain n where n: "n < length ts" "turn_error (ts ! n) = Some e" "\<forall>m<n. turn_error (ts ! m) = None"
          "n \<le> length calls" "length calls \<le> Suc n" by (auto simp: follows_def ends_as_def)
      have "\<forall>m<Suc n. turn_error ((t # ts) ! m) = None" using n(3) assms(1) by (auto simp: nth_Cons split: nat.splits)
      with n show ?thesis unfolding ends_as_def Inl IoError by (auto intro!: exI [of _ "Suc n"])
    qed (use assms(3,4) Inl in \<open>auto simp: follows_def ends_as_def\<close>)
  qed (use assms in \<open>auto simp: follows_def ends_as_def\<close>)
  ultimately show ?thesis by (simp add: follows_def)
qed

lemma tui_key_cases:
  assumes "\<And>k. \<exists>self1 oc. handle_key lc self k = Inr (self1, oc)"
  obtains e where "tui_key lc self t = Inl (IoError e)" "input_error t = Some e"
  | self1 where "tui_key lc self t = Inl (Done self1)" "input_error t = None"
      "\<exists>k. pressed t = Some k \<and> handle_key lc self k = Inr (self1, Quit)"
  | self1 where "tui_key lc self t = Inr self1" "input_error t = None"
      "pressed t = None \<and> self1 = self \<or> (\<exists>k oc. pressed t = Some k \<and> handle_key lc self k = Inr (self1, oc) \<and> oc \<noteq> Quit)"
proof (cases "\<exists>k. tn_poll t = Inr True \<and> tn_read t = Inr (KeyEvent Press k)")
  case True
  then obtain k where k: "tn_poll t = Inr True" "tn_read t = Inr (KeyEvent Press k)" by blast
  obtain self1 oc where "handle_key lc self k = Inr (self1, oc)" using assms by blast
  with k that(2,3) show thesis by (cases "oc = Quit") (auto simp: tui_key_def input_error_def pressed_def)
next
  case False
  have none: "pressed t = None" using False
    by (auto simp: pressed_def split: sum.splits bool.splits tui_event.splits key_kind.splits)
  show thesis
  proof (cases "input_error t")
    case None
    then have "tui_key lc self t = Inr self" using False
      by (auto simp: tui_key_def input_error_def split: sum.splits bool.splits tui_event.splits if_splits)
    with None none that(3) show thesis by blast
  next
    case (Some e)
    then have "tui_key lc self t = Inl (IoError e)"
      by (auto simp: tui_key_def input_error_def split: sum.splits if_splits)
    with Some that(1) show thesis by blast
  qed
qed

definition pure_run :: "lowercase \<Rightarrow> ('s \<Rightarrow> app \<Rightarrow> 'f \<Rightarrow> panic + 's \<times> app) \<Rightarrow> 's \<Rightarrow> app \<Rightarrow> (turn \<times> 'f) list \<Rightarrow> nat
    \<Rightarrow> panic + 's \<times> app" where
  "pure_run lc nf s self ts n = live_loop lc nf s self (take n (map (map_prod pressed id) ts))"

text \<open>
  The contract between a loop and what it runs after a key: what is good stays good under keys
  and frames, and can be drawn.
\<close>

locale tui_loop =
  fixes lc :: lowercase and tk :: toolkit
    and nf :: "'s \<Rightarrow> app \<Rightarrow> 'f \<Rightarrow> panic + 's \<times> app"
    and good :: "'f list \<Rightarrow> 's \<Rightarrow> app \<Rightarrow> bool"
  assumes key_good: "good fs s self \<Longrightarrow> \<exists>self1 oc. handle_key lc self k = Inr (self1, oc) \<and> (oc \<noteq> Quit \<longrightarrow> good fs s self1)"
    and frame_good: "good (f # fs) s self \<Longrightarrow> \<exists>s' self'. nf s self f = Inr (s', self') \<and> good fs s' self'"
    and draw_good: "good fs s self \<Longrightarrow> on_screen a \<Longrightarrow> rc_x a = 0 \<Longrightarrow>
      \<exists>ds. render tk lc self a = Inr ds \<and> list_all (starts_in a) ds"
begin

lemma live_loop_io_follows:
  assumes "good (map snd ts) s self" and "screens_ok (map fst ts)"
  shows "follows tk lc (pure_run lc nf s self ts) snd (map fst ts) (live_loop_io tk lc nf s self ts)"
  using assms
proof (induction ts arbitrary: s self)
  case Nil
  then show ?case by (simp add: follows_def ends_as_def pure_run_def)
next
  case (Cons tf ts)
  obtain t f where tf: "tf = (t, f)" by (cases tf)
  have area: "on_screen (tn_area t)" "rc_x (tn_area t) = 0" and rest: "screens_ok (map fst ts)"
    using Cons.prems(2) by (simp_all add: screens_ok_def tf)
  obtain ds where ds: "render tk lc self (tn_area t) = Inr ds" "list_all (starts_in (tn_area t)) ds"
    using draw_good [OF Cons.prems(1) area] by blast
  have pic: "drawn_as tk lc (pure_run lc nf s self (tf # ts)) snd (t # map fst ts) 0 (DrawFrame ds)"
    using ds by (simp add: drawn_as_def pure_run_def)
  have keys: "\<exists>self1 oc. handle_key lc self k = Inr (self1, oc)" for k using key_good [OF Cons.prems(1)] by blast
  show ?case
  proof (cases "tn_resize t = None \<and> tn_flush t = None")
    case False
    then show ?thesis using ds pic
      by (auto simp: tf tui_draw_def turn_error_def intro!: follows_stop split: option.splits)
  next
    case True
    then have draw: "tui_draw tk lc self t = ([DrawFrame ds], Inr () :: ('s \<times> app) stop + unit)" and err: "turn_error t = input_error t"
      using ds by (simp_all add: tui_draw_def turn_error_def)
    show ?thesis
    proof (cases rule: tui_key_cases [OF keys, of t])
      case (1 e)
      then show ?thesis using pic draw err by (auto simp: tf intro!: follows_stop)
    next
      case (2 self1)
      then have "pure_run lc nf s self (tf # ts) (Suc (length ts)) = Inr (s, self1)" by (auto simp: pure_run_def tf)
      then show ?thesis using 2(1) pic draw by (simp add: tf follows_def ends_as_def)
    next
      case (3 self1)
      have "good (map snd (tf # ts)) s self1" using 3(3) Cons.prems(1) key_good [OF Cons.prems(1)]
        by (metis Inr_inject Pair_inject)
      then obtain s' self2 where nf: "nf s self1 f = Inr (s', self2)" "good (map snd ts) s' self2"
        using frame_good by (fastforce simp: tf)
      have run: "pure_run lc nf s self (tf # ts) (Suc n) = pure_run lc nf s' self2 ts n" for n
        using 3(3) nf(1) by (auto simp: pure_run_def tf)
      obtain calls r where cr: "live_loop_io tk lc nf s' self2 ts = (calls, r)" by fastforce
      from follows_step [OF _ pic run, of calls r] Cons.IH [OF nf(2) rest] 3(1,2) draw err nf(1) cr show ?thesis
        by (simp add: tf)
    qed
  qed
qed

end

section \<open>The two sessions\<close>

definition tick_frame :: "lowercase \<Rightarrow> unit \<Rightarrow> app \<Rightarrow> nanos \<Rightarrow> panic + unit \<times> app" where
  "tick_frame lc u self dt = map_sum id (Pair u) (app_tick lc self dt)"

definition timed :: "turn \<Rightarrow> turn \<times> nanos" where
  "timed t = (t, u64_of (tn_elapsed t))"

text \<open>The replay loop is the live loop with ticks for frames.\<close>

lemma event_loop_as_live: "live_loop lc (tick_frame lc) () self frames = map_sum id (Pair ()) (event_loop lc self frames)"
proof (induction frames arbitrary: self)
  case (Cons fr frames)
  obtain key dt where fr: "fr = (key, dt)" by (cases fr)
  show ?case
  proof (cases "case key of None \<Rightarrow> Inr (self, Continue) | Some k \<Rightarrow> handle_key lc self k")
    case (Inr y)
    obtain self1 oc where y: "y = (self1, oc)" by (cases y)
    then show ?thesis using Inr Cons.IH by (cases "app_tick lc self1 dt") (simp_all add: fr tick_frame_def)
  qed (simp add: fr)
qed simp

lemma tui_draw_map: "tui_draw tk lc self t = map_prod id (map_sum (map_stop f) id) (tui_draw tk lc self t)"
  by (simp add: tui_draw_def split: option.splits sum.splits)

lemma event_loop_io_as_live:
  "live_loop_io tk lc (tick_frame lc) () self (map timed ts)
   = map_prod id (map_sum (map_stop (Pair ())) (Pair ())) (event_loop_io tk lc self ts)"
proof (induction ts arbitrary: self)
  case (Cons t ts)
  obtain calls d where d: "tui_draw tk lc self t = (calls, d :: app stop + unit)" by fastforce
  then have d': "tui_draw tk lc self t = (calls, map_sum (map_stop (Pair () :: app \<Rightarrow> unit \<times> app)) id d)"
    using tui_draw_map [of tk lc self t "Pair () :: app \<Rightarrow> unit \<times> app"] by (simp only: d map_prod_simp id_apply)
  show ?case
  proof (cases d)
    case (Inr u)
    show ?thesis
    proof (cases "tui_key lc self t")
      case (Inr self1)
      then show ?thesis using \<open>d = Inr u\<close> d d' Cons.IH
        by (cases "app_tick lc self1 (u64_of (tn_elapsed t))") (simp_all add: timed_def tick_frame_def case_prod_beta)
    qed (use Inr d d' in \<open>simp add: timed_def\<close>)
  qed (use d d' in \<open>simp add: timed_def\<close>)
qed simp

lemma follows_unit:
  assumes "follows tk lc (\<lambda>n. map_sum id (Pair ()) (run n)) snd ts (map_prod id (map_sum (map_stop (Pair ())) (Pair ())) out)"
  shows "follows tk lc run id ts out"
proof -
  have *: "map_sum id (Pair ()) r = Inr ((), x) \<longleftrightarrow> r = Inr x" for r and x :: 'a by (cases r) auto
  obtain calls r where out: "out = (calls, r)" by (cases out)
  have "drawn_as tk lc run id ts i c" if "drawn_as tk lc (\<lambda>n. map_sum id (Pair ()) (run n)) snd ts i c" for i c
    using that by (auto simp: drawn_as_def *)
  moreover have "ends_as run ts calls r"
    using assms by (cases r; cases "projl r") (auto simp: out follows_def ends_as_def *)
  ultimately show ?thesis using assms by (auto simp: out follows_def)
qed

text \<open>What the states of the two loops keep.\<close>

definition replay_good :: "toolkit \<Rightarrow> lowercase \<Rightarrow> nanos list \<Rightarrow> unit \<Rightarrow> app \<Rightarrow> bool" where
  "replay_good tk lc fs u self \<longleftrightarrow>
     toolkit_ok tk \<and> app_ok self \<and> \<not> is_live self \<and> selection_ok lc self \<and> spans_ok (app_timeline self)"

definition live_good :: "toolkit \<Rightarrow> live_frame list \<Rightarrow> tracker \<times> bool \<Rightarrow> app \<Rightarrow> bool" where
  "live_good tk fs s self \<longleftrightarrow>
     toolkit_ok tk \<and> room fs s \<and> app_ok self \<and> is_live self \<and> spans_ok (app_timeline self)"

interpretation replay_io: tui_loop lc tk "tick_frame lc" "replay_good tk lc" for lc tk
proof unfold_locales
  fix fs s self k
  assume "replay_good tk lc fs s self"
  then show "\<exists>self1 oc. handle_key lc self k = Inr (self1, oc) \<and> (oc \<noteq> Quit \<longrightarrow> replay_good tk lc fs s self1)"
    using handle_key_ok [of self lc k] by (auto simp: replay_good_def key_ok_def)
next
  fix f fs s self
  assume "replay_good tk lc (f # fs) s self"
  then show "\<exists>s' self'. tick_frame lc s self f = Inr (s', self') \<and> replay_good tk lc fs s' self'"
    using app_tick_ok [of self lc f] by (auto simp: replay_good_def key_ok_def tick_frame_def)
qed (use render_ok in \<open>auto simp: replay_good_def\<close>)

interpretation live_io: tui_loop lc tk "next_frame lc base_title" "live_good tk" for lc tk base_title
proof unfold_locales
  fix fs s self k
  assume good: "live_good tk fs s self"
  then have ok: "app_ok self" by (simp add: live_good_def)
  then obtain self1 oc where key: "handle_key lc self k = Inr (self1, oc)" using handle_key_ok [of self lc k] by blast
  with handle_key_frame [OF ok key] good
  show "\<exists>self1 oc. handle_key lc self k = Inr (self1, oc) \<and> (oc \<noteq> Quit \<longrightarrow> live_good tk fs s self1)"
    by (simp add: live_good_def)
next
  fix f fs s self
  assume "live_good tk (f # fs) s self"
  then have ok: "toolkit_ok tk" "room (f # fs) s" "app_ok self" "is_live self" by (simp_all add: live_good_def)
  obtain s' self' where nf: "next_frame lc base_title s self f = Inr (s', self')" "room fs s'" "app_ok self'" "is_live self'"
    using live_frames.frame_ok [OF ok(2-4), of lc base_title] by blast
  with ok(1) drawn_frames.frame_good [OF nf(2,1)]
  show "\<exists>s' self'. next_frame lc base_title s self f = Inr (s', self') \<and> live_good tk fs s' self'"
    by (auto simp: live_good_def)
qed (use render_ok in \<open>auto simp: live_good_def\<close>)

definition replay_frames :: "turn list \<Rightarrow> (key_event option \<times> nanos) list" where
  "replay_frames ts = map (\<lambda>t. (pressed t, u64_of (tn_elapsed t))) ts"

lemma event_loop_io_follows:
  assumes "replay_good tk lc [] () self" and "screens_ok ts"
  shows "follows tk lc (\<lambda>n. event_loop lc self (take n (replay_frames ts))) id ts (event_loop_io tk lc self ts)"
proof (rule follows_unit)
  have "map (map_prod pressed id) (map timed ts) = replay_frames ts" "map fst (map timed ts) = ts"
    by (simp_all add: replay_frames_def timed_def comp_def)
  then show "follows tk lc (\<lambda>n. map_sum id (Pair ()) (event_loop lc self (take n (replay_frames ts)))) snd ts
      (map_prod id (map_sum (map_stop (Pair ())) (Pair ())) (event_loop_io tk lc self ts))"
    using replay_io.live_loop_io_follows [of tk lc "map timed ts" "()" self] assms
    by (simp add: pure_run_def [abs_def] event_loop_as_live event_loop_io_as_live replay_good_def)
qed

section \<open>The terminal is left as it was found\<close>

definition terminal_clean :: "term_call list \<Rightarrow> bool \<Rightarrow> bool" where
  "terminal_clean calls ended \<longleftrightarrow>
     (\<exists>pics. calls = InitTerminal # map DrawFrame pics @ (if ended then [RestoreTerminal] else []))"

lemma all_pictures: "\<forall>i<length calls. \<exists>ds. calls ! i = DrawFrame ds \<Longrightarrow> \<exists>pics. calls = map DrawFrame pics"
proof (induction calls)
  case (Cons c calls)
  from Cons.prems obtain d where "c = DrawFrame d" by force
  moreover obtain pics where "calls = map DrawFrame pics" using Cons by fastforce
  ultimately show ?case by (intro exI [of _ "d # pics"]) simp
qed simp

lemma with_terminal_clean:
  assumes "follows tk lc run app_of ts looped"
  shows "terminal_clean (fst (with_terminal True looped)) (\<exists>stop. snd looped = Inl stop)"
    and "snd (with_terminal True looped) = snd looped" and "snd looped \<noteq> Inl (Crash p)"
proof -
  obtain calls r where l: "looped = (calls, r)" by (cases looped)
  have "\<forall>i<length calls. \<exists>ds. calls ! i = DrawFrame ds" using assms by (auto simp: l follows_def drawn_as_def)
  then obtain pics where pics: "calls = map DrawFrame pics" using all_pictures by blast
  show crash: "snd looped \<noteq> Inl (Crash p)" for p using assms by (auto simp: l follows_def ends_as_def)
  show "snd (with_terminal True looped) = snd looped" by (simp add: l with_terminal_def)
  show "terminal_clean (fst (with_terminal True looped)) (\<exists>stop. snd looped = Inl stop)"
    using crash by (auto simp: l with_terminal_def terminal_clean_def pics split: sum.splits stop.splits)
qed

end
