(* ===== verification/Commands.thy ===== *)
theory Commands
  imports Live_Channel Terminal
begin

text \<open>
  The subcommands as the program dispatches them (\<^verbatim>\<open>run\<close>, \<^verbatim>\<open>run_live_command\<close> and \<^verbatim>\<open>main\<close> in
  \<^verbatim>\<open>crates/tcp-visr/src/main.rs\<close>, built with live support). What the program finds outside is the
  record \<open>environment\<close>: files, standard output, the terminal and what it answers, libpcap's
  answers, what each frame of a live session receives. A run is what it did to the terminal and
  its result; \<open>None\<close> is a run that has not ended yet.
\<close>

section \<open>The outside world\<close>

record ('d, 'c) environment =
  env_decoder :: decoder
  env_lowercase :: lowercase
  env_lower :: "string \<Rightarrow> string"
  env_json :: "metrics_json \<Rightarrow> string"
  env_files :: "string \<Rightarrow> capture_file"
  env_stdout :: stdout
  env_is_terminal :: bool
  env_terminal_ok :: bool
  env_toolkit :: toolkit
  env_turns :: "turn list"
  env_devices :: "string + (string \<times> string option) list"
  env_from_device :: "string \<Rightarrow> string + 'd"
  env_activate :: "'d \<Rightarrow> int \<Rightarrow> bool \<Rightarrow> int \<Rightarrow> precision \<Rightarrow> string + 'c"
  env_datalink :: "'c \<Rightarrow> int"
  env_install :: "'c \<Rightarrow> string \<Rightarrow> string option"
  env_live_turns :: "(turn \<times> live_frame) list"

section \<open>Commands\<close>

text \<open>What a command leaves: standard output, or the state its event loop ended in.\<close>

datatype run_output =
    Wrote stdout
  | ReplayEnded app
  | LiveEnded tracker app

type_synonym run_result = "term_call list \<times> (run_error + run_output) option"

definition interface_line :: "interface_info \<Rightarrow> string" where
  "interface_line ifc =
     (case ii_description ifc of
        Some d \<Rightarrow> ii_name ifc @ ''  '' @ d
      | None \<Rightarrow> ii_name ifc)"

text \<open>How the end of an event loop becomes the result of its command.\<close>

definition loop_result :: "('s \<Rightarrow> run_output) \<Rightarrow> 's stop + 's \<Rightarrow> (run_error + run_output) option" where
  "loop_result out r =
     (case r of
        Inr _ \<Rightarrow> None
      | Inl (Done x) \<Rightarrow> Some (Inr (out x))
      | Inl (IoError e) \<Rightarrow> Some (Inl (Io e))
      | Inl (Crash p) \<Rightarrow> Some (Inl (Panicked p)))"

text \<open>The checks before a live session, up to the open handle.\<close>

definition live_checks :: "('d, 'c) environment \<Rightarrow> string option \<Rightarrow> string option \<Rightarrow> u64 \<Rightarrow> run_error + string \<times> 'c live_capture" where
  "live_checks env iface filter' retention_secs =
     and_then (ok_or (Message ''live requires -i <iface> (or --list-interfaces)'') iface) (\<lambda>i.
     and_then (map_sum Message id (validate_retention_secs retention_secs)) (\<lambda>_.
     let opts = (live_options_new i)\<lparr>lo_filter := filter'\<rparr>
     in and_then (map_sum LiveFailed id
            (live_open (open_with (env_lower env) (env_from_device env) (env_activate env) opts)
               (env_datalink env) (env_install env) opts)) (\<lambda>cap. Inr (i, cap))))"

definition run_live_command :: "('d, 'c) environment \<Rightarrow> string option \<Rightarrow> string option \<Rightarrow> u64 \<Rightarrow> bool \<Rightarrow> run_result" where
  "run_live_command env iface filter' retention_secs want_list =
     (if want_list then
        ([], Some (and_then (map_sum LiveFailed id (list_interfaces (env_devices env)))
                     (\<lambda>ifs. map_sum Io Wrote (write_lines (env_stdout env) (map interface_line ifs)))))
      else
        case live_checks env iface filter' retention_secs of
          Inl e \<Rightarrow> ([], Some (Inl e))
        | Inr (i, cap) \<Rightarrow>
            map_prod id (loop_result (\<lambda>((tr, first), self). LiveEnded tr self))
              (tui_run_live (env_terminal_ok env) (env_toolkit env) (env_lowercase env)
                 (next_frame (env_lowercase env) (live_title i)) (tracker_new (live_engine_config retention_secs), False)
                 (new_live (env_lowercase env) name_table_default (live_title i)) (env_live_turns env)))"

text \<open>
  The last lines of \<^verbatim>\<open>run_metrics\<close>: the report is one write and the newline after it another, and
  the line is on standard output when both have succeeded.
\<close>

definition write_json :: "stdout \<Rightarrow> string \<Rightarrow> io_error + stdout" where
  "write_json out text =
     and_then (case so_answers out of
                 [] \<Rightarrow> Inr out
               | None # rest \<Rightarrow> Inr (out\<lparr>so_answers := rest\<rparr>)
               | Some e # _ \<Rightarrow> Inl e)
       (\<lambda>out'. writeln out' text)"

definition run :: "('d, 'c) environment \<Rightarrow> cli_command option \<Rightarrow> run_result" where
  "run env command =
     (case command of
        None \<Rightarrow> ([], Some (Inl (Message ''no subcommand given; run `tcp-visr --help`'')))
      | Some (Replay path limit) \<Rightarrow>
          (case run_replay (env_decoder env) (env_lowercase env) (env_is_terminal env) path (env_files env path) limit of
             None \<Rightarrow> ([], None)
           | Some (Inl e) \<Rightarrow> ([], Some (Inl e))
           | Some (Inr self) \<Rightarrow>
               map_prod id (loop_result ReplayEnded)
                 (tui_run (env_terminal_ok env) (env_toolkit env) (env_lowercase env) self (env_turns env)))
      | Some (Parse path) \<Rightarrow>
          ([], map_option (map_sum id Wrote) (run_parse (env_decoder env) path (env_files env path) (env_stdout env)))
      | Some (Conns path) \<Rightarrow>
          ([], map_option (map_sum id Wrote) (run_conns (env_decoder env) path (env_files env path) (env_stdout env)))
      | Some (Metrics path conn tw rw limit) \<Rightarrow>
          ([], map_option (\<lambda>r. and_then r (\<lambda>json. map_sum Io Wrote (write_json (env_stdout env) (env_json env json))))
                 (run_metrics (env_decoder env) path (env_files env path) conn tw rw limit))
      | Some (Live iface filter' secs want_list) \<Rightarrow> run_live_command env iface filter' secs want_list)"

section \<open>Messages and the exit code\<close>

fun ingest_error_fmt :: "ingest_error \<Rightarrow> string" where
  "ingest_error_fmt (OpenError path source) =
     ''opening capture '' @ path @ '': '' @ source @ '' (check the path and read permissions)''"
| "ingest_error_fmt (ContainerError path detail) = ''parsing capture container '' @ path @ '': '' @ detail"
| "ingest_error_fmt (UnknownLinkType dlt) =
     ''unsupported link type '' @ show_dec (unat dlt) @ '' (M1 supports Ethernet, SLL, SLL2, raw IP, null)''"
| "ingest_error_fmt MixedLinkTypes = ''capture mixes link types across interfaces; M1 supports a single link type''"

fun live_error_fmt :: "live_error \<Rightarrow> string" where
  "live_error_fmt (LiveOpen iface detail) = ''opening interface '' @ iface @ '' for capture: '' @ detail"
| "live_error_fmt (LiveActivate iface detail) = ''activating capture on '' @ iface @ '': '' @ detail"
| "live_error_fmt (LivePrivilege iface) =
     ''insufficient privilege to capture on '' @ iface @ ''; grant it with ''
     @ ''`sudo setcap cap_net_raw,cap_net_admin+eip $(command -v tcp-visr)` or run as root''"
| "live_error_fmt (LiveFilter expr detail) = ''installing BPF filter `'' @ expr @ ''`: '' @ detail"
| "live_error_fmt (LiveUnsupportedLinkType dlt) =
     ''unsupported link type '' @ show_dec (unat dlt) @ '' on the interface ''
     @ ''(supports Ethernet, SLL, SLL2, raw IP, null)''"
| "live_error_fmt (LiveInterfaces detail) = ''enumerating capture interfaces: '' @ detail"

fun metric_error_fmt :: "metric_error \<Rightarrow> string" where
  "metric_error_fmt (SampleCeiling samples limit) =
     ''metric series exceeded the sample ceiling ('' @ show_dec samples @ '' samples > '' @ show_dec limit
     @ ''); raise it with --max-samples or analyze a smaller capture''"

datatype exit_code = SUCCESS | FAILURE

text \<open>
  What \<^verbatim>\<open>main\<close> returns, with its line for standard error; a panic unwinds past it.
\<close>

definition main_exit :: "run_error + run_output \<Rightarrow> (exit_code \<times> string list) option" where
  "main_exit r =
     (case r of
        Inr _ \<Rightarrow> Some (SUCCESS, [])
      | Inl (IngestFailed e) \<Rightarrow> Some (FAILURE, [''error: '' @ ingest_error_fmt e])
      | Inl (LiveFailed e) \<Rightarrow> Some (FAILURE, [''error: '' @ live_error_fmt e])
      | Inl (MetricFailed e) \<Rightarrow> Some (FAILURE, [''error: '' @ metric_error_fmt e])
      | Inl (Io e) \<Rightarrow> Some (FAILURE, [''error: '' @ e])
      | Inl (Message m) \<Rightarrow> Some (FAILURE, [''error: '' @ m])
      | Inl (Panicked p) \<Rightarrow> None)"

section \<open>No command panics\<close>

lemma parse_file_visit_cases:
  obtains "parse_file decode path capture = None" "parse_file_visit_named decode path capture sink nsink a b = None"
  | e where "parse_file decode path capture = Some (Inl e)" "parse_file_visit_named decode path capture sink nsink a b = Some (Inl e)"
  | p where "parse_file decode path capture = Some (Inr p)"
      "parse_file_visit_named decode path capture sink nsink a b =
         Some (Inr ((rp_link_type p, rp_skipped p), foldl sink a (rp_items p), foldl nsink b (rp_names p)))"
proof (cases "parse_file decode path capture")
  case None
  then show thesis using that(1) by (simp add: parse_file_push visit_named_folded [of decode path capture sink nsink a b])
next
  case (Some r)
  show thesis
  proof (cases r)
    case (Inl e)
    with Some obtain r' where r': "parse_file_visit_named decode path capture push push [] [] = Some r'"
        "map_sum id (\<lambda>((link, skipped), items, names).
         \<lparr>rp_items = items, rp_skipped = skipped, rp_link_type = link, rp_names = names\<rparr>) r' = Inl e"
      by (auto simp: parse_file_push)
    then have "parse_file_visit_named decode path capture push push [] [] = Some (Inl e)" by (cases r') auto
    then show thesis using that(2) Some Inl by (simp add: visit_named_folded [of decode path capture sink nsink a b])
  next
    case (Inr p)
    then show thesis using that(3) Some parse_file_visit_named_of [of decode path capture p sink nsink a b] by simp
  qed
qed

lemma parse_visit_cases:
  obtains "parse_file_visit decode path capture sink a = None"
  | e where "parse_file_visit decode path capture sink a = Some (Inl e)"
  | p where "parse_file decode path capture = Some (Inr p)"
      "parse_file_visit decode path capture sink a = Some (Inr ((rp_link_type p, rp_skipped p), foldl sink a (rp_items p)))"
proof (cases decode path capture sink "\<lambda>(u :: unit) (_ :: name_observation). u" a "()" rule: parse_file_visit_cases)
  case 1
  then show thesis using that(1) by (simp add: parse_file_visit_def)
next
  case (2 e)
  then show thesis using that(2) by (simp add: parse_file_visit_def)
next
  case (3 p)
  then show thesis using that(3) by (simp add: parse_file_visit_def)
qed

text \<open>A capture that can be read has fewer than 2^32 items.\<close>

definition capture_bounded :: "decoder \<Rightarrow> string \<Rightarrow> capture_file \<Rightarrow> bool" where
  "capture_bounded decode path capture \<longleftrightarrow>
     (\<forall>p. parse_file decode path capture = Some (Inr p) \<longrightarrow> length (rp_items p) < 2 ^ 32)"

definition panics :: "(run_error + 'x) option \<Rightarrow> bool" where
  "panics r \<longleftrightarrow> (\<exists>e. r = Some (Inl (Panicked e)))"

lemma run_pass_no_panic: "capture_bounded decode path capture \<Longrightarrow> \<not> panics (run_pass decode path capture cfg)"
proof (cases decode path capture observe_sink "Inr (tracker_new cfg) :: panic + tracker" rule: parse_visit_cases)
  case (3 p)
  assume "capture_bounded decode path capture"
  with 3(1) have "length (rp_items p) < 2 ^ 32" by (simp add: capture_bounded_def)
  from run_pass_of [OF 3(1) this, of cfg] show ?thesis by (auto simp: panics_def)
qed (auto simp: run_pass_def panics_def lift_ingest_def)

lemma no_panic_lifts: "\<not> panics (Some (lift_io r))" "\<not> panics (Some (map_sum Io f s))"
  by (auto simp: panics_def lift_io_def map_sum_def split: sum.splits)

lemma run_conns_no_panic: "capture_bounded decode path capture \<Longrightarrow> \<not> panics (run_conns decode path capture out)"
proof (cases decode path capture observe_sink "Inr (tracker_new engine_config_default) :: panic + tracker" rule: parse_visit_cases)
  case (3 p)
  assume "capture_bounded decode path capture"
  with 3(1) have "length (rp_items p) \<le> 2 ^ 32 - 1" by (simp add: capture_bounded_def)
  then obtain tr where "observe_all (tracker_new engine_config_default) (rp_items p) = Inr tr" by (rule observe_all_ok)
  then show ?thesis
    by (simp add: run_conns_def parse_file_visit_of [OF 3(1)] foldl_observe_sink lift_ingest_def lift_panic_def Let_def no_panic_lifts)
qed (auto simp: run_conns_def panics_def lift_ingest_def)

lemma run_parse_no_panic: "\<not> panics (run_parse decode path capture out)"
proof (cases decode path capture parse_sink "(out, 0, None) :: stdout \<times> u64 \<times> io_error option" rule: parse_visit_cases)
  case (3 p)
  obtain out1 n err where "foldl parse_sink (out, 0, None) (rp_items p) = (out1, n, err)" by (rule prod_cases3)
  then show ?thesis using 3(2)
    by (cases err) (simp_all add: run_parse_def lift_ingest_def no_panic_lifts, simp add: panics_def)
qed (auto simp: run_parse_def panics_def lift_ingest_def)

text \<open>What the application of a replay session starts from.\<close>

lemma replay_session:
  assumes "parse_file decode path capture = Some (Inr p)" and "length (rp_items p) < 2 ^ 32" and "0 < limit"
  shows "(\<exists>e. run_replay decode lc True path capture limit = Some (Inl (MetricFailed e)))
    \<or> (\<exists>self. run_replay decode lc True path capture limit = Some (Inr self)
         \<and> app_ok self \<and> selection_ok lc self \<and> \<not> is_live self
         \<and> tp_bounds (app_transport self) = bounds (app_timeline self) \<and> spans_ok (app_timeline self))"
proof -
  let ?cfg = "replay_engine_config limit"
  have "length (rp_items p) \<le> 2 ^ 32 - 1" using assms(2) by simp
  then obtain tr where tr: "observe_all (tracker_new ?cfg) (rp_items p) = Inr tr" by (rule observe_all_ok)
  have run: "run_replay decode lc True path capture limit =
      Some (and_then (map_sum MetricFailed id (into_timeline tr)) (\<lambda>tml.
        Inr (new_with_names lc tml (foldl nt_observe name_table_default (rp_names p))
          (replay_title path tml (foldl nt_observe name_table_default (rp_names p)) (rp_skipped p)))))"
    using assms(3) tr
    by (simp add: run_replay_def build_replay_app_def parse_file_visit_named_of [OF assms(1)] foldl_observe_sink
        lift_ingest_def lift_panic_def)
  show ?thesis
  proof (cases "into_timeline tr")
    case (Inl e)
    then show ?thesis using run by simp
  next
    case (Inr tml)
    have b: "fst (bounds tml) \<le> snd (bounds tml)" using into_timeline_bounds [OF assms(2) tr Inr] by blast
    have "spans_ok tml" using into_timeline_spans [OF observe_all_wf [OF assms(2) tr] Inr] .
    with new_with_names_ok [OF b] run Inr show ?thesis by simp
  qed
qed

text \<open>A clean run: no panic, and the terminal untouched or restored.\<close>

definition run_clean :: "run_result \<Rightarrow> bool" where
  "run_clean out \<longleftrightarrow> \<not> panics (snd out) \<and> (fst out = [] \<or> terminal_clean (fst out) (snd out \<noteq> None))"

lemma loop_clean:
  assumes "follows tk lc run' app_of ts looped"
  shows "run_clean (map_prod id (loop_result out) (with_terminal True looped))"
proof -
  have "snd looped \<noteq> Inl (Crash p)" for p using with_terminal_clean(3) [OF assms] .
  then show ?thesis using with_terminal_clean(1,2) [OF assms]
    by (cases "snd looped"; cases "projl (snd looped)") (auto simp: run_clean_def loop_result_def panics_def)
qed

lemma replay_clean:
  assumes "capture_bounded decode path capture" and "toolkit_ok tk" and "screens_ok turns" and ok
  shows "run_clean (case run_replay decode lc tty path capture limit of
             None \<Rightarrow> ([], None)
           | Some (Inl e) \<Rightarrow> ([], Some (Inl e))
           | Some (Inr self) \<Rightarrow> map_prod id (loop_result ReplayEnded) (tui_run ok tk lc self turns))"
proof (cases "limit = 0 \<or> \<not> tty")
  case True
  then show ?thesis by (auto simp: run_replay_def run_clean_def panics_def)
next
  case False
  then have guards: "0 < limit" "tty = True" by simp_all
  show ?thesis
  proof (cases decode path capture observe_sink nt_observe
      "Inr (tracker_new (replay_engine_config limit)) :: panic + tracker" name_table_default rule: parse_file_visit_cases)
    case 1
    then show ?thesis by (simp add: guards run_replay_def build_replay_app_def run_clean_def panics_def)
  next
    case (2 e)
    then show ?thesis using guards by (simp add: run_replay_def build_replay_app_def lift_ingest_def run_clean_def panics_def)
  next
    case (3 p)
    have "length (rp_items p) < 2 ^ 32" using assms(1) 3(1) by (simp add: capture_bounded_def)
    from replay_session [OF 3(1) this guards(1), of lc]
    consider e where "run_replay decode lc True path capture limit = Some (Inl (MetricFailed e))"
      | self where "run_replay decode lc True path capture limit = Some (Inr self)" "replay_good tk lc [] () self"
      using assms(2) by (auto simp: replay_good_def)
    then show ?thesis
    proof cases
      case 1
      then show ?thesis by (simp add: guards run_clean_def panics_def)
    next
      case 2
      with loop_clean [OF event_loop_io_follows [OF 2(2) assms(3)]] assms(4) show ?thesis by (simp add: guards tui_run_def)
    qed
  qed
qed

lemma no_panic_cases:
  assumes "\<not> panics r"
  obtains "r = None" | e where "r = Some (Inl e)" "\<And>x. e \<noteq> Panicked x" | y where "r = Some (Inr y)"
proof (cases r)
  case (Some z)
  then show thesis using assms that(2,3) by (cases z) (auto simp: panics_def)
qed (rule that(1))

lemma metrics_no_panic:
  assumes "capture_bounded decode path capture"
  shows "\<not> panics (run_metrics decode path capture conn tw rw limit)"
proof (cases rule: no_panic_cases [OF run_pass_no_panic [OF assms, of "metrics_base_config tw rw limit"]])
  case (3 t1)
  let ?cfg = "(metrics_base_config tw rw limit)\<lparr>series_collection := CollectOnly (conn_id (into_connections t1 ! conn))\<rparr>"
  note first = 3
  show ?thesis
  proof (cases rule: no_panic_cases [OF run_pass_no_panic [OF assms, of ?cfg]])
    case (3 t2)
    then show ?thesis using first
      by (cases "into_metrics t2") (auto simp: run_metrics_def panics_def Let_def split: option.splits)
  qed (use first in \<open>auto simp: run_metrics_def panics_def Let_def\<close>)
qed (auto simp: run_metrics_def panics_def Let_def)

lemma live_start_good:
  assumes "sum_list (map (\<lambda>fr. live_items (lf_events (snd fr))) frames) < 2 ^ 32" and "toolkit_ok tk"
  shows "live_good tk (map snd frames) (tracker_new (live_engine_config secs), False) (new_live lc name_table_default (live_title iface))"
proof -
  let ?start = "new_live lc name_table_default (live_title iface)"
  have "app_timeline ?start = timeline_new []" by (simp add: new_live_def new_with_names_def Let_def case_prod_beta)
  then have "spans_ok (app_timeline ?start)"
    by (simp add: spans_ok_def timeline_new_def with_seq_def with_seq_ending_def Let_def)
  moreover have "wf 0 (tracker_new (live_engine_config secs))" by (rule wf_new)
  then have "room (map snd frames) (tracker_new (live_engine_config secs), False)"
    using assms(1) by (force simp: room_def comp_def)
  ultimately show ?thesis using assms(2) new_live_ok by (simp add: live_good_def)
qed

lemma live_clean:
  assumes "sum_list (map (\<lambda>fr. live_items (lf_events (snd fr))) (env_live_turns env)) < 2 ^ 32"
    and "env_terminal_ok env" and "toolkit_ok (env_toolkit env)" and "screens_ok (map fst (env_live_turns env))"
  shows "run_clean (run_live_command env iface filter' secs want_list)"
proof (cases want_list)
  case True
  then show ?thesis
    by (cases "env_devices env") (simp_all add: run_live_command_def list_interfaces_def run_clean_def no_panic_lifts, simp add: panics_def)
next
  case False
  show ?thesis
  proof (cases "live_checks env iface filter' secs")
    case (Inl e)
    then have "\<And>p. e \<noteq> Panicked p"
      by (auto simp: live_checks_def Let_def and_then_def map_sum_def ok_or_def split: sum.splits option.splits)
    then show ?thesis using Inl False by (simp add: run_live_command_def run_clean_def panics_def)
  next
    case (Inr x)
    obtain i cap where x: "x = (i, cap)" by (cases x)
    from loop_clean [OF live_io.live_loop_io_follows [OF live_start_good [OF assms(1,3)] assms(4)]]
    show ?thesis using Inr False assms(2) by (simp add: run_live_command_def x tui_run_live_def)
  qed
qed

lemma run_is_clean:
  assumes "\<And>path. capture_bounded (env_decoder env) path (env_files env path)"
    and "sum_list (map (\<lambda>fr. live_items (lf_events (snd fr))) (env_live_turns env)) < 2 ^ 32"
    and "env_terminal_ok env" and "toolkit_ok (env_toolkit env)"
    and "screens_ok (env_turns env)" and "screens_ok (map fst (env_live_turns env))"
  shows "run_clean (run env command)"
proof -
  have lift: "run_clean ([], map_option (map_sum id f) r)" if "\<not> panics r" for r :: "(run_error + 'x) option" and f
    using that by (cases rule: no_panic_cases) (auto simp: panics_def run_clean_def)
  have report: "run_clean ([], map_option (\<lambda>r. and_then r (\<lambda>y. map_sum Io f (g y))) r)"
    if "\<not> panics r" for r :: "(run_error + 'x) option" and f :: "'y \<Rightarrow> run_output" and g :: "'x \<Rightarrow> io_error + 'y"
    using that by (cases rule: no_panic_cases) (auto simp: run_clean_def no_panic_lifts, auto simp: panics_def)
  show ?thesis
  proof (cases command)
    case None
    then show ?thesis by (simp add: run_def run_clean_def panics_def)
  next
    case (Some cmd)
    then show ?thesis
      using lift [OF run_parse_no_panic] lift [OF run_conns_no_panic [OF assms(1)]] report [OF metrics_no_panic [OF assms(1)]]
        live_clean [OF assms(2,3,4,6)] replay_clean [OF assms(1,4,5,3)]
      by (cases cmd) (simp_all add: run_def)
  qed
qed

section \<open>What is printed\<close>

text \<open>The first of the next \<open>n\<close> answers that is an error, and what writing lines amounts to.\<close>

definition first_error :: "nat \<Rightarrow> io_error option list \<Rightarrow> io_error option" where
  "first_error n answers = (case filter (\<lambda>a. a \<noteq> None) (take n answers) of [] \<Rightarrow> None | a # _ \<Rightarrow> a)"

definition printed :: "stdout \<Rightarrow> string list \<Rightarrow> run_error + stdout" where
  "printed out ls =
     (case first_error (length ls) (so_answers out) of
        Some e \<Rightarrow> Inl (Io e)
      | None \<Rightarrow> Inr (out\<lparr>so_answers := drop (length ls) (so_answers out), so_lines := so_lines out @ ls\<rparr>))"

fun segments_of :: "item list \<Rightarrow> segment list" where
  "segments_of [] = []"
| "segments_of (Segment s # items) = s # segments_of items"
| "segments_of (Tick t # items) = segments_of items"

lemma write_lines_printed: "lift_io (write_lines out ls) = printed out ls"
proof (induction ls arbitrary: out)
  case Nil
  then show ?case by (simp add: printed_def first_error_def lift_io_def)
next
  case (Cons l ls)
  show ?case
  proof (cases "so_answers out")
    case Nil
    then show ?thesis using Cons.IH [of "out\<lparr>so_lines := so_lines out @ [l]\<rparr>"]
      by (simp add: printed_def first_error_def writeln_def lift_io_def split: option.splits)
  next
    case Ans: (Cons a rest)
    then show ?thesis using Cons.IH [of "out\<lparr>so_answers := rest, so_lines := so_lines out @ [l]\<rparr>"]
      by (cases a) (simp_all add: Ans printed_def first_error_def writeln_def lift_io_def split: option.splits list.splits)
  qed
qed

lemma parse_sink_simps:
  "parse_sink (out, n, Some e) i = (out, n, Some e)"
  "parse_sink (out, n, None) (Tick t) = (out, n, None)"
  "parse_sink (out, n, None) (Segment s) =
     (case writeln out (parse_line s) of Inl e \<Rightarrow> (out, n + 1, Some e) | Inr out' \<Rightarrow> (out', n + 1, None))"
  by (simp_all add: parse_sink_def)

lemma parse_sink_error: "foldl parse_sink (out, n, Some e) items = (out, n, Some e)"
  by (induction items) (simp_all add: parse_sink_simps)

lemma parse_sink_fold:
  assumes "foldl parse_sink (out, n, None) items = (out', n', err)"
  shows "case write_lines out (map parse_line (segments_of items)) of
      Inl e \<Rightarrow> err = Some e
    | Inr o1 \<Rightarrow> out' = o1 \<and> err = None \<and> n' = n + of_nat (length (segments_of items))"
  using assms
proof (induction items arbitrary: out n rule: segments_of.induct)
  case (2 s items)
  show ?case
  proof (cases "writeln out (parse_line s)")
    case (Inl e)
    then show ?thesis using 2(2) by (simp add: parse_sink_simps parse_sink_error)
  next
    case (Inr o1)
    then show ?thesis using 2(1) [of o1 "n + 1"] 2(2) by (simp add: parse_sink_simps algebra_simps split: sum.splits)
  qed
next
  case (3 t items)
  then show ?case by (simp only: segments_of.simps foldl.simps parse_sink_simps)
qed simp

lemma and_then_Inr_right: "and_then r Inr = r"
  by (cases r) simp_all

lemma write_lines_append: "write_lines out (ls @ ms) = and_then (write_lines out ls) (\<lambda>o1. write_lines o1 ms)"
  by (induction ls arbitrary: out) (simp_all add: and_then_def split: sum.splits)

text \<open>Commands that print: every line in order, or the first error of writing them.\<close>

lemma run_parse_printed:
  assumes "parse_file decode path capture = Some (Inr p)"
  shows "run_parse decode path capture out = Some (printed out
      (map parse_line (segments_of (rp_items p)) @ [parse_summary (of_nat (length (segments_of (rp_items p)))) (rp_skipped p)]))"
proof -
  obtain o1 n err where f: "foldl parse_sink (out, 0, None) (rp_items p) = (o1, n, err)" by (rule prod_cases3)
  show ?thesis
    using parse_sink_fold [OF f] f
    by (auto simp: run_parse_def parse_file_visit_of [OF assms(1)] lift_ingest_def lift_io_def write_lines_append and_then_Inr_right
        simp flip: write_lines_printed split: sum.splits option.splits)
qed

lemma run_conns_printed:
  assumes "parse_file decode path capture = Some (Inr p)" and "track (rp_items p) engine_config_default = Inr found"
  shows "run_conns decode path capture out = Some (printed out (map conn_line found @ [conns_summary (length found) (rp_skipped p)]))"
proof -
  obtain tr where "observe_all (tracker_new engine_config_default) (rp_items p) = Inr tr" "into_connections tr = found"
    using assms(2) by (auto simp: track_def and_then_Inr_iff)
  then show ?thesis
    by (simp add: run_conns_def parse_file_visit_of [OF assms(1)] foldl_observe_sink lift_ingest_def lift_panic_def
        flip: write_lines_printed)
qed

end
