(* ===== verification/Spec2Isabelle.thy ===== *)
theory Spec2Isabelle
  imports Tracker_Series Tracker_History Replay_Meaning Live_System Commands
begin

text \<open>
  tcp-visr shows TCP connections over time, from a capture file or from a live interface. This
  development models its crates (\<^verbatim>\<open>src/crates\<close>) and proves what they promise to each other and
  to the user. Data flows in one direction: a \<^emph>\<open>faucet\<close> (\<^verbatim>\<open>tcpvisr-ingest\<close>) turns packets into
  items, the \<^emph>\<open>tracker\<close> (\<^verbatim>\<open>tcpvisr-engine\<close>) folds items into connections and sample series, a
  \<^emph>\<open>timeline\<close> answers queries about them by time, and the \<^emph>\<open>application\<close> (\<^verbatim>\<open>tcpvisr-tui\<close>) moves a
  cursor over a timeline and projects what is visible into rows and plots. The program
  (\<^verbatim>\<open>tcp-visr\<close>) composes these for each subcommand.

  \<^bold>\<open>Theories and sources.\<close>
  \<^item> \<open>Prelude\<close>: machine integers with saturating arithmetic, panics and results, folds that may
    fail, the locale \<open>machine\<close> (a step that keeps an invariant and never fails), binary search
    as \<^verbatim>\<open>partition_point\<close> does it. \<open>Std_Fmt\<close>: what is used of \<^verbatim>\<open>core::fmt\<close> and \<^verbatim>\<open>core::net\<close>.
  \<^item> \<open>Core_Types\<close>, \<open>Names\<close>: \<^verbatim>\<open>tcpvisr-core\<close> (\<^verbatim>\<open>time.rs\<close>, \<^verbatim>\<open>seq.rs\<close>, \<^verbatim>\<open>endpoint.rs\<close>, \<^verbatim>\<open>flow.rs\<close>,
    \<^verbatim>\<open>segment.rs\<close>, \<^verbatim>\<open>metric.rs\<close>, \<^verbatim>\<open>name.rs\<close>).
  \<^item> \<open>Engine_Types\<close>, \<open>Metrics\<close>, \<open>Timeline\<close>, \<open>Tracker\<close>: \<^verbatim>\<open>tcpvisr-engine\<close> (\<^verbatim>\<open>state.rs\<close>, \<^verbatim>\<open>conn.rs\<close>,
    \<^verbatim>\<open>config.rs\<close>; \<^verbatim>\<open>metrics.rs\<close>; \<^verbatim>\<open>timeline.rs\<close>; \<^verbatim>\<open>tracker.rs\<close>). A tracked connection is the record
    \<open>conn_track\<close>, the tracker the record \<open>tracker\<close>; \<open>observe\<close> folds one item in.
  \<^item> \<open>Tracker_Store\<close>, \<open>Tracker_Lifecycle\<close>, \<open>Tracker_Refine\<close>, \<open>Tracker_Properties\<close>,
    \<open>Tracker_History\<close>, \<open>Tracker_Series\<close>: the proofs about the tracker. Recording samples touches only the sample
    stores (locale \<open>recorder\<close>), the invariant \<open>wf\<close> is kept by every item (an interpretation of
    \<open>machine\<close>), a property of a connection's core lifts to runs (locale \<open>core_invariant\<close>), and
    erasing the stores is a refinement onto the tracker that collects nothing.
  \<^item> \<open>Decode\<close>, \<open>Ingest\<close>, \<open>Ingest_Properties\<close>, \<open>Replay_Meaning\<close>: \<^verbatim>\<open>tcpvisr-ingest\<close> (\<^verbatim>\<open>link.rs\<close>,
    \<^verbatim>\<open>dns.rs\<close>, \<^verbatim>\<open>decode.rs\<close> and the counters of \<^verbatim>\<open>lib.rs\<close>; \<^verbatim>\<open>replay.rs\<close>, \<^verbatim>\<open>libpcap.rs\<close>,
    \<^verbatim>\<open>live.rs\<close>), and what a capture file means, by position and without a state.
  \<^item> \<open>Transport\<close>, \<open>App\<close>, \<open>App_Properties\<close>, \<open>Plot\<close>, \<open>Plot_Properties\<close>: \<^verbatim>\<open>tcpvisr-tui\<close> (\<^verbatim>\<open>transport.rs\<close>;
    \<^verbatim>\<open>app.rs\<close>, \<^verbatim>\<open>keys.rs\<close>, \<^verbatim>\<open>service.rs\<close>, the loops of \<^verbatim>\<open>run.rs\<close>; \<^verbatim>\<open>detail.rs\<close>, \<^verbatim>\<open>inflight.rs\<close>,
    \<^verbatim>\<open>rtt.rs\<close>, \<^verbatim>\<open>throughput.rs\<close>). Interfaces are the locales \<open>comparison\<close> (orders of the rows),
    \<open>live_pipeline\<close> (what the live loop needs of a frame) and \<open>plot_contract\<close> (what the pane
    needs of a projection).
  \<^item> \<open>Render\<close>, \<open>Render_Screen\<close>, \<open>Render_Properties\<close>: \<^verbatim>\<open>tcpvisr-tui/src/render.rs\<close>. A frame is the list
    of calls on the terminal library; \<open>shown\<close> is what a cell of the screen holds after them. The
    locale \<open>drawn_plot\<close> extends \<open>plot_contract\<close> and is interpreted on the four views.
  \<^item> \<open>Terminal\<close>: \<^verbatim>\<open>tcpvisr-tui/src/run.rs\<close>. A turn is what the terminal answers in one iteration of a
    loop; the loops with drawing, polling, reading and their errors refine the pure loops of
    \<open>App\<close> (locale \<open>tui_loop\<close>, interpreted on the replay and on the live loop), and the terminal is
    set up before and restored after them.
  \<^item> \<open>Binary\<close>, \<open>Drawn_Sessions\<close>, \<open>Live_Channel\<close>, \<open>Live_System\<close>, \<open>Commands\<close>: \<^verbatim>\<open>tcp-visr/src/main.rs\<close>:
    the subcommands with standard output, what drawing needs of the timelines in both event loops
    (locale \<open>drawn_pipeline\<close>, extending \<open>live_pipeline\<close>), the channel between the capture thread and
    the frames as an inductive set of interleavings, the live session as a system of two threads
    with the guard that stops and joins the capture thread, and the dispatch, messages and exit
    code. This theory holds the properties that span components.

  \<^bold>\<open>What is shown.\<close> Core: serial arithmetic is the order of a window of 2^31, names are sanitised
  and the name table is bounded and latest-wins. Engine: the tracker never panics, counts each
  segment once, holds of each connection what a subsequence of the captured segments explains
  (counters, closed by the FINs of both sides, reset by a RST), shows every open connection in
  the live view (at its present, if segments come in the order of their times), keeps the
  lifecycle monotone, respects the fail-fast ceiling, exceeds
  the eviction ceiling by two samples per connection at most, and reports the same connections
  whatever it collects; metrics obey Karn's rule, the throughput window gives
  the rates of the whole history, goodput never exceeds throughput; the binary searches of the
  timeline answer what scans of the captured series answer. Faucets: the link stripper undoes
  encapsulation, a frame decodes to exactly the segment of its headers, the replay faucet computes
  the meaning of a capture file with its errors, the replay, libpcap and live faucets agree.
  Application: the cursor stays in its domain, playback ends, stepping is invertible, rows are exactly the matching connections in strict order, the selection follows
  the rows, the plots show the most salient sample or the peaks. Rendering: a pane shows on the
  screen exactly its plot, as far as the labels of its axes fit the gutter (a bound is proved
  per axis, and that the round-trip axis exceeds it), and the master list highlights the
  selection. Here: the metrics command finds its connection again in the second pass, replay and
  live sessions never panic from the first packet to the last key, every picture drawn is the
  rendering of the state of the pure loop and the first error of the terminal ends a session,
  the channel accounts for every event, the capture thread computes the capture loop, a live view
  not marked approximate is the snapshot of what was captured first, leaving a session joins the
  capture thread, printing commands report the first write error, and every run of the program
  ends without a panic, with the terminal restored and the exit code of its result.

  \<^bold>\<open>Conventions and bounds.\<close> A panic (an index out of range, \<^verbatim>\<open>clamp\<close> with reversed bounds, an
  overflow of a screen coordinate, a terminal that cannot be set up) is a value, and the theorems
  show that only the last can occur. Words keep their width and wrap where the code does; \<^verbatim>\<open>usize\<close>
  counts and \<^verbatim>\<open>u128\<close> products are natural numbers, and the \<^verbatim>\<open>i64\<close> offsets of the sequence plot, which stay within a few 2^31 of each other's frontier, are integers. Runs of
  the tracker are bounded by 2^32 items because instance numbers are 32-bit; loops whose input
  is a stream take the stream as a list, and a loop that has not seen its end has the result
  \<open>None\<close>. The two threads of a live session interleave step by step: a load or store of an
  atomic or an operation on the channel is one step, and so is sending an event together with
  counting it when the channel is full: the thread counts a lost event before it sends another, so
  a frame between the two sees what a frame before them sees. The events of a packet are sent one step at a time.

  \<^bold>\<open>Parameters.\<close> The header parser (\<^verbatim>\<open>etherparse\<close>), the DNS parser (\<^verbatim>\<open>simple_dns\<close>), the container
  readers (\<^verbatim>\<open>pcap_parser\<close>, \<^verbatim>\<open>pcap\<close>) and Unicode lower-casing are arguments of the definitions that
  use them; no property assumes anything about them, and the witnesses instantiate them. So is
  the layout of the terminal library (\<^verbatim>\<open>ratatui\<close>), of which the drawing theorems assume, as
  \<open>toolkit_ok\<close>, that the parts of a split area and the inside of a block lie within it. What
  a call leaves on the screen (\<open>paint\<close>, \<open>shown\<close>) is the documented behaviour of its buffer for glyphs
  one cell wide. The colours, constraints and widgets the code names are constructors. The JSON text of the metrics
  report is a parameter, what the terminal, standard output and libpcap answer is input.

  \<^bold>\<open>Not modelled.\<close> How the terminal library lays out and paints its widgets and the command line
  parser: calls of libraries. The lines a printing command has written before its capture turns
  out to be unreadable: such a run is its error message. The stub that replaces live capture in a
  build without it is a constant message. The three peak plots repeat their geometry in three
  files; it is modelled once. The crate \<^verbatim>\<open>tcpvisr-enrich\<close> is empty.
\<close>

section \<open>A small capture file and a small live session\<close>

definition example_file :: capture_file where
  "example_file = Readable example_outcomes"

lemma example_file_parsed:
  obtains p where "parse_file example_decoder ''f'' example_file = Some (Inr p)"
    and "rp_items p = [Segment (client_seg 0 1 1 SYN 0), Segment (client_seg 4000 1 1 ACK 0)]"
proof -
  have "map_option (map_sum id rp_items) (parse_file example_decoder ''f'' example_file)
      = Some (Inr [Segment (client_seg 0 1 1 SYN 0), Segment (client_seg 4000 1 1 ACK 0)])" by code_simp
  then show thesis using that by (auto dest!: map_sum_InrD)
qed

definition example_live_frames :: "(key_event option \<times> live_frame) list" where
  "example_live_frames =
     [(None, \<lparr>lf_events = [LiveItem (Segment (client_seg 1000 100 0 SYN 0)), LiveItem (Tick 5000)],
              lf_dropped = 0, lf_skips = 0, lf_elapsed = 0\<rparr>),
      (Some (press (ch (CHR '' ''))), \<lparr>lf_events = [], lf_dropped = 1, lf_skips = 0, lf_elapsed = 9\<rparr>)]"

section \<open>The metrics command\<close>

text \<open>
  Claim C11: the metrics command finds in its second pass the connection it chose in its first. For a
  capture of fewer than 2^32 items and valid options, an index in range gives either the sample
  ceiling error or the series of exactly the connection with that index in the report of
  \<^verbatim>\<open>conns\<close>, and an index out of range gives the message that says so; the internal error is
  never reported.
\<close>

theorem metrics_two_passes:
  assumes "parse_file decode path capture = Some (Inr p)" and "length (rp_items p) < 2 ^ 32"
    and "0 < tw" and "0 < limit" and "track (rp_items p) engine_config_default = Inr found"
  shows "if conn < length found
    then (\<exists>m. run_metrics decode path capture conn tw rw limit = Some (Inl (MetricFailed m)))
      \<or> (\<exists>json. run_metrics decode path capture conn tw rw limit = Some (Inr json)
            \<and> mj_connection json = connection_to_json conn (found ! conn))
    else run_metrics decode path capture conn tw rw limit = Some (Inl (Message (out_of_range conn (length found) path)))"
proof -
  define base where "base = metrics_base_config tw rw limit"
  obtain t1 where t1: "run_pass decode path capture base = Some (Inr t1)" "observe_all (tracker_new base) (rp_items p) = Inr t1"
    using run_pass_of [OF assms(1,2)] by blast
  have same: "into_connections tr = found"
    if "observe_all (tracker_new cfg) (rp_items p) = Inr tr" "retention cfg = FailFast limit"
      "dead_after cfg = dead_after engine_config_default" "reset_threshold cfg = reset_threshold engine_config_default" for cfg tr
    using track_config_irrelevant [OF that(2) _ that(3,4), of 10000000 "rp_items p"] that(1) assms(5)
    by (simp add: track_def engine_config_default_def)
  have found: "into_connections t1 = found" by (rule same [OF t1(2)]) (simp_all add: base_def metrics_base_config_def)
  show ?thesis
  proof (cases "conn < length found")
    case False
    then show ?thesis using assms(3,4) t1(1) found
      by (simp add: run_metrics_def flip: base_def) (simp add: word_gt_0)
  next
    case True
    define cfg where "cfg = base\<lparr>series_collection := CollectOnly (conn_id (found ! conn))\<rparr>"
    obtain t2 where t2: "run_pass decode path capture cfg = Some (Inr t2)" "observe_all (tracker_new cfg) (rp_items p) = Inr t2"
      using run_pass_of [OF assms(1,2)] by blast
    have found2: "into_connections t2 = found"
      by (rule same [OF t2(2)]) (simp_all add: cfg_def base_def metrics_base_config_def)
    have run: "run_metrics decode path capture conn tw rw limit =
        Some (and_then (map_sum MetricFailed id (into_metrics t2)) (\<lambda>ms.
                     case List.find (\<lambda>m. conn_id (cm_conn m) = conn_id (found ! conn)) ms of
                       None \<Rightarrow> Inl (Message ''internal: target connection vanished between passes'')
                     | Some m \<Rightarrow> Inr
                         \<lparr>mj_connection = connection_to_json conn (cm_conn m),
                          mj_throughput_window_ns = throughput_window cfg, mj_reorder_window_ns = reorder_window cfg,
                          mj_samples = map to_sample_json (cm_series m)\<rparr>))"
      using True assms(3,4) t1(1) t2(1) found by (simp add: run_metrics_def Let_def flip: base_def cfg_def)
        (simp add: word_gt_0)
    show ?thesis
    proof (cases "into_metrics t2")
      case (Inl e)
      then show ?thesis using run True by simp
    next
      case (Inr ms)
      have m: "map cm_conn ms = found" using into_metrics_conns [OF Inr] found2 by simp
      then have len: "conn < length ms" and nth: "cm_conn (ms ! conn) = found ! conn"
        using True by (metis length_map, metis length_map nth_map)
      have "distinct (map (\<lambda>m. conn_id (cm_conn m)) ms)"
        using connections_distinct [OF assms(2) t2(2)] m found2 by (metis (mono_tags, lifting) comp_apply list.map_comp map_eq_conv)
      from find_by_id [OF this len] nth have "List.find (\<lambda>m. conn_id (cm_conn m) = conn_id (found ! conn)) ms = Some (ms ! conn)"
        by simp
      then show ?thesis using run Inr True nth by simp
    qed
  qed
qed

theorem metrics_two_passes_witness:
  "run_metrics example_decoder ''f'' example_file 1 1000 3 100 = Some (Inl (Message (out_of_range 1 1 ''f'')))
   \<and> ((\<exists>m. run_metrics example_decoder ''f'' example_file 0 1000 3 100 = Some (Inl (MetricFailed m)))
      \<or> (\<exists>json. run_metrics example_decoder ''f'' example_file 0 1000 3 100 = Some (Inr json)
           \<and> cj_index (mj_connection json) = 0))"
proof -
  obtain p where p: "parse_file example_decoder ''f'' example_file = Some (Inr p)"
      "rp_items p = [Segment (client_seg 0 1 1 SYN 0), Segment (client_seg 4000 1 1 ACK 0)]"
    by (rule example_file_parsed)
  have "map_sum id length (track [Segment (client_seg 0 1 1 SYN 0), Segment (client_seg 4000 1 1 ACK 0)] engine_config_default)
      = Inr 1" by code_simp
  then obtain found where found: "track (rp_items p) engine_config_default = Inr found" "length found = 1"
    unfolding p(2) by (auto dest!: map_sum_InrD)
  have len: "length (rp_items p) < 2 ^ 32" by (simp add: p(2))
  have pos: "(0 :: u64) < 1000" "(0 :: nat) < 100" by simp_all
  from metrics_two_passes [OF p(1) len pos found(1), of 1 3] metrics_two_passes [OF p(1) len pos found(1), of 0 3]
  show ?thesis using found(2) by (auto simp: connection_to_json_def)
qed

section \<open>Replay sessions\<close>

text \<open>
  Claim C10: a replay session is safe from the file to the event loop. For a capture that parses into
  fewer than 2^32 items, building the application gives the sample ceiling error or an
  application over the capture's timeline; from there the event loop never panics, whatever is
  pressed and however much time elapses, and its cursor stays within the capture.
\<close>

theorem replay_session_safe:
  assumes "parse_file decode path capture = Some (Inr p)" and "length (rp_items p) < 2 ^ 32" and "0 < limit"
  shows "(\<exists>e. run_replay decode lc True path capture limit = Some (Inl (MetricFailed e)))
    \<or> (\<exists>self. run_replay decode lc True path capture limit = Some (Inr self)
         \<and> (\<exists>self'. event_loop lc self frames = Inr self'
              \<and> fst (bounds (app_timeline self)) \<le> tp_cursor (app_transport self')
              \<and> tp_cursor (app_transport self') \<le> snd (bounds (app_timeline self))))"
proof -
  consider e where "run_replay decode lc True path capture limit = Some (Inl (MetricFailed e))"
    | self where "run_replay decode lc True path capture limit = Some (Inr self)" "app_ok self" "selection_ok lc self"
        "\<not> is_live self" "tp_bounds (app_transport self) = bounds (app_timeline self)"
    using replay_session [OF assms, of lc] by blast
  then show ?thesis
  proof cases
    case 2
    obtain self' where self': "event_loop lc self frames = Inr self'" "app_ok self'"
        "tp_bounds (app_transport self') = bounds (app_timeline self)"
      using event_loop_ok [OF 2(2,4,3), of frames] 2(5) by auto
    have "fst (bounds (app_timeline self)) = tp_start (app_transport self')"
      "snd (bounds (app_timeline self)) = tp_end (app_transport self')"
      using self'(3) by (auto simp: tp_bounds_def dest: sym)
    with self' 2(1) show ?thesis by (auto simp: app_ok_def transport_ok_def)
  qed blast
qed

theorem replay_session_safe_witness:
  "(\<exists>e. run_replay example_decoder ascii_lower True ''f'' example_file 100 = Some (Inl (MetricFailed e)))
   \<or> (\<exists>self self'. run_replay example_decoder ascii_lower True ''f'' example_file 100 = Some (Inr self)
        \<and> event_loop ascii_lower self [(Some (press RightKey), 5), (None, 7)] = Inr self'
        \<and> tp_cursor (app_transport self') \<le> snd (bounds (app_timeline self)))"
proof -
  obtain p where p: "parse_file example_decoder ''f'' example_file = Some (Inr p)"
      "rp_items p = [Segment (client_seg 0 1 1 SYN 0), Segment (client_seg 4000 1 1 ACK 0)]"
    by (rule example_file_parsed)
  have len: "length (rp_items p) < 2 ^ 32" "0 < (100 :: nat)" by (simp_all add: p(2))
  from replay_session_safe [OF p(1) len, of ascii_lower "[(Some (press RightKey), 5), (None, 7)]"]
  show ?thesis by blast
qed

section \<open>Live sessions\<close>

text \<open>
  Claim C9: a live session never panics. While fewer than 2^32 items arrive, the live loop runs
  through every frame whatever is pressed and received; afterwards the rows belong to exactly
  the connections of the current snapshot, the cursor is inside the retained interval, and it is
  at the present whenever the application follows the capture.
\<close>

theorem live_session_safe:
  assumes "sum_list (map (\<lambda>fr. live_items (lf_events (snd fr))) frames) < 2 ^ 32"
  shows "\<exists>s self. run_live_session lc iface secs frames = Inr (s, self)
    \<and> fst ` set (metas self) = conn_id ` set (connections (app_timeline self))
    \<and> tp_start (app_transport self) \<le> tp_cursor (app_transport self)
    \<and> tp_cursor (app_transport self) \<le> tp_end (app_transport self)
    \<and> (follow self \<longrightarrow> tp_cursor (app_transport self) = tp_end (app_transport self))"
proof -
  from live_frames.live_loop_ok [OF live_session_returns(1) [OF assms, of secs], of "new_live lc name_table_default (live_title iface)" lc "live_title iface"]
  show ?thesis using new_live_ok [of lc name_table_default "live_title iface"]
    by (auto simp: run_live_session_def app_ok_def metas_ok_def transport_ok_def)
qed

theorem live_session_safe_witness:
  "\<exists>s self. run_live_session ascii_lower ''eth0'' 120 example_live_frames = Inr (s, self)
     \<and> fst ` set (metas self) = conn_id ` set (connections (app_timeline self))"
proof -
  have "sum_list (map (\<lambda>fr. live_items (lf_events (snd fr))) example_live_frames) < 2 ^ 32"
    by (simp add: example_live_frames_def)
  from live_session_safe [OF this, of ascii_lower "''eth0''" 120] show ?thesis by blast
qed

section \<open>Drawing\<close>

text \<open>A terminal library that leaves one row for the footer and halves the rest, with a border of one cell.\<close>

definition example_toolkit :: toolkit where
  "example_toolkit =
     \<lparr>tk_split = (\<lambda>dir cs a. case dir of
          Vertical \<Rightarrow> (a\<lparr>rc_height := rc_height a - 1\<rparr>,
            a\<lparr>rc_y := rc_y a + (rc_height a - 1), rc_height := min 1 (rc_height a)\<rparr>)
        | Horizontal \<Rightarrow> (a\<lparr>rc_width := rc_width a div 2\<rparr>,
            a\<lparr>rc_x := rc_x a + rc_width a div 2, rc_width := rc_width a - rc_width a div 2\<rparr>)),
      tk_inner = (\<lambda>b a. if rc_width a < 2 \<or> rc_height a < 2 then a\<lparr>rc_width := 0, rc_height := 0\<rparr>
          else \<lparr>rc_x = rc_x a + 1, rc_y = rc_y a + 1, rc_width = rc_width a - 2, rc_height = rc_height a - 2\<rparr>)\<rparr>"

lemma example_toolkit_ok: "toolkit_ok example_toolkit"
  by (auto simp: toolkit_ok_def example_toolkit_def within_def split: layout_direction.splits)

definition example_screen :: rect where
  "example_screen = \<lparr>rc_x = 0, rc_y = 0, rc_width = 120, rc_height = 40\<rparr>"

lemma example_screen_ok: "on_screen example_screen" "rc_x example_screen = 0"
  by (simp_all add: on_screen_def example_screen_def)

definition example_turn :: "key_event option \<Rightarrow> turn" where
  "example_turn key =
     \<lparr>tn_resize = None, tn_area = example_screen, tn_flush = None, tn_poll = Inr (key \<noteq> None),
      tn_read = (case key of None \<Rightarrow> Inr OtherEvent | Some k \<Rightarrow> Inr (KeyEvent Press k)), tn_elapsed = 50000000\<rparr>"

definition example_turns :: "turn list" where
  "example_turns =
     [example_turn (Some (press EnterKey)), example_turn None, (example_turn None)\<lparr>tn_poll := Inl ''poll''\<rparr>]"

lemma example_turns_ok: "screens_ok example_turns"
  by (simp add: screens_ok_def example_turns_def example_turn_def example_screen_ok)

definition example_live_turns :: "(turn \<times> live_frame) list" where
  "example_live_turns = map (\<lambda>(key, f). (example_turn key, f)) example_live_frames"

lemma example_live_turns_ok:
  "screens_ok (map fst example_live_turns)"
  "sum_list (map (\<lambda>fr. live_items (lf_events (snd fr))) example_live_turns) < 2 ^ 32"
  by (simp_all add: screens_ok_def example_live_turns_def example_live_frames_def example_turn_def example_screen_ok)

text \<open>
  Claim C5: a replay session shows on the terminal what the pure event loop computes. Whatever the
  terminal answers, the i-th picture drawn is the rendering of the state after the keys and
  times of the first i turns, on a screen of any size that starts at column zero, with every
  string starting on that screen; the session ends where the pure loop quits or with the first
  error the terminal returned, and neither handling keys nor drawing panics.
\<close>

theorem replay_session_drawn:
  assumes "parse_file decode path capture = Some (Inr p)" and "length (rp_items p) < 2 ^ 32" and "0 < limit"
    and "toolkit_ok tk" and "screens_ok turns"
  shows "(\<exists>e. run_replay decode lc True path capture limit = Some (Inl (MetricFailed e)))
    \<or> (\<exists>self. run_replay decode lc True path capture limit = Some (Inr self)
         \<and> follows tk lc (\<lambda>n. event_loop lc self (take n (replay_frames turns))) id turns (event_loop_io tk lc self turns))"
  using replay_session [OF assms(1-3), of lc] event_loop_io_follows [OF _ assms(5)] assms(4)
  by (auto simp: replay_good_def)

theorem replay_session_drawn_witness:
  "(\<exists>e. run_replay example_decoder ascii_lower True ''f'' example_file 100 = Some (Inl (MetricFailed e)))
   \<or> (\<exists>self. run_replay example_decoder ascii_lower True ''f'' example_file 100 = Some (Inr self)
        \<and> follows example_toolkit ascii_lower (\<lambda>n. event_loop ascii_lower self (take n (replay_frames example_turns))) id
             example_turns (event_loop_io example_toolkit ascii_lower self example_turns))"
proof -
  obtain p where p: "parse_file example_decoder ''f'' example_file = Some (Inr p)"
      "rp_items p = [Segment (client_seg 0 1 1 SYN 0), Segment (client_seg 4000 1 1 ACK 0)]"
    by (rule example_file_parsed)
  have len: "length (rp_items p) < 2 ^ 32" "0 < (100 :: nat)" by (simp_all add: p(2))
  from replay_session_drawn [OF p(1) len example_toolkit_ok example_turns_ok] show ?thesis .
qed

text \<open>
  Claim C6: a live session shows on the terminal what the pure live loop computes. While fewer than
  2^32 items arrive, the i-th picture drawn is the rendering of the session after the first i
  frames, the session ends where the pure loop quits or with the first error the terminal
  returned, and neither folding the events, handling keys nor drawing panics.
\<close>

theorem live_session_drawn:
  assumes "sum_list (map (\<lambda>fr. live_items (lf_events (snd fr))) turns) < 2 ^ 32"
    and "toolkit_ok tk" and "screens_ok (map fst turns)"
  shows "follows tk lc (\<lambda>n. run_live_session lc iface secs (take n (map (map_prod pressed id) turns))) snd (map fst turns)
    (live_loop_io tk lc (next_frame lc (live_title iface)) (tracker_new (live_engine_config secs), False)
       (new_live lc name_table_default (live_title iface)) turns)"
  using live_io.live_loop_io_follows [OF live_start_good [OF assms(1,2)] assms(3)]
  by (simp add: pure_run_def [abs_def] run_live_session_def)

theorem live_session_drawn_witness:
  "follows example_toolkit ascii_lower
     (\<lambda>n. run_live_session ascii_lower ''eth0'' 120 (take n (map (map_prod pressed id) example_live_turns))) snd
     (map fst example_live_turns)
     (live_loop_io example_toolkit ascii_lower (next_frame ascii_lower (live_title ''eth0''))
        (tracker_new (live_engine_config 120), False) (new_live ascii_lower name_table_default (live_title ''eth0''))
        example_live_turns)"
  using live_session_drawn [OF example_live_turns_ok(2) example_toolkit_ok example_live_turns_ok(1)] .

section \<open>Every command\<close>

text \<open>
  Claim C1: every run of the program ends cleanly. Whatever the options, whatever the files hold (fewer
  than 2^32 items each), whatever libpcap and writing answer, whatever is typed, whatever arrives
  in a live session (fewer than 2^32 items) and whatever the terminal answers once it could be
  set up, a run does not panic; the terminal is untouched, or was set up first and, when the run
  has ended, restored last; and the program exits with success exactly when the command returned
  without an error.
\<close>

theorem run_exits_cleanly:
  assumes "\<And>path. capture_bounded (env_decoder env) path (env_files env path)"
    and "sum_list (map (\<lambda>fr. live_items (lf_events (snd fr))) (env_live_turns env)) < 2 ^ 32"
    and "env_terminal_ok env" and "toolkit_ok (env_toolkit env)"
    and "screens_ok (env_turns env)" and "screens_ok (map fst (env_live_turns env))"
    and "run env command = (calls, r)"
  shows "(calls = [] \<or> terminal_clean calls (r \<noteq> None))
    \<and> (\<forall>x. r = Some x \<longrightarrow> (\<exists>code msgs. main_exit x = Some (code, msgs) \<and> (code = SUCCESS \<longleftrightarrow> (\<exists>y. x = Inr y))))"
proof -
  have clean: "run_clean (calls, r)" using run_is_clean [OF assms(1-6), of command] assms(7) by simp
  have "\<exists>code msgs. main_exit x = Some (code, msgs) \<and> (code = SUCCESS \<longleftrightarrow> (\<exists>y. x = Inr y))" if "\<And>p. x \<noteq> Inl (Panicked p)" for x
    using that by (cases x; cases "projl x") (auto simp: main_exit_def)
  with clean show ?thesis by (auto simp: run_clean_def panics_def)
qed

definition example_environment :: "(unit, unit) environment" where
  "example_environment =
     \<lparr>env_decoder = example_decoder, env_lowercase = ascii_lower, env_lower = id, env_json = (\<lambda>json. ''{}''),
      env_files = (\<lambda>path. example_file), env_stdout = \<lparr>so_answers = [Some ''broken pipe''], so_lines = []\<rparr>,
      env_is_terminal = True, env_terminal_ok = True, env_toolkit = example_toolkit, env_turns = example_turns,
      env_devices = Inr [(''eth0'', None)], env_from_device = (\<lambda>i. Inr ()),
      env_activate = (\<lambda>d n b t p. Inr ()), env_datalink = (\<lambda>c. 1), env_install = (\<lambda>c e. None),
      env_live_turns = example_live_turns\<rparr>"

lemma example_file_bounded:
  "capture_bounded (env_decoder example_environment) path (env_files example_environment path)"
proof -
  have "map_option (map_sum id (\<lambda>p. length (rp_items p))) (parse_file example_decoder path example_file) = Some (Inr 2)"
    by code_simp
  then show ?thesis by (auto simp: capture_bounded_def example_environment_def)
qed

theorem run_exits_cleanly_witness:
  "(\<exists>calls r. run example_environment (Some (Replay ''f'' 100)) = (calls, r)
      \<and> (calls = [] \<or> terminal_clean calls (r \<noteq> None)))
   \<and> run example_environment (Some (Live None None 120 True)) = ([], Some (Inl (Io ''broken pipe'')))
   \<and> main_exit (Inl (Io ''broken pipe'')) = Some (FAILURE, [''error: broken pipe''])"
proof -
  let ?env = example_environment
  have env: "env_terminal_ok ?env" "toolkit_ok (env_toolkit ?env)" "screens_ok (env_turns ?env)"
    "screens_ok (map fst (env_live_turns ?env))"
    "sum_list (map (\<lambda>fr. live_items (lf_events (snd fr))) (env_live_turns ?env)) < 2 ^ 32"
    using example_live_turns_ok by (simp_all add: example_environment_def example_toolkit_ok example_turns_ok)
  obtain calls r where run: "run ?env (Some (Replay ''f'' 100)) = (calls, r)" by fastforce
  have "run ?env (Some (Live None None 120 True)) = ([], Some (Inl (Io ''broken pipe'')))"
    by (simp add: run_def run_live_command_def list_interfaces_def interface_line_def example_environment_def writeln_def)
  then show ?thesis using run_exits_cleanly [OF example_file_bounded env(5) env(1-4) run] run by (simp add: main_exit_def)
qed

text \<open>
  Claim C12: the commands that print report write errors. For a capture that parses, \<^verbatim>\<open>parse\<close> writes one
  line for each segment in the order of the file and a summary that counts them, \<^verbatim>\<open>conns\<close> one for
  each connection of the engine's report and a summary; when a write fails the command returns
  the first such error, even though \<^verbatim>\<open>parse\<close> decodes the rest of the file before it does.
\<close>

theorem reports_printed:
  assumes "parse_file decode path capture = Some (Inr p)" and "track (rp_items p) engine_config_default = Inr found"
  shows "run_parse decode path capture out = Some (printed out
      (map parse_line (segments_of (rp_items p)) @ [parse_summary (of_nat (length (segments_of (rp_items p)))) (rp_skipped p)]))
    \<and> run_conns decode path capture out = Some (printed out (map conn_line found @ [conns_summary (length found) (rp_skipped p)]))"
  using run_parse_printed [OF assms(1)] run_conns_printed [OF assms] by blast

theorem reports_printed_witness:
  "run_parse example_decoder ''f'' example_file \<lparr>so_answers = [None, Some ''broken pipe''], so_lines = []\<rparr>
     = Some (Inl (Io ''broken pipe''))
   \<and> map_option (map_sum id (\<lambda>out. length (so_lines out)))
       (run_conns example_decoder ''f'' example_file \<lparr>so_answers = [None], so_lines = []\<rparr>) = Some (Inr 2)"
proof -
  obtain p where p: "parse_file example_decoder ''f'' example_file = Some (Inr p)"
      "rp_items p = [Segment (client_seg 0 1 1 SYN 0), Segment (client_seg 4000 1 1 ACK 0)]"
    by (rule example_file_parsed)
  have "map_sum id length (track [Segment (client_seg 0 1 1 SYN 0), Segment (client_seg 4000 1 1 ACK 0)] engine_config_default)
      = Inr 1" by code_simp
  then obtain found where found: "track (rp_items p) engine_config_default = Inr found" "length found = 1"
    unfolding p(2) by (auto dest!: map_sum_InrD)
  from reports_printed [OF p(1) found(1), of "\<lparr>so_answers = [None, Some ''broken pipe''], so_lines = []\<rparr>"]
    reports_printed [OF p(1) found(1), of "\<lparr>so_answers = [None], so_lines = []\<rparr>"]
  show ?thesis by (simp add: found(2) p(2) printed_def first_error_def)
qed

end
